(* ===== verification/Prelude.thy ===== *)
theory Prelude
  imports Main "HOL-Library.Word" "HOL-Library.List_Lexorder" "HOL-Library.Sublist"
begin

text \<open>
  The vocabulary every component shares: bytes and byte strings, the machine integer widths the
  engine uses, the two families of integer codecs (big-endian for keys, little-endian for values)
  together with the interfaces they satisfy, and the facts about \<open>memcmp\<close> order that the key
  layouts rest on.

  A byte buffer \<open>const uint8_t *p, size_t len\<close> is a byte list. Keys are compared by the store with
  \<open>memcmp\<close> followed by the length, which is the lexicographic order of
  \<^verbatim>\<open>HOL-Library.List_Lexorder\<close> on lists of unsigned bytes.
\<close>

unbundle bit_operations_syntax

section \<open>Types\<close>

type_synonym byte = "8 word"
type_synonym bytes = "8 word list"
type_synonym u8 = "8 word"
type_synonym u16 = "16 word"
type_synonym u32 = "32 word"
type_synonym u64 = "64 word"

named_theorems codec_simps \<open>unfolding rules of the byte codecs\<close>
named_theorems layout_simps \<open>lengths and shapes of encoded buffers\<close>

section \<open>Generic big-endian and little-endian loops\<close>

text \<open>
  The source writes every integer codec as a counted loop of shifts. The generic loops below are
  parameterised by the width \<open>n\<close> in bytes; each component instantiates them at its own width.
\<close>

definition be_enc :: "nat \<Rightarrow> 'a::len word \<Rightarrow> bytes" where
  "be_enc n v = map (\<lambda>i. ucast (drop_bit ((n - 1 - i) * 8) v)) [0..<n]"

definition be_dec :: "bytes \<Rightarrow> 'a::len word" where
  "be_dec bs = foldl (\<lambda>v b. push_bit 8 v OR ucast b) 0 bs"

definition le_enc :: "nat \<Rightarrow> 'a::len word \<Rightarrow> bytes" where
  "le_enc n v = map (\<lambda>i. ucast (drop_bit (i * 8) v)) [0..<n]"

definition le_dec :: "nat \<Rightarrow> bytes \<Rightarrow> 'a::len word" where
  "le_dec n bs = foldl (\<lambda>v i. v OR push_bit (i * 8) (ucast (bs ! i))) 0 [0..<n]"

lemma length_be_enc [simp, layout_simps]: "length (be_enc n v) = n"
  by (simp add: be_enc_def)

lemma length_le_enc [simp, layout_simps]: "length (le_enc n v) = n"
  by (simp add: le_enc_def)

lemma be_enc_0 [simp]: "be_enc 0 v = []"
  by (simp add: be_enc_def)

lemma be_enc_Suc: "be_enc (Suc n) v = ucast (drop_bit (n * 8) v) # be_enc n v"
  unfolding be_enc_def upt_conv_Cons [OF zero_less_Suc] map_Suc_upt [symmetric]
  by (simp add: comp_def)

text \<open>A loop that indexes a buffer for its first \<open>n\<close> bytes is a fold over those bytes.\<close>

lemma foldl_nth_take:
  "n \<le> length xs \<Longrightarrow> foldl (\<lambda>v i. f v (xs ! i)) a [0..<n] = foldl f a (take n xs)"
  by (induction n) (simp_all add: take_Suc_conv_app_nth)

lemma be_dec_snoc: "be_dec (bs @ [b]) = push_bit 8 (be_dec bs) OR ucast b"
  by (simp add: be_dec_def)

text \<open>The numeric value of a byte string read big-endian, and its agreement with the loop.\<close>

definition be_val :: "bytes \<Rightarrow> nat" where
  "be_val bs = foldl (\<lambda>v b. v * 256 + unat b) 0 bs"

lemma be_val_Nil [simp]: "be_val [] = 0"
  by (simp add: be_val_def)

lemma be_val_snoc: "be_val (bs @ [b]) = be_val bs * 256 + unat b"
  by (simp add: be_val_def)

lemma be_val_acc: "foldl (\<lambda>v b. v * 256 + unat b) a bs = a * 256 ^ length bs + be_val bs"
proof (induction bs rule: rev_induct)
  case Nil
  show ?case by simp
next
  case (snoc b bs)
  then show ?case by (simp add: be_val_def algebra_simps)
qed

lemma be_val_Cons: "be_val (b # bs) = unat b * 256 ^ length bs + be_val bs"
  using be_val_acc [of "unat b" bs] by (simp add: be_val_def)

lemma unat_byte_less: "unat (b :: byte) < 256"
  using unsigned_less [of b, where ?'a = nat] by simp

lemma be_val_less: "be_val bs < 256 ^ length bs"
proof (induction bs)
  case Nil
  show ?case by simp
next
  case (Cons b bs)
  have "unat b * 256 ^ length bs + be_val bs < (unat b + 1) * 256 ^ length bs"
    using Cons by (simp add: algebra_simps)
  also have "\<dots> \<le> 256 * 256 ^ length bs"
    using unat_byte_less [of b] by (intro mult_right_mono) simp_all
  finally show ?case by (simp add: be_val_Cons)
qed

lemma be_val_mono: "length bs = length cs \<Longrightarrow> bs < cs \<longleftrightarrow> be_val bs < be_val cs"
proof (induction bs cs rule: list_induct2)
  case Nil
  show ?case by simp
next
  case (Cons b bs c cs)
  have step: "unat x * 256 ^ length bs + be_val bs' < unat y * 256 ^ length bs + be_val cs'"
    if "x < y" "length bs' = length bs" for x y :: byte and bs' cs' :: bytes
  proof -
    have "unat x * 256 ^ length bs + be_val bs' < (unat x + 1) * 256 ^ length bs"
      using be_val_less [of bs'] that by (simp add: algebra_simps)
    also have "\<dots> \<le> unat y * 256 ^ length bs"
      using that by (intro mult_right_mono) (simp_all add: word_less_nat_alt)
    finally show ?thesis by simp
  qed
  show ?case
  proof (cases "b = c")
    case True
    with Cons show ?thesis by (simp add: be_val_Cons)
  next
    case False
    then consider "b < c" | "c < b" by fastforce
    then show ?thesis
    proof cases
      case 1
      with step [of b c bs cs] Cons show ?thesis by (auto simp: be_val_Cons)
    next
      case 2
      with step [of c b cs bs] Cons have "be_val (c # cs) < be_val (b # bs)"
        by (simp add: be_val_Cons)
      with 2 False show ?thesis by auto
    qed
  qed
qed

lemma unat_drop_bit: "unat (drop_bit k v) = unat v div 2 ^ k"
proof -
  have "unat (drop_bit k v) = drop_bit k (unat v)"
    by (simp add: unsigned_drop_bit_eq take_bit_nat_eq_self)
  then show ?thesis by (simp add: drop_bit_eq_div)
qed

lemma unat_push_bit: "unat (push_bit k (v :: 'a::len word)) = unat v * 2 ^ k mod 2 ^ LENGTH('a)"
proof -
  have "unat (push_bit k v) = take_bit LENGTH('a) (push_bit k (unat v))"
    by (simp add: unsigned_push_bit_eq)
  then show ?thesis by (simp add: push_bit_eq_mult take_bit_eq_mod)
qed

lemma unat_byte_of: "unat (ucast v :: byte) = unat v mod 256"
  by (simp add: unsigned_ucast_eq take_bit_eq_mod)

lemma unat_byte_up: "8 \<le> LENGTH('a) \<Longrightarrow> unat (ucast (b :: byte) :: 'a::len word) = unat b"
proof -
  assume "8 \<le> LENGTH('a)"
  then have "(2 :: nat) ^ 8 \<le> 2 ^ LENGTH('a)"
    by (intro power_increasing) simp_all
  then have "unat b < 2 ^ LENGTH('a)"
    using unat_byte_less [of b] by simp
  then show ?thesis
    by (simp add: unsigned_ucast_eq take_bit_nat_eq_self)
qed

lemma be_val_be_enc: "be_val (be_enc n v) = unat v mod 256 ^ n"
proof (induction n)
  case 0
  show ?case by simp
next
  case (Suc n)
  have "unat (ucast (drop_bit (n * 8) v) :: byte) = (unat v div 256 ^ n) mod 256"
    by (simp add: unat_byte_of unat_drop_bit power_mult mult.commute [of n 8])
  moreover have "unat v mod (256 ^ Suc n) = 256 ^ n * (unat v div 256 ^ n mod 256) + unat v mod 256 ^ n"
    by (metis mod_mult2_eq mult.commute power_Suc)
  ultimately show ?case
    using Suc by (simp add: be_enc_Suc be_val_Cons)
qed

lemma unat_be_dec:
  "8 * length bs \<le> LENGTH('a) \<Longrightarrow> unat (be_dec bs :: 'a::len word) = be_val bs"
proof (induction bs rule: rev_induct)
  case Nil
  show ?case by (simp add: be_dec_def)
next
  case (snoc b bs)
  let ?d = "be_dec bs :: 'a word"
  have len: "8 * length bs \<le> LENGTH('a)" and room: "8 * length bs + 8 \<le> LENGTH('a)"
    using snoc.prems by simp_all
  have ih: "unat ?d = be_val bs" using snoc.IH len by blast
  have "be_val bs * 256 + unat b < 256 ^ (length bs + 1)"
    using be_val_less [of "bs @ [b]"] by (simp add: be_val_snoc)
  also have "\<dots> = 2 ^ (8 * length bs + 8)"
    by (simp add: power_mult power_add)
  also have "\<dots> \<le> 2 ^ LENGTH('a)"
    using room by (intro power_increasing) simp_all
  finally have bound: "be_val bs * 256 + unat b < 2 ^ LENGTH('a)" .
  have disj: "push_bit 8 ?d AND ucast b = 0"
    by (rule bit_word_eqI) (auto simp: bit_simps dest: bit_imp_le_length)
  have "push_bit 8 ?d OR ucast b = push_bit 8 ?d + ucast b"
    using disj by (simp add: disjunctive_add_eq_or)
  moreover have "unat (ucast b :: 'a word) = unat b"
    using room by (simp add: unat_byte_up)
  moreover have "unat (push_bit 8 ?d) = be_val bs * 256"
    using bound ih by (simp add: unat_push_bit)
  ultimately show ?case
    using bound by (simp add: be_dec_snoc be_val_snoc unat_word_ariths)
qed

lemma be_dec_be_enc:
  assumes "LENGTH('a) = 8 * n"
  shows "be_dec (be_enc n v) = (v :: 'a::len word)"
proof (rule word_unat_eq_iff [THEN iffD2])
  have "unat (be_dec (be_enc n v) :: 'a word) = unat v mod 256 ^ n"
    using assms by (simp add: unat_be_dec be_val_be_enc)
  also have "(256 :: nat) ^ n = 2 ^ LENGTH('a)"
    using assms by (simp add: power_mult)
  finally show "unat (be_dec (be_enc n v) :: 'a word) = unat v"
    by simp
qed

lemma be_enc_less:
  assumes "LENGTH('a) = 8 * n"
  shows "be_enc n v < be_enc n w \<longleftrightarrow> v < (w :: 'a::len word)"
proof -
  have "(256 :: nat) ^ n = 2 ^ LENGTH('a)"
    using assms by (simp add: power_mult)
  then have "be_val (be_enc n x) = unat x" for x :: "'a word"
    by (simp add: be_val_be_enc)
  then show ?thesis
    by (simp add: be_val_mono word_less_nat_alt)
qed

text \<open>The little-endian loops read back bit by bit.\<close>

lemma le_dec_Suc: "le_dec (Suc n) bs = le_dec n bs OR push_bit (n * 8) (ucast (bs ! n))"
  by (simp add: le_dec_def)

lemma bit_le_dec:
  "bit (le_dec n bs :: 'a::len word) k \<longleftrightarrow>
     k < LENGTH('a) \<and> k div 8 < n \<and> bit (bs ! (k div 8)) (k mod 8)"
proof (induction n)
  case 0
  show ?case by (simp add: le_dec_def)
next
  case (Suc n)
  have "bit (push_bit (n * 8) (ucast (bs ! n)) :: 'a word) k \<longleftrightarrow>
    k < LENGTH('a) \<and> k div 8 = n \<and> bit (bs ! n) (k mod 8)"
  proof (cases "k div 8 = n")
    case True
    then have "n * 8 \<le> k" and "k - n * 8 = k mod 8"
      by (simp_all add: modulo_nat_def)
    then show ?thesis
      using True by (auto simp: bit_simps)
  next
    case False
    then have "k < n * 8 \<or> 8 \<le> k - n * 8"
      by auto
    then have "\<not> bit (push_bit (n * 8) (ucast (bs ! n)) :: 'a word) k"
      by (auto simp: bit_simps dest: bit_imp_le_length)
    with False show ?thesis by blast
  qed
  with Suc show ?case
    by (auto simp: le_dec_Suc bit_or_iff less_Suc_eq)
qed

lemma le_dec_le_enc:
  assumes "LENGTH('a) = 8 * n"
  shows "le_dec n (le_enc n v @ rest) = (v :: 'a::len word)"
proof (rule bit_word_eqI)
  fix k
  assume "k < LENGTH('a)"
  then have "k div 8 < n" and "k div 8 * 8 + k mod 8 = k" and "k mod 8 < 8"
    using assms by (simp_all add: div_mult_mod_eq)
  with \<open>k < LENGTH('a)\<close> show "bit (le_dec n (le_enc n v @ rest) :: 'a word) k = bit v k"
    by (simp add: bit_le_dec nth_append le_enc_def bit_simps add.commute) linarith
qed

lemma le_enc_le_dec:
  assumes "LENGTH('a) = 8 * n" "n \<le> length p"
  shows "le_enc n (le_dec n p :: 'a::len word) = take n p"
proof (rule nth_equalityI)
  show "length (le_enc n (le_dec n p :: 'a word)) = length (take n p)"
    using assms(2) by (simp add: le_enc_def)
  fix i
  assume "i < length (le_enc n (le_dec n p :: 'a word))"
  then have i: "i < n"
    by (simp add: le_enc_def)
  show "le_enc n (le_dec n p :: 'a word) ! i = take n p ! i"
  proof (rule bit_word_eqI)
    fix k
    assume "k < LENGTH(8)"
    then have "k < 8"
      by simp
    moreover from this have "i * 8 + k < LENGTH('a)"
      using i assms(1) by linarith
    ultimately show "bit (le_enc n (le_dec n p :: 'a word) ! i) k = bit (take n p ! i) k"
      using i by (simp add: le_enc_def bit_simps bit_le_dec)
  qed
qed

section \<open>Codec interfaces\<close>

text \<open>
  What a client of a fixed-width integer field relies on: the field has a known width and reads
  back. From that alone a field can be peeled off the front of any buffer.
\<close>

locale fixed_codec =
  fixes enc :: "'a \<Rightarrow> bytes"
    and dec :: "bytes \<Rightarrow> 'a"
    and width :: nat
  assumes enc_length: "length (enc x) = width"
    and dec_enc: "dec (enc x) = x"
begin

lemma enc_inject [simp]: "enc x = enc y \<longleftrightarrow> x = y"
  by (metis dec_enc)

lemma enc_append_inject [simp]: "enc x @ r = enc y @ s \<longleftrightarrow> x = y \<and> r = s"
  by (simp add: enc_length append_eq_append_conv)

lemma take_enc: "take width (enc x @ r) = enc x"
  by (simp add: enc_length [of x, symmetric])

lemma drop_enc: "drop width (enc x @ r) = r"
  by (simp add: enc_length [of x, symmetric])

lemma dec_take: "dec (take width (enc x @ r)) = x"
  by (simp only: take_enc dec_enc)

end

text \<open>
  A key field additionally sorts: \<open>memcmp\<close> on the encoded bytes is the order on values. Its clients
  are the composite keys, where the field is followed by further bytes.
\<close>

lemma append_less_same_length:
  "length (x :: 'b::linorder list) = length y \<Longrightarrow> x @ r < y @ s \<longleftrightarrow> x < y \<or> x = y \<and> r < s"
  by (induction x y rule: list_induct2) auto

locale ordered_codec = fixed_codec enc dec width
  for enc :: "'a::linorder \<Rightarrow> bytes" and dec and width +
  assumes enc_less: "enc x < enc y \<longleftrightarrow> x < y"
begin

lemma enc_le: "enc x \<le> enc y \<longleftrightarrow> x \<le> y"
  by (simp add: not_less [symmetric] enc_less)

lemma composite_less: "enc x @ r < enc y @ s \<longleftrightarrow> x < y \<or> x = y \<and> r < s"
  by (simp add: append_less_same_length enc_length enc_less)

lemma composite_le: "enc x @ r \<le> enc y @ s \<longleftrightarrow> x < y \<or> x = y \<and> r \<le> s"
  by (auto simp: le_less composite_less)

text \<open>A seek to the bare field lands at or before every composite key carrying at least it.\<close>

lemma seek_bound: "enc x \<le> enc y @ s \<longleftrightarrow> x \<le> y"
proof -
  have "[] \<le> s" by (cases s) simp_all
  with composite_le [of x "[]" y s] show ?thesis by (auto simp: less_le)
qed

end

lemma be_ordered_codec:
  assumes "LENGTH('a) = 8 * n"
  shows "ordered_codec (be_enc n :: 'a::len word \<Rightarrow> bytes) be_dec n"
  using assms by unfold_locales (simp_all add: be_dec_be_enc be_enc_less)

text \<open>
  The masked form of the encoding loop, \<open>(v >> k) & 0xFF\<close>, writes the same bytes as the plain one.
\<close>

lemma ucast_mask_byte: "(ucast (v AND 0xFF) :: byte) = ucast (v :: 'a::len word)"
proof (rule bit_word_eqI)
  fix k
  assume k: "k < LENGTH(8)"
  have ff: "(0xFF :: 'a word) = mask 8"
    by (simp add: mask_eq_exp_minus_1)
  show "bit (ucast (v AND 0xFF) :: byte) k = bit (ucast v :: byte) k"
    unfolding ff using k by (auto simp: bit_simps dest: bit_imp_le_length)
qed

text \<open>A decoding loop over the first \<open>n\<close> bytes of a buffer that starts with an encoded field.\<close>

lemma be_loop_enc:
  assumes "LENGTH('a) = 8 * n"
  shows "foldl (\<lambda>v i. push_bit 8 v OR ucast ((be_enc n x @ r) ! i)) 0 [0..<n] = (x :: 'a::len word)"
proof -
  have "foldl (\<lambda>v i. push_bit 8 v OR ucast ((be_enc n x @ r) ! i)) 0 [0..<n]
    = (be_dec (take n (be_enc n x @ r)) :: 'a word)"
    unfolding be_dec_def by (rule foldl_nth_take) simp
  then show ?thesis using assms by (simp add: be_dec_be_enc)
qed

lemma be_enc_be_dec:
  assumes "LENGTH('a) = 8 * n" "length bs = n"
  shows "be_enc n (be_dec bs :: 'a::len word) = bs"
proof -
  have "256 ^ n = (2 :: nat) ^ LENGTH('a)"
    using assms by (simp add: power_mult)
  then have "be_val (be_enc n (be_dec bs :: 'a word)) = be_val bs"
    using assms be_val_less [of bs] by (simp add: be_val_be_enc unat_be_dec)
  then have "\<not> be_enc n (be_dec bs :: 'a word) < bs" and "\<not> bs < be_enc n (be_dec bs :: 'a word)"
    using assms by (simp_all add: be_val_mono)
  then show ?thesis by (simp add: not_less)
qed

section \<open>Length-prefixed strings\<close>

text \<open>
  What the two record formats of the engine rely on from their string fields: a string within the
  limit reads back with the rest of the buffer intact, and whatever reads at all is exactly what
  was written.
\<close>

locale framed_string =
  fixes put :: "bytes \<Rightarrow> bytes"
    and get :: "bytes \<Rightarrow> (bytes \<times> bytes) option"
    and lim :: nat
  assumes get_put: "length s \<le> lim \<Longrightarrow> get (put s @ r) = Some (s, r)"
    and get_sound: "get p = Some (s, r) \<Longrightarrow> length s \<le> lim \<and> p = put s @ r"
begin

lemma get_iff: "get p = Some (s, r) \<longleftrightarrow> length s \<le> lim \<and> p = put s @ r"
  using get_put get_sound by blast

lemma put_inject: "length s \<le> lim \<Longrightarrow> length s' \<le> lim \<Longrightarrow> put s @ r = put s' @ r' \<longleftrightarrow> s = s' \<and> r = r'"
  by (metis get_put option.inject prod.inject)

end

text \<open>The framing both formats use: a 32-bit big-endian length, bounded, then the bytes.\<close>

lemma framed_string_32:
  assumes lim: "unat (lim :: u32) < 2 ^ 32"
    and put: "\<And>s. put s = be_enc 4 (of_nat (length s) :: u32) @ s"
    and get: "\<And>p. get p =
      (if length p < 4 then None
       else let n = be_dec (take 4 p) :: u32; p' = drop 4 p
         in if n > lim then None else if length p' < unat n then None
            else Some (take (unat n) p', drop (unat n) p'))"
  shows "framed_string put get (unat lim)"
proof
  fix s r p :: bytes
  show "get (put s @ r) = Some (s, r)" if "length s \<le> unat lim"
  proof -
    have "unat (of_nat (length s) :: u32) = length s"
      using that lim by (simp add: unat_of_nat)
    moreover have "\<not> lim < of_nat (length s)"
      using that calculation by (simp add: word_less_nat_alt)
    ultimately show ?thesis
      by (simp add: get put be_dec_be_enc Let_def)
  qed
  show "length s \<le> unat lim \<and> p = put s @ r" if g: "get p = Some (s, r)"
  proof -
    let ?n = "be_dec (take 4 p) :: u32"
    have p: "4 \<le> length p" "?n \<le> lim" "unat ?n \<le> length (drop 4 p)"
      "s = take (unat ?n) (drop 4 p)" "r = drop (unat ?n) (drop 4 p)"
      using g by (auto simp: get Let_def split: if_splits)
    then have "length s = unat ?n"
      by simp
    moreover have "be_enc 4 ?n = take 4 p"
      using p by (intro be_enc_be_dec) simp_all
    ultimately have "put s = take 4 p @ s"
      by (simp add: put)
    moreover have "s @ r = drop 4 p"
      using p(4,5) by (simp only: append_take_drop_id)
    ultimately have "p = put s @ r"
      by simp
    with p(2) \<open>length s = unat ?n\<close> show ?thesis
      by (simp add: word_le_nat_alt)
  qed
qed

section \<open>Text as bytes\<close>

definition bytes_of :: "string \<Rightarrow> bytes" where
  "bytes_of s = map of_char s"

definition str_of :: "bytes \<Rightarrow> string" where
  "str_of b = map (\<lambda>x. char_of (unat x)) b"

lemma unat_of_char: "unat (of_char c :: u8) = of_char c"
proof -
  have "(of_char c :: u8) = of_nat (of_char c)"
    by (simp add: of_nat_of_char)
  then show ?thesis
    by (simp add: unat_of_nat)
qed

lemma str_of_bytes_of [simp]: "str_of (bytes_of s) = s"
  by (simp add: str_of_def bytes_of_def comp_def unat_of_char)

lemma bytes_of_str_of [simp]: "bytes_of (str_of b) = b"
proof -
  have "(of_char (char_of (unat x)) :: u8) = x" for x :: u8
  proof -
    have "unat x < 256"
      using unsigned_less [of x] by simp
    then show ?thesis
      using unat_of_char [of "char_of (unat x)"] by (simp add: of_char_of word_unat_eq_iff)
  qed
  then show ?thesis
    by (simp add: str_of_def bytes_of_def comp_def)
qed

lemma bytes_of_simps [simp]:
  "length (bytes_of s) = length s" "length (str_of b) = length b" "bytes_of [] = []" "str_of [] = []"
  "bytes_of (s @ t) = bytes_of s @ bytes_of t" "(bytes_of s = []) = (s = [])" "(str_of b = []) = (b = [])"
  by (simp_all add: bytes_of_def str_of_def)

lemma bytes_of_inject [simp]: "bytes_of s = bytes_of t \<longleftrightarrow> s = t" "str_of a = str_of b \<longleftrightarrow> a = b"
  by (metis str_of_bytes_of) (metis bytes_of_str_of)
end
