(* ===== verification/Row_Format.thy ===== *)
theory Row_Format
  imports Prelude
begin

text \<open>
  The on-disk framing of \<^verbatim>\<open>src/tidesdb/src/core/row_format.{h,cc}\<close>: the five-byte row header that
  makes instant add and drop column possible, the big-endian hidden primary key, and the namespace
  byte that separates the meta keyspace from the data keyspace.
\<close>

section \<open>Constants and the header\<close>

definition KEY_NS_META :: u8 where [codec_simps]: "KEY_NS_META = 0x00"
definition KEY_NS_DATA :: u8 where [codec_simps]: "KEY_NS_DATA = 0x01"
definition KEY_NAMESPACE_LEN :: nat where [codec_simps]: "KEY_NAMESPACE_LEN = 1"
definition HIDDEN_PK_SIZE :: nat where [codec_simps]: "HIDDEN_PK_SIZE = 8"
definition ROW_HEADER_MAGIC :: u8 where [codec_simps]: "ROW_HEADER_MAGIC = 0xFE"
definition ROW_HEADER_SIZE :: nat where [codec_simps]: "ROW_HEADER_SIZE = 5"
definition BITS_PER_BYTE :: nat where [codec_simps]: "BITS_PER_BYTE = 8"

record row_header =
  null_bytes :: u16
  field_count :: u16

section \<open>Operations\<close>

definition rf_store_u16le :: "u16 \<Rightarrow> bytes" where
  [codec_simps]: "rf_store_u16le v = [ucast v, ucast (drop_bit 8 v)]"

text \<open>The two bytes are promoted to \<open>int\<close> before the shift, and the union is cut back to 16 bits.\<close>

definition rf_load_u16le :: "bytes \<Rightarrow> u16" where
  [codec_simps]: "rf_load_u16le p = ucast (ucast (p ! 0) OR push_bit 8 (ucast (p ! 1)) :: 32 word)"

definition encode_row_header :: "u16 \<Rightarrow> u16 \<Rightarrow> bytes" where
  "encode_row_header nb fc = [ROW_HEADER_MAGIC] @ rf_store_u16le nb @ rf_store_u16le fc"

definition decode_row_header :: "bytes \<Rightarrow> row_header option" where
  "decode_row_header data =
     (if length data < ROW_HEADER_SIZE \<or> data ! 0 \<noteq> ROW_HEADER_MAGIC then None
      else Some \<lparr>null_bytes = rf_load_u16le (drop 1 data),
                 field_count = rf_load_u16le (drop (1 + 2) data)\<rparr>)"

definition encode_be64 :: "u64 \<Rightarrow> bytes" where
  "encode_be64 rid =
     map (\<lambda>i. ucast (drop_bit ((HIDDEN_PK_SIZE - 1 - i) * BITS_PER_BYTE) rid)) [0..<HIDDEN_PK_SIZE]"

definition decode_be64 :: "bytes \<Rightarrow> u64" where
  "decode_be64 inp =
     foldl (\<lambda>rid i. push_bit BITS_PER_BYTE rid OR ucast (inp ! i)) 0 [0..<HIDDEN_PK_SIZE]"

text \<open>The buffer written, and the length the function returns in 32 bits.\<close>

definition build_data_key :: "bytes \<Rightarrow> bytes \<times> u32" where
  "build_data_key pk =
     ([KEY_NS_DATA] @ pk, of_nat (length pk) + of_nat KEY_NAMESPACE_LEN)"

definition is_data_key :: "bytes \<Rightarrow> bool" where
  "is_data_key key \<longleftrightarrow> length key > 0 \<and> key ! 0 = KEY_NS_DATA"

section \<open>Lemmas\<close>

lemma load_store_u16le [simp]: "rf_load_u16le (rf_store_u16le v @ rest) = v"
proof (rule bit_word_eqI)
  fix k
  assume "k < LENGTH(16)"
  then show "bit (rf_load_u16le (rf_store_u16le v @ rest)) k = bit v k"
    by (cases "k < 8") (auto simp: codec_simps bit_simps dest: bit_imp_le_length)
qed

lemma length_store_u16le [simp, layout_simps]: "length (rf_store_u16le v) = 2"
  by (simp add: rf_store_u16le_def)

lemma length_encode_row_header [simp, layout_simps]:
  "length (encode_row_header nb fc) = ROW_HEADER_SIZE"
  by (simp add: encode_row_header_def ROW_HEADER_SIZE_def)

lemma encode_be64_be_enc: "encode_be64 = be_enc 8"
  by (rule ext) (simp add: encode_be64_def be_enc_def codec_simps)

lemma decode_be64_be_dec: "8 \<le> length bs \<Longrightarrow> decode_be64 bs = be_dec (take 8 bs)"
  unfolding decode_be64_def be_dec_def codec_simps by (rule foldl_nth_take)

text \<open>The hidden primary key is an ordered fixed-width field.\<close>

interpretation be64: ordered_codec encode_be64 decode_be64 8
proof
  fix x y :: u64
  show len: "length (encode_be64 x) = 8"
    by (simp add: encode_be64_be_enc)
  show "decode_be64 (encode_be64 x) = x"
    by (simp add: decode_be64_be_dec len encode_be64_be_enc be_dec_be_enc)
  show "encode_be64 x < encode_be64 y \<longleftrightarrow> x < y"
    by (simp add: encode_be64_be_enc be_enc_less)
qed

lemma build_data_key_less [simp]:
  "fst (build_data_key p) < fst (build_data_key q) \<longleftrightarrow> p < q"
  by (simp add: build_data_key_def)

section \<open>Properties\<close>

text \<open>A written header reads back, whatever packed row follows it.\<close>

theorem row_header_roundtrip:
  "decode_row_header (encode_row_header nb fc @ row) = Some \<lparr>null_bytes = nb, field_count = fc\<rparr>"
proof -
  let ?d = "encode_row_header nb fc @ row"
  have "drop 1 ?d = rf_store_u16le nb @ (rf_store_u16le fc @ row)"
    and "drop (1 + 2) ?d = rf_store_u16le fc @ row"
    by (simp_all add: encode_row_header_def rf_store_u16le_def)
  moreover have "?d ! 0 = ROW_HEADER_MAGIC"
    by (simp add: encode_row_header_def)
  ultimately show ?thesis
    by (simp only: decode_row_header_def load_store_u16le length_append length_encode_row_header)
      simp
qed

text \<open>The data keys of the hidden primary key sort by row id, and every data key sorts after
  every key of the meta namespace, so a scan that seeks to the data byte sees exactly the rows.\<close>

theorem hidden_pk_keyspace:
  "(fst (build_data_key (encode_be64 a)) < fst (build_data_key (encode_be64 b)) \<longleftrightarrow> a < b)
   \<and> KEY_NS_META # m < fst (build_data_key p)
   \<and> is_data_key (fst (build_data_key p))
   \<and> \<not> is_data_key (KEY_NS_META # m)
   \<and> snd (build_data_key p) = of_nat (length (fst (build_data_key p)))
   \<and> decode_be64 (tl (fst (build_data_key (encode_be64 a)))) = a"
  by (simp add: be64.enc_less be64.dec_enc) (simp add: build_data_key_def is_data_key_def codec_simps be64.dec_enc)

end
