(* ===== verification/Rir.thy ===== *)
theory Rir
  imports Prelude
begin

text \<open>
  The row estimates of \<^verbatim>\<open>src/tidesdb/src/core/rir.{h,cc}\<close> that do not come from a range count.
\<close>

definition DEFAULT_EST :: u64 where "DEFAULT_EST = 10"
definition MIN_STATS_RECORDS :: u64 where "MIN_STATS_RECORDS = 2"
definition UNKNOWN_DENOM :: u64 where "UNKNOWN_DENOM = 4"
definition REC_PER_KEY_FLOOR :: u64 where "REC_PER_KEY_FLOOR = 1"

definition unknown_fallback :: "u64 \<Rightarrow> u64" where
  "unknown_fallback tot = tot div UNKNOWN_DENOM + REC_PER_KEY_FLOOR"

definition point_estimate :: "u64 \<Rightarrow> u64 \<Rightarrow> u64" where
  "point_estimate rpk tot =
     (let est = if rpk > 0 then rpk else REC_PER_KEY_FLOOR
      in if est > tot then tot else est)"

lemma unat_unknown_fallback: "unat (unknown_fallback tot) = unat tot div 4 + 1"
proof -
  have "unat tot div 4 + 1 < 2 ^ 64"
    using unsigned_less [of tot, where ?'a = nat] by simp
  moreover have "unat (tot div UNKNOWN_DENOM) = unat tot div 4"
    by (simp add: UNKNOWN_DENOM_def unat_div)
  ultimately show ?thesis
    by (simp add: unknown_fallback_def REC_PER_KEY_FLOOR_def unat_word_ariths)
qed

text \<open>On a non-empty table both estimates stay between one row and the table, and the fallback
  neither wraps nor reads as an empty relation.\<close>

theorem estimates_in_table:
  assumes "1 \<le> tot"
  shows "1 \<le> point_estimate rpk tot \<and> point_estimate rpk tot \<le> tot
    \<and> (rpk \<noteq> 0 \<and> rpk \<le> tot \<longrightarrow> point_estimate rpk tot = rpk)
    \<and> 1 \<le> unat (unknown_fallback tot) \<and> unat (unknown_fallback tot) = unat tot div 4 + 1"
proof -
  have "1 \<le> rpk" if "rpk \<noteq> 0"
    using that by (metis linorder_not_le word_less_1)
  then show ?thesis
    using assms unat_unknown_fallback [of tot]
    by (auto simp: point_estimate_def Let_def REC_PER_KEY_FLOOR_def word_gt_0)
qed

theorem estimates_in_table_witness:
  "(1 :: u64) \<le> 100 \<and> point_estimate 7 100 = 7 \<and> unat (unknown_fallback 100) = 26"
  using estimates_in_table [of 100 7] by simp

end
