(* ===== verification/Sort_Key.thy ===== *)
theory Sort_Key
  imports Prelude
begin

text \<open>
  The decoder of memory-comparable sort keys, \<^verbatim>\<open>src/tidesdb/src/core/sort_key.{h,cc}\<close>. A covering
  index read rebuilds column values from key bytes with it. The destination pointer is modelled by
  the bytes written there; \<open>None\<close> is the \<open>false\<close> return, which leaves the destination untouched.
\<close>

section \<open>Data\<close>

definition INT_SIGN_FLIP_MASK :: u8 where [codec_simps]: "INT_SIGN_FLIP_MASK = 0x80"
definition DATE_PACK_LEN :: nat where [codec_simps]: "DATE_PACK_LEN = 3"
definition DATETIME_MAX_PACK_LEN :: nat where [codec_simps]: "DATETIME_MAX_PACK_LEN = 8"

datatype sort_kind = undecodable | integer | year | date | datetime | char_fixed

record field_sort_desc =
  fsd_k :: sort_kind
  fsd_is_signed :: bool
  fsd_pack_length :: nat
  fsd_pad_byte :: u8

section \<open>Operations\<close>

definition decode_int :: "bytes \<Rightarrow> nat \<Rightarrow> bool \<Rightarrow> bytes option" where
  "decode_int src sort_len is_signed =
     (if sort_len = 0 \<or> (sort_len > 4 \<and> sort_len \<noteq> 8) then None
      else let to = map (\<lambda>i. src ! (sort_len - 1 - i)) [0..<sort_len]
        in Some (if is_signed
                 then to[sort_len - 1 := to ! (sort_len - 1) XOR INT_SIGN_FLIP_MASK] else to))"

definition decode_reverse :: "bytes \<Rightarrow> nat \<Rightarrow> bytes option" where
  "decode_reverse src sort_len = Some (map (\<lambda>i. src ! (sort_len - 1 - i)) [0..<sort_len])"

definition decode_part :: "bytes \<Rightarrow> nat \<Rightarrow> field_sort_desc \<Rightarrow> bytes option" where
  "decode_part src sort_len d =
     (case fsd_k d of
        integer \<Rightarrow> decode_int src sort_len (fsd_is_signed d)
      | year \<Rightarrow> if sort_len < 1 then None else Some [src ! 0]
      | date \<Rightarrow> if sort_len \<noteq> DATE_PACK_LEN then None else decode_reverse src sort_len
      | datetime \<Rightarrow>
          if sort_len = 0 \<or> sort_len > DATETIME_MAX_PACK_LEN then None
          else decode_reverse src sort_len
      | char_fixed \<Rightarrow>
          let copy = if sort_len < fsd_pack_length d then sort_len else fsd_pack_length d
          in Some (take copy src @
                   (if copy < fsd_pack_length d
                    then replicate (fsd_pack_length d - copy) (fsd_pad_byte d) else []))
      | undecodable \<Rightarrow> None)"

section \<open>The native value of decoded bytes\<close>

text \<open>
  A native integer column is little-endian two's complement. \<open>native_unsigned\<close> and
  \<open>native_signed\<close> read such a buffer as a number; they are the reference the decoder is measured
  against, not part of it.
\<close>

definition native_unsigned :: "bytes \<Rightarrow> int" where
  "native_unsigned bs = int (be_val (rev bs))"

definition native_signed :: "bytes \<Rightarrow> int" where
  "native_signed bs =
     (if 2 * native_unsigned bs \<ge> 256 ^ length bs
      then native_unsigned bs - 256 ^ length bs else native_unsigned bs)"

lemma reverse_loop: "length src = n \<Longrightarrow> map (\<lambda>i. src ! (n - 1 - i)) [0..<n] = rev src"
  by (rule nth_equalityI) (simp_all add: rev_nth)

lemma xor_top_bit: "(b :: u8) XOR 0x80 = b + 0x80"
proof -
  have top: "bit (0x80 :: u8) k \<longleftrightarrow> k = 7" for k
    using bit_exp_iff [where ?'a = u8, of 7 k] by (auto simp: possible_bit_def)
  have add: "c + 0x80 = c XOR 0x80" if "\<not> bit c 7" for c :: u8
  proof (rule disjunctive_add_eq_xor, rule bit_word_eqI)
    fix k
    show "bit (c AND 0x80) k = bit 0 k"
      using that by (simp only: bit_and_iff top) auto
  qed
  show ?thesis
  proof (cases "bit b 7")
    case True
    then have "\<not> bit (b XOR 0x80) 7"
      by (simp only: bit_xor_iff top) simp
    from add [OF this] have "(b XOR 0x80) + 0x80 = b"
      by (simp add: xor.assoc)
    then have "b XOR 0x80 = b - 0x80"
      by (simp add: eq_diff_eq)
    then show ?thesis by (simp add: diff_conv_add_uminus del: add_uminus_conv_diff)
  next
    case False
    then show ?thesis by (simp add: add)
  qed
qed

lemma sign_flip: "unat ((b :: u8) XOR 0x80) = (if unat b < 128 then unat b + 128 else unat b - 128)"
  using unat_byte_less [of b] by (simp add: xor_top_bit unat_word_ariths mod_if)

lemma decode_int_eq:
  assumes "length src = n"
  shows "decode_int src n sg =
    (if n \<in> {1, 2, 3, 4, 8} then Some (if sg then rev ((hd src XOR 0x80) # tl src) else rev src)
     else None)"
proof (cases src)
  case Nil
  with assms show ?thesis by (simp add: decode_int_def)
next
  case (Cons b bs)
  have "(rev src)[n - 1 := rev src ! (n - 1) XOR 0x80] = rev ((b XOR 0x80) # bs)"
    using assms Cons by (auto simp: nth_append list_update_append)
  moreover have "n \<in> {1, 2, 3, 4, 8} \<longleftrightarrow> \<not> (n = 0 \<or> (n > 4 \<and> n \<noteq> 8))"
    by auto
  ultimately show ?thesis
    using reverse_loop [OF assms] Cons
    by (simp add: decode_int_def Let_def INT_SIGN_FLIP_MASK_def)
qed

lemma native_unsigned_rev [simp]: "native_unsigned (rev bs) = int (be_val bs)"
  by (simp add: native_unsigned_def)

lemma native_signed_flip:
  "native_signed (rev ((b XOR 0x80) # bs)) = int (be_val (b # bs)) - 128 * 256 ^ length bs"
proof -
  let ?p = "256 ^ length bs :: int" and ?v = "int (be_val bs)"
  have v: "0 \<le> ?v" "?v < ?p"
    using be_val_less [of bs] by (simp_all flip: of_nat_power)
  have u: "native_unsigned (rev ((b XOR 0x80) # bs)) = int (unat (b XOR 0x80)) * ?p + ?v"
    by (simp only: native_unsigned_rev be_val_Cons) simp
  have w: "int (be_val (b # bs)) = int (unat b) * ?p + ?v"
    by (simp add: be_val_Cons)
  show ?thesis
  proof (cases "unat b < 128")
    case True
    have "128 * ?p \<le> (int (unat b) + 128) * ?p"
      using v by (intro mult_right_mono) auto
    with True u w v show ?thesis
      by (simp add: native_signed_def sign_flip algebra_simps)
  next
    case False
    then have k: "int (unat b - 128) \<le> 127"
      using unat_byte_less [of b] by linarith
    have "int (unat b - 128) * ?p \<le> 127 * ?p"
      using k by (rule mult_right_mono) simp
    then have "int (unat b - 128) * ?p + ?v < 128 * ?p"
      using v(2) by linarith
    with False u w show ?thesis
      by (simp add: native_signed_def sign_flip algebra_simps of_nat_diff)
  qed
qed

lemma decode_int_signed:
  assumes "length s = n" "n \<in> {1, 2, 3, 4, 8}"
  shows "\<exists>to. decode_int s n True = Some to \<and> length to = n
     \<and> native_signed to = int (be_val s) - 128 * 256 ^ (n - 1)"
proof (cases s)
  case Nil
  with assms show ?thesis by simp
next
  case (Cons b bs)
  then have "decode_int s n True = Some (rev ((b XOR 0x80) # bs))" and "n - 1 = length bs"
    using decode_int_eq [OF assms(1), of True] assms by auto
  moreover from this have "length (rev ((b XOR 0x80) # bs)) = n"
    using assms Cons by simp
  ultimately show ?thesis
    using native_signed_flip [of b bs] Cons by metis
qed

section \<open>Properties\<close>

text \<open>C30: for the five server integer widths the decoder inverts the comparable encoding: an unsigned
  key's native value is the big-endian number in the key, a signed one is that number less the sign
  bias, so \<open>memcmp\<close> order on keys is numeric order on the decoded values; every other width is
  refused.\<close>

theorem decode_int_inverts:
  assumes "length src = n" "length src' = n" "n \<in> {1, 2, 3, 4, 8}"
  shows "(\<exists>to to'. decode_int src n True = Some to \<and> decode_int src' n True = Some to'
           \<and> length to = n \<and> native_signed to = int (be_val src) - 128 * 256 ^ (n - 1)
           \<and> (src < src' \<longleftrightarrow> native_signed to < native_signed to'))
    \<and> (\<exists>to. decode_int src n False = Some to \<and> native_unsigned to = int (be_val src))
    \<and> (m \<notin> {1, 2, 3, 4, 8} \<longrightarrow> decode_int src m sg = None)"
proof -
  obtain to where to: "decode_int src n True = Some to" "length to = n"
      "native_signed to = int (be_val src) - 128 * 256 ^ (n - 1)"
    using decode_int_signed [OF assms(1,3)] by blast
  obtain to' where to': "decode_int src' n True = Some to'" "length to' = n"
      "native_signed to' = int (be_val src') - 128 * 256 ^ (n - 1)"
    using decode_int_signed [OF assms(2,3)] by blast
  have "src < src' \<longleftrightarrow> native_signed to < native_signed to'"
    using to(3) to'(3) be_val_mono [of src src'] assms(1,2) by simp
  moreover have "\<exists>to. decode_int src n False = Some to \<and> native_unsigned to = int (be_val src)"
    using decode_int_eq [OF assms(1), of False] assms(3) by auto
  moreover have "decode_int src m sg = None" if "m \<notin> {1, 2, 3, 4, 8}"
    using that by (auto simp: decode_int_def)
  ultimately show ?thesis
    using to to' by blast
qed

theorem decode_int_inverts_witness:
  "\<exists>to to'. decode_int [0x7F, 0xFF] 2 True = Some to \<and> decode_int [0x80, 0x05] 2 True = Some to'
     \<and> native_signed to < native_signed to'"
  using decode_int_inverts [of "[0x7F, 0xFF]" 2 "[0x80, 0x05]" 5 True] by auto

end
