(* ===== verification/Cf_Name.thy ===== *)
theory Cf_Name
  imports Prelude
begin

text \<open>
  From a server table path to the engine's column-family name,
  \<^verbatim>\<open>src/tidesdb/src/core/cf_name.{h,cc}\<close>. A path is the characters before its terminating nul.
  \<open>rfind\<close> is \<open>std::string::rfind\<close>, with \<open>None\<close> for \<open>npos\<close>.
\<close>

section \<open>Data\<close>

definition REL_PATH_PREFIX :: string where "REL_PATH_PREFIX = ''./''"
definition REL_PATH_PREFIX_LEN :: nat where "REL_PATH_PREFIX_LEN = 2"
definition DB_TABLE_SEP :: string where "DB_TABLE_SEP = ''__''"
definition TEMP_NAME_MARKER :: char where "TEMP_NAME_MARKER = CHR ''#''"
definition TEMP_NAME_REPLACEMENT :: char where "TEMP_NAME_REPLACEMENT = CHR ''_''"

lemmas cf_name_consts = REL_PATH_PREFIX_def REL_PATH_PREFIX_LEN_def DB_TABLE_SEP_def
  TEMP_NAME_MARKER_def TEMP_NAME_REPLACEMENT_def

record table_path =
  tp_db :: string
  tp_table :: string
  tp_has_dir :: bool

section \<open>Operations\<close>

definition rfind :: "char \<Rightarrow> string \<Rightarrow> nat option" where
  "rfind c s =
     (if c \<in> set s then Some (length s - 1 - length (takeWhile (\<lambda>x. x \<noteq> c) (rev s))) else None)"

definition rfind_upto :: "char \<Rightarrow> string \<Rightarrow> nat \<Rightarrow> nat option" where
  "rfind_upto c s pos = rfind c (take (Suc pos) s)"

definition split_table_path :: "string \<Rightarrow> table_path" where
  "split_table_path path =
     (let p = (if length path \<ge> REL_PATH_PREFIX_LEN \<and> take REL_PATH_PREFIX_LEN path = REL_PATH_PREFIX
               then drop REL_PATH_PREFIX_LEN path else path)
      in case rfind (CHR ''/'') p of
           None \<Rightarrow> \<lparr>tp_db = [], tp_table = p, tp_has_dir = False\<rparr>
         | Some last_slash \<Rightarrow>
             let table = drop (last_slash + 1) p;
                 prev_slash = (if last_slash > 0 then rfind_upto (CHR ''/'') p (last_slash - 1) else None);
                 db = (case prev_slash of
                         None \<Rightarrow> take last_slash p
                       | Some ps \<Rightarrow> take (last_slash - ps - 1) (drop (ps + 1) p))
             in \<lparr>tp_db = db, tp_table = table, tp_has_dir = True\<rparr>)"

definition to_cf_name :: "string \<Rightarrow> string" where
  "to_cf_name path =
     (let tp = split_table_path path
      in if \<not> tp_has_dir tp then tp_table tp
         else map (\<lambda>c. if c = TEMP_NAME_MARKER then TEMP_NAME_REPLACEMENT else c)
                (tp_db tp @ DB_TABLE_SEP @ tp_table tp))"

section \<open>Lemmas\<close>

lemma rfind_None [simp]: "c \<notin> set s \<Longrightarrow> rfind c s = None"
  by (simp add: rfind_def)

lemma rfind_last [simp]: "c \<notin> set t \<Longrightarrow> rfind c (s @ c # t) = Some (length s)"
  by (simp add: rfind_def takeWhile_append)

text \<open>What the parse yields once the relative prefix is gone: the last two components.\<close>

definition strip_rel :: "string \<Rightarrow> string" where
  "strip_rel path = (if take 2 path = ''./'' then drop 2 path else path)"

lemma strip_rel_eq:
  "(if length path \<ge> REL_PATH_PREFIX_LEN \<and> take REL_PATH_PREFIX_LEN path = REL_PATH_PREFIX
    then drop REL_PATH_PREFIX_LEN path else path) = strip_rel path"
  by (cases path rule: list.exhaust [case_names Nil Cons]) (auto simp: strip_rel_def cf_name_consts)

lemma split_one_deep:
  assumes "strip_rel path = d @ CHR ''/'' # t" "CHR ''/'' \<notin> set d" "CHR ''/'' \<notin> set t"
  shows "split_table_path path = \<lparr>tp_db = d, tp_table = t, tp_has_dir = True\<rparr>"
proof -
  let ?p = "d @ CHR ''/'' # t"
  have "rfind (CHR ''/'') ?p = Some (length d)"
    using assms(3) by simp
  moreover have "length d > 0 \<Longrightarrow> rfind_upto (CHR ''/'') ?p (length d - 1) = None"
    using assms(2) by (simp add: rfind_upto_def)
  ultimately show ?thesis
    unfolding split_table_path_def strip_rel_eq Let_def assms(1) by simp
qed

lemma split_nested:
  assumes "strip_rel path = q @ CHR ''/'' # d @ CHR ''/'' # t"
    "CHR ''/'' \<notin> set d" "CHR ''/'' \<notin> set t"
  shows "split_table_path path = \<lparr>tp_db = d, tp_table = t, tp_has_dir = True\<rparr>"
proof -
  let ?p = "q @ CHR ''/'' # d @ CHR ''/'' # t" and ?n = "length q + 1 + length d"
  have "rfind (CHR ''/'') ?p = Some ?n"
    using rfind_last [of "CHR ''/''" t "q @ CHR ''/'' # d"] assms(3) by simp
  moreover have "rfind_upto (CHR ''/'') ?p (?n - 1) = Some (length q)"
    using rfind_last [of "CHR ''/''" d q] assms(2) by (simp add: rfind_upto_def)
  ultimately show ?thesis
    unfolding split_table_path_def strip_rel_eq Let_def assms(1) by simp
qed

lemma strip_rel_prefix [simp]: "strip_rel (CHR ''.'' # CHR ''/'' # p) = p"
  by (simp add: strip_rel_def)

text \<open>The separator is found again when the database name cannot contain it.\<close>

lemma sep_unique_aux:
  assumes "d @ ''__'' @ t = d' @ ''__'' @ t'" "length d \<le> length d'"
    "\<not> sublist ''__'' (d' @ ''_'')"
  shows "d = d'"
proof (rule ccontr)
  assume "d \<noteq> d'"
  obtain u where u: "d' = d @ u" "''__'' @ t = u @ ''__'' @ t'"
    using assms(1,2) by (auto simp: append_eq_append_conv2)
  with \<open>d \<noteq> d'\<close> obtain x v where "u = x # v"
    by (cases u) auto
  with u(2) have "x = CHR ''_''" and "v = [] \<or> (\<exists>w. v = CHR ''_'' # w)"
    by (cases v; simp)+
  with \<open>u = x # v\<close> u(1) have "\<exists>y. d' @ ''_'' = d @ ''__'' @ y"
    by auto
  then have "sublist ''__'' (d' @ ''_'')"
    by (metis sublist_appendI)
  with assms(3) show False by blast
qed

lemma sep_unique:
  assumes "d @ ''__'' @ t = d' @ ''__'' @ t'"
    "\<not> sublist ''__'' (d @ ''_'')" "\<not> sublist ''__'' (d' @ ''_'')"
  shows "d = d' \<and> t = t'"
proof -
  have "d = d'"
    using sep_unique_aux [OF assms(1) _ assms(3)] sep_unique_aux [OF assms(1) [symmetric] _ assms(2)]
    by (cases "length d \<le> length d'") auto
  with assms(1) show ?thesis by simp
qed

definition plain_name :: "string \<Rightarrow> bool" where
  "plain_name s \<longleftrightarrow> CHR ''/'' \<notin> set s \<and> CHR ''#'' \<notin> set s"

lemma to_cf_name_plain:
  assumes "plain_name d" "plain_name t"
  shows "to_cf_name (''./'' @ d @ ''/'' @ t) = d @ ''__'' @ t"
proof -
  have "map (\<lambda>c. if c = TEMP_NAME_MARKER then TEMP_NAME_REPLACEMENT else c) s = s" if "plain_name s" for s
    using that by (auto simp: plain_name_def TEMP_NAME_MARKER_def intro: map_idI)
  moreover have "split_table_path (''./'' @ d @ ''/'' @ t) = \<lparr>tp_db = d, tp_table = t, tp_has_dir = True\<rparr>"
    using assms by (intro split_one_deep) (simp_all add: plain_name_def)
  ultimately show ?thesis
    using assms
    by (simp add: to_cf_name_def DB_TABLE_SEP_def) (simp add: TEMP_NAME_MARKER_def)
qed

section \<open>Properties\<close>

text \<open>The parse recovers the database and the table, both from the relative form the server
  hands to a handler and from a path that carries a data directory.\<close>

theorem split_table_path_components:
  assumes "CHR ''/'' \<notin> set d" "CHR ''/'' \<notin> set t" "take 2 (q @ ''/'') \<noteq> ''./''"
  shows "split_table_path (''./'' @ d @ ''/'' @ t) = \<lparr>tp_db = d, tp_table = t, tp_has_dir = True\<rparr>
    \<and> split_table_path (q @ ''/'' @ d @ ''/'' @ t) = \<lparr>tp_db = d, tp_table = t, tp_has_dir = True\<rparr>
    \<and> split_table_path (''./'' @ t) = \<lparr>tp_db = [], tp_table = t, tp_has_dir = False\<rparr>"
proof -
  have q: "strip_rel (q @ ''/'' @ d @ ''/'' @ t) = q @ CHR ''/'' # d @ CHR ''/'' # t"
    using assms(3) by (cases q; cases "tl q") (auto simp: strip_rel_def)
  have "split_table_path (''./'' @ t) = \<lparr>tp_db = [], tp_table = t, tp_has_dir = False\<rparr>"
    using assms(2) unfolding split_table_path_def strip_rel_eq by simp
  with split_nested [OF q assms(1,2)] split_one_deep [of "''./'' @ d @ ''/'' @ t" d t] assms(1,2)
  show ?thesis by simp
qed

theorem split_table_path_components_witness:
  "split_table_path ''/var/lib/db/t1'' = \<lparr>tp_db = ''db'', tp_table = ''t1'', tp_has_dir = True\<rparr>"
  using split_table_path_components [of "''db''" "''t1''" "''/var/lib''"] by simp




end
