(* ===== verification/Ddl_Log_Rec.thy ===== *)
theory Ddl_Log_Rec
  imports Prelude
begin

text \<open>
  The record a pending schema change is written as,
  \<^verbatim>\<open>src/tidesdb/src/core/ddl_log_rec.{h,cc}\<close>. Input pointers that the code tests for null are
  \<open>bytes option\<close>; an output pointer that it tests is a flag \<open>out_ok\<close>. Strings are byte lists.
\<close>

section \<open>Data\<close>

datatype intent = intent_drop | intent_create

primrec intent_code :: "intent \<Rightarrow> u8" where
  "intent_code intent_drop = 1"
| "intent_code intent_create = 2"

definition FORMAT_VERSION :: u8 where [codec_simps]: "FORMAT_VERSION = 1"
definition KEY_LEN :: nat where [codec_simps]: "KEY_LEN = 16"
definition LEN_PREFIX :: nat where [codec_simps]: "LEN_PREFIX = 4"
definition MAX_FIELD_LEN :: u32 where [codec_simps]: "MAX_FIELD_LEN = 65535"

record ddl_record =
  rec_what :: intent
  rec_path :: bytes
  rec_db :: bytes
  rec_table :: bytes

section \<open>Operations\<close>

definition put_u64 :: "u64 \<Rightarrow> bytes" where
  "put_u64 v = map (\<lambda>i. ucast (drop_bit ((7 - i) * 8) v AND 0xFF)) [0..<8]"

definition get_u64 :: "bytes \<Rightarrow> u64" where
  "get_u64 inp = foldl (\<lambda>v i. push_bit 8 v OR ucast (inp ! i)) 0 [0..<8]"

definition put_str :: "bytes \<Rightarrow> bytes" where
  "put_str s =
     (let n = of_nat (length s) :: u32
      in map (\<lambda>i. ucast (drop_bit ((3 - i) * 8) n AND 0xFF)) [0..<4] @ s)"

text \<open>The cursor is the unread suffix; \<open>end - p\<close> is its length.\<close>

definition get_str :: "bytes \<Rightarrow> (bytes \<times> bytes) option" where
  "get_str p =
     (if length p < LEN_PREFIX then None
      else let n = foldl (\<lambda>v i. push_bit 8 v OR ucast (p ! i)) (0 :: u32) [0..<4];
               p' = drop LEN_PREFIX p
        in if n > MAX_FIELD_LEN then None
           else if length p' < unat n then None
           else Some (take (unat n) p', drop (unat n) p'))"

definition ddl_encode_key :: "u64 \<Rightarrow> u64 \<Rightarrow> bool \<Rightarrow> bytes \<times> nat" where
  "ddl_encode_key boot_id sequence out_ok =
     (if \<not> out_ok then ([], 0) else (put_u64 boot_id @ put_u64 sequence, KEY_LEN))"

definition decode_key_boot_id :: "bytes option \<Rightarrow> bool \<Rightarrow> u64 option" where
  "decode_key_boot_id key out_ok =
     (case key of
        None \<Rightarrow> None
      | Some k \<Rightarrow> if \<not> out_ok \<or> length k \<noteq> KEY_LEN then None else Some (get_u64 k))"

definition encode_record :: "ddl_record \<Rightarrow> bytes option" where
  "encode_record r =
     (if length (rec_path r) > unat MAX_FIELD_LEN \<or> length (rec_db r) > unat MAX_FIELD_LEN
         \<or> length (rec_table r) > unat MAX_FIELD_LEN then None
      else Some ([FORMAT_VERSION] @ [intent_code (rec_what r)]
                 @ put_str (rec_path r) @ put_str (rec_db r) @ put_str (rec_table r)))"

definition decode_record :: "bytes option \<Rightarrow> bool \<Rightarrow> ddl_record option" where
  "decode_record data out_ok =
     (case data of
        None \<Rightarrow> None
      | Some d \<Rightarrow>
          if \<not> out_ok \<or> length d < 2 then None
          else if d ! 0 \<noteq> FORMAT_VERSION then None
          else let what = d ! 1 in
            if what \<noteq> intent_code intent_drop \<and> what \<noteq> intent_code intent_create then None
            else let w = (if what = intent_code intent_drop then intent_drop else intent_create) in
              case get_str (drop 2 d) of None \<Rightarrow> None
              | Some (path, p1) \<Rightarrow>
                (case get_str p1 of None \<Rightarrow> None
                 | Some (db, p2) \<Rightarrow>
                   (case get_str p2 of None \<Rightarrow> None
                    | Some (table, p3) \<Rightarrow>
                        if path = [] then None
                        else Some \<lparr>rec_what = w, rec_path = path, rec_db = db, rec_table = table\<rparr>)))"

section \<open>Lemmas\<close>

lemma put_u64_be_enc: "put_u64 = be_enc 8"
  by (rule ext) (simp add: put_u64_def be_enc_def ucast_mask_byte)

lemma get_u64_enc [simp]: "get_u64 (be_enc 8 v @ r) = v"
  unfolding get_u64_def by (rule be_loop_enc) simp

interpretation log_u64: ordered_codec put_u64 get_u64 8
proof
  fix x y :: u64
  show "length (put_u64 x) = 8" and "put_u64 x < put_u64 y \<longleftrightarrow> x < y"
    by (simp_all add: put_u64_be_enc be_enc_less)
  show "get_u64 (put_u64 x) = x"
    using get_u64_enc [of x "[]"] by (simp add: put_u64_be_enc)
qed

lemma put_str_eq: "put_str s = be_enc 4 (of_nat (length s) :: u32) @ s"
  by (simp add: put_str_def be_enc_def ucast_mask_byte Let_def)

lemma len_field_take: "4 \<le> length p \<Longrightarrow>
  foldl (\<lambda>v i. push_bit 8 v OR ucast (p ! i)) (0 :: u32) [0..<4] = be_dec (take 4 p)"
  unfolding be_dec_def by (rule foldl_nth_take)

interpretation log_str: framed_string put_str get_str "unat MAX_FIELD_LEN"
proof (rule framed_string_32)
  show "get_str p =
      (if length p < 4 then None
       else let n = be_dec (take 4 p) :: u32; p' = drop 4 p
         in if n > MAX_FIELD_LEN then None else if length p' < unat n then None
            else Some (take (unat n) p', drop (unat n) p'))" for p
    by (simp add: get_str_def LEN_PREFIX_def len_field_take Let_def)
qed (simp_all add: MAX_FIELD_LEN_def put_str_eq)

lemma intent_code_inject [simp]: "intent_code a = intent_code b \<longleftrightarrow> a = b"
  by (cases a; cases b) simp_all

text \<open>Decoding inverts encoding on records that name something, and accepts nothing else.\<close>

lemma decode_record_encode:
  assumes "encode_record r = Some enc" "rec_path r \<noteq> []"
  shows "decode_record (Some (enc @ rest)) True = Some r"
proof -
  have len: "length (rec_path r) \<le> unat MAX_FIELD_LEN" "length (rec_db r) \<le> unat MAX_FIELD_LEN"
      "length (rec_table r) \<le> unat MAX_FIELD_LEN"
    and enc: "enc = FORMAT_VERSION # intent_code (rec_what r) # put_str (rec_path r)
      @ put_str (rec_db r) @ put_str (rec_table r)"
    using assms(1) by (auto simp: encode_record_def not_less split: if_splits)
  have what: "intent_code (rec_what r) = intent_code intent_drop \<or>
      intent_code (rec_what r) = intent_code intent_create"
    by (cases "rec_what r") simp_all
  have w: "(if intent_code (rec_what r) = intent_code intent_drop then intent_drop else intent_create)
      = rec_what r"
    by (cases "rec_what r") simp_all
  show ?thesis
    using what w len assms(2)
    by (simp add: decode_record_def enc Let_def log_str.get_put del: intent_code_inject)
qed

lemma decode_record_sound:
  assumes "decode_record (Some d) True = Some r"
  shows "rec_path r \<noteq> [] \<and> (\<exists>enc rest. encode_record r = Some enc \<and> d = enc @ rest)"
proof -
  obtain v w p where d: "d = v # w # p"
    using assms by (cases d rule: list.exhaust [case_names Nil Cons]; cases "tl d")
      (auto simp: decode_record_def)
  have ver: "v = FORMAT_VERSION" and w: "w = 1 \<or> w = 2"
    using assms by (auto simp: d decode_record_def Let_def split: if_splits)
  obtain path db tbl p1 p2 p3 where
    g: "get_str p = Some (path, p1)" "get_str p1 = Some (db, p2)" "get_str p2 = Some (tbl, p3)"
    and r: "path \<noteq> []"
      "r = \<lparr>rec_what = if w = 1 then intent_drop else intent_create, rec_path = path, rec_db = db,
            rec_table = tbl\<rparr>"
    using assms by (auto simp: d decode_record_def Let_def split: if_splits option.splits)
  have "encode_record r = Some (v # w # put_str path @ put_str db @ put_str tbl)"
    using log_str.get_sound [OF g(1)] log_str.get_sound [OF g(2)] log_str.get_sound [OF g(3)] ver w
    by (auto simp: encode_record_def r)
  moreover have "d = (v # w # put_str path @ put_str db @ put_str tbl) @ p3"
    using log_str.get_sound [OF g(1)] log_str.get_sound [OF g(2)] log_str.get_sound [OF g(3)]
    by (simp add: d)
  ultimately show ?thesis
    using r by (simp add: exI)
qed

section \<open>Properties\<close>

text \<open>C23: a stored record is acted on exactly when it is one this build wrote for a named table: the
  decoder returns a record if and only if the stored bytes start with that record's encoding and
  its path is not empty. A misread path, which would remove the wrong table's storage, is
  impossible.\<close>

theorem ddl_record_roundtrip:
  "decode_record (Some d) True = Some r \<longleftrightarrow>
     rec_path r \<noteq> [] \<and> (\<exists>enc rest. encode_record r = Some enc \<and> d = enc @ rest)"
  using decode_record_encode decode_record_sound by blast

text \<open>Log keys sort by server run and then by sequence, and the run a key belongs to reads back;
  a key of any other length is refused.\<close>

theorem ddl_log_key_order:
  "(fst (ddl_encode_key b s True) < fst (ddl_encode_key b' s' True) \<longleftrightarrow> b < b' \<or> b = b' \<and> s < s')
   \<and> decode_key_boot_id (Some (fst (ddl_encode_key b s True))) True = Some b
   \<and> length (fst (ddl_encode_key b s True)) = snd (ddl_encode_key b s True)
   \<and> (length k \<noteq> KEY_LEN \<longrightarrow> decode_key_boot_id (Some k) True = None)"
  by (simp add: ddl_encode_key_def decode_key_boot_id_def log_u64.composite_less log_u64.enc_less
      log_u64.enc_length KEY_LEN_def) (simp add: put_u64_be_enc)

theorem ddl_log_key_order_witness:
  "decode_key_boot_id (Some [1, 2, 3]) True = None"
  using ddl_log_key_order [of 0 0 0 0 "[1, 2, 3]"] by (simp add: KEY_LEN_def)

end
