(* ===== verification/Crypto_Keyenc.thy ===== *)
theory Crypto_Keyenc
  imports Prelude
begin

text \<open>
  The byte layouts of the key store that holds wrapped table keys,
  \<^verbatim>\<open>src/tidesdb/src/core/crypto_keyenc.{h,cc}\<close>. As in the source, one builder serves the three
  public key encoders. Pointers tested for null are options or flags, as in the schema-change log.
\<close>

section \<open>Data\<close>

datatype key_ns = ns_master_seq | ns_wrapped | ns_latest

primrec ns_code :: "key_ns \<Rightarrow> u8" where
  "ns_code ns_master_seq = 0x00"
| "ns_code ns_wrapped = 0x01"
| "ns_code ns_latest = 0x02"

definition FIELD_LEN :: nat where [codec_simps]: "FIELD_LEN = 4"
definition KEY_MAX_LEN :: nat where [codec_simps]: "KEY_MAX_LEN = 1 + 2 * FIELD_LEN"
definition WRAP_HEADER_LEN :: nat where [codec_simps]: "WRAP_HEADER_LEN = FIELD_LEN"
definition GENERATION_NONE :: u32 where "GENERATION_NONE = 0"
definition GENERATION_FIRST :: u32 where "GENERATION_FIRST = 1"

section \<open>Operations\<close>

definition be32_encode :: "u32 \<Rightarrow> bytes" where
  "be32_encode v =
     [ucast (drop_bit 24 v AND 0xFF), ucast (drop_bit 16 v AND 0xFF),
      ucast (drop_bit 8 v AND 0xFF), ucast (v AND 0xFF)]"

definition be32_decode :: "bytes option \<Rightarrow> u32" where
  "be32_decode inp =
     (case inp of None \<Rightarrow> 0
      | Some b \<Rightarrow> push_bit 24 (ucast (b ! 0)) OR push_bit 16 (ucast (b ! 1))
                  OR push_bit 8 (ucast (b ! 2)) OR ucast (b ! 3))"

text \<open>The field loop runs while \<open>i < field_count\<close> and \<open>i < 2\<close>.\<close>

definition ck_encode_key :: "key_ns \<Rightarrow> u32 list \<Rightarrow> nat \<Rightarrow> bool \<Rightarrow> bytes \<times> nat" where
  "ck_encode_key n fields field_count out_ok =
     (if \<not> out_ok then ([], 0)
      else let idx = [0..<min field_count 2]
        in ([ns_code n] @ concat (map (\<lambda>i. be32_encode (fields ! i)) idx),
            1 + length idx * FIELD_LEN))"

definition encode_master_seq_key :: "bool \<Rightarrow> bytes \<times> nat" where
  "encode_master_seq_key out_ok = ck_encode_key ns_master_seq [] 0 out_ok"

definition encode_latest_key :: "u32 \<Rightarrow> bool \<Rightarrow> bytes \<times> nat" where
  "encode_latest_key key_id out_ok = ck_encode_key ns_latest [key_id] 1 out_ok"

definition encode_wrapped_key :: "u32 \<Rightarrow> u32 \<Rightarrow> bool \<Rightarrow> bytes \<times> nat" where
  "encode_wrapped_key key_id version out_ok = ck_encode_key ns_wrapped [key_id, version] 2 out_ok"

definition frame_wrapped_value :: "u32 \<Rightarrow> bytes option \<Rightarrow> bool \<Rightarrow> bytes \<times> nat" where
  "frame_wrapped_value generation wrapped out_ok =
     (case wrapped of
        None \<Rightarrow> ([], 0)
      | Some w \<Rightarrow> if \<not> out_ok \<or> length w = 0 then ([], 0)
                  else (be32_encode generation @ w, WRAP_HEADER_LEN + length w))"

text \<open>The generation, the offset of the wrapped key within the stored value, and its length.\<close>

definition parse_wrapped_value :: "bytes option \<Rightarrow> bool \<Rightarrow> (u32 \<times> nat \<times> nat) option" where
  "parse_wrapped_value stored out_ok =
     (case stored of
        None \<Rightarrow> None
      | Some s \<Rightarrow>
          if \<not> out_ok then None
          else if length s \<le> WRAP_HEADER_LEN then None
          else Some (be32_decode (Some s), WRAP_HEADER_LEN, length s - WRAP_HEADER_LEN))"

section \<open>Lemmas\<close>

lemma be32_encode_be_enc: "be32_encode = be_enc 4"
  by (rule ext) (simp add: be32_encode_def be_enc_def ucast_mask_byte upt_rec)

lemma be32_decode_be_dec:
  assumes "length bs = 4"
  shows "be32_decode (Some (bs @ r)) = be_dec bs"
proof -
  obtain a b c d where bs: "bs = [a, b, c, d]"
    using assms by (auto simp: numeral_eq_Suc length_Suc_conv)
  have "push_bit 8 (push_bit 8 (push_bit 8 (ucast a) OR ucast b) OR ucast c) OR ucast d =
    (push_bit 24 (ucast a) OR push_bit 16 (ucast b) OR push_bit 8 (ucast c) OR ucast d :: u32)"
    by (simp add: push_bit_or or.assoc)
  then show ?thesis
    by (simp add: be32_decode_def be_dec_def bs)
qed

interpretation be32: ordered_codec be32_encode "\<lambda>b. be32_decode (Some b)" 4
proof
  fix x y :: u32
  show "length (be32_encode x) = 4" and "be32_encode x < be32_encode y \<longleftrightarrow> x < y"
    by (simp_all add: be32_encode_be_enc be_enc_less)
  show "be32_decode (Some (be32_encode x)) = x"
    using be32_decode_be_dec [of "be32_encode x" "[]"]
    by (simp add: be32_encode_be_enc be_dec_be_enc)
qed

lemma master_seq_key_eq: "fst (encode_master_seq_key True) = [0x00]"
  and latest_key_eq: "fst (encode_latest_key i True) = 0x02 # be32_encode i"
  and wrapped_key_eq: "fst (encode_wrapped_key i v True) = 0x01 # be32_encode i @ be32_encode v"
  by (simp_all add: encode_master_seq_key_def encode_latest_key_def encode_wrapped_key_def
      ck_encode_key_def Let_def numeral_2_eq_2)

lemmas store_key_eqs = master_seq_key_eq latest_key_eq wrapped_key_eq

section \<open>Properties\<close>


text \<open>A framed wrapped key parses back to its generation and to its own bytes, and a stored value
  that carries no wrapped byte is refused rather than read as an empty key.\<close>

theorem wrapped_value_roundtrip:
  assumes "w \<noteq> []"
  shows "(case parse_wrapped_value (Some (fst (frame_wrapped_value g (Some w) True))) True of
            None \<Rightarrow> False
          | Some (g', off, len) \<Rightarrow>
              g' = g \<and> take len (drop off (fst (frame_wrapped_value g (Some w) True))) = w)
    \<and> snd (frame_wrapped_value g (Some w) True) = length (fst (frame_wrapped_value g (Some w) True))
    \<and> (length s \<le> WRAP_HEADER_LEN \<longrightarrow> parse_wrapped_value (Some s) True = None)"
  using assms be32_decode_be_dec [of "be32_encode g" w]
  by (simp add: frame_wrapped_value_def parse_wrapped_value_def be32.enc_length codec_simps
      be32_encode_be_enc be_dec_be_enc)

theorem wrapped_value_roundtrip_witness:
  "[7, 8] \<noteq> ([] :: bytes) \<and>
   (case parse_wrapped_value (Some (fst (frame_wrapped_value 3 (Some [7, 8]) True))) True of
      None \<Rightarrow> False | Some (g', off, len) \<Rightarrow> g' = 3)"
  using wrapped_value_roundtrip [of "[7, 8]" 3 "[]"] by (auto split: option.splits)

end
