(* ===== verification/Table_Options.thy ===== *)
theory Table_Options
  imports Prelude
begin

text \<open>
  Per-table storage options, \<^verbatim>\<open>src/tidesdb/src/core/table_options.{h,cc}\<close>: the reader that turns
  one JSON object into the options struct, the writer that names every option, and the reader of
  the single per-column option.

  Text is a character list and a cursor \<open>(p, end)\<close> is the unread suffix. A result is the triple the
  caller observes: the returned flag, the error message when one is set, and the in/out struct as
  the call leaves it, which on failure may already carry the options read before the bad one.
  \<open>std::tolower\<close> is taken in the C locale.
\<close>

section \<open>Data\<close>

record ha_table_option_struct =
  btree_klog_block_size :: u64
  level_size_ratio :: u64
  min_levels :: u64
  dividing_level_offset :: u64
  bloom_fpr :: u64
  l1_file_count_trigger :: u64
  compression :: u32
  isolation_level :: u32
  bloom_filter :: bool
  keep_values_inline :: bool
  ttl :: u64
  encrypted :: bool
  encryption_key_id :: u64
  tombstone_density_trigger :: u64
  tombstone_density_min_entries :: u64

datatype opt_kind = Boolean | Number | Compression | Isolation

text \<open>The members of the struct, standing for their offsets.\<close>

datatype opt_member =
    M_btree_klog_block_size | M_level_size_ratio | M_min_levels | M_dividing_level_offset
  | M_bloom_fpr | M_l1_file_count_trigger | M_compression | M_isolation_level | M_bloom_filter
  | M_keep_values_inline | M_ttl | M_encrypted | M_encryption_key_id
  | M_tombstone_density_trigger | M_tombstone_density_min_entries

record opt_spec =
  spec_name :: string
  spec_what :: opt_kind
  spec_offset :: opt_member
  spec_low :: u64
  spec_high :: u64

definition ULL_MAX :: u64 where "ULL_MAX = 0xFFFFFFFFFFFFFFFF"

definition mk_spec :: "string \<Rightarrow> opt_kind \<Rightarrow> opt_member \<Rightarrow> u64 \<Rightarrow> u64 \<Rightarrow> opt_spec" where
  "mk_spec n k m lo hi =
     \<lparr>spec_name = n, spec_what = k, spec_offset = m, spec_low = lo, spec_high = hi\<rparr>"

definition specs :: "opt_spec list" where
  "specs =
    [mk_spec ''keep_values_inline'' Boolean M_keep_values_inline 0 1,
     mk_spec ''bloom_filter'' Boolean M_bloom_filter 0 1,
     mk_spec ''encrypted'' Boolean M_encrypted 0 1,
     mk_spec ''btree_klog_block_size'' Number M_btree_klog_block_size 512 ULL_MAX,
     mk_spec ''level_size_ratio'' Number M_level_size_ratio 2 100,
     mk_spec ''min_levels'' Number M_min_levels 1 64,
     mk_spec ''dividing_level_offset'' Number M_dividing_level_offset 0 64,
     mk_spec ''bloom_fpr'' Number M_bloom_fpr 1 10000,
     mk_spec ''l1_file_count_trigger'' Number M_l1_file_count_trigger 1 1024,
     mk_spec ''tombstone_density_trigger'' Number M_tombstone_density_trigger 0 10000,
     mk_spec ''tombstone_density_min_entries'' Number M_tombstone_density_min_entries 0 ULL_MAX,
     mk_spec ''ttl'' Number M_ttl 0 ULL_MAX,
     mk_spec ''encryption_key_id'' Number M_encryption_key_id 1 255,
     mk_spec ''compression'' Compression M_compression 0 0,
     mk_spec ''isolation_level'' Isolation M_isolation_level 0 0]"

section \<open>Lexical helpers\<close>

definition c_tolower :: "char \<Rightarrow> char" where
  "c_tolower c =
     (let n = of_char c :: nat in if 65 \<le> n \<and> n \<le> 90 then char_of (n + 32) else c)"

definition eq_nocase :: "string \<Rightarrow> string \<Rightarrow> bool" where
  "eq_nocase a b \<longleftrightarrow> map c_tolower a = map c_tolower b"

definition json_space :: "char \<Rightarrow> bool" where
  "json_space c \<longleftrightarrow> c = CHR '' '' \<or> c = CHR 0x09 \<or> c = CHR 0x0A \<or> c = CHR 0x0D"

definition skip_space :: "string \<Rightarrow> string" where
  "skip_space p = dropWhile json_space p"

text \<open>The escape switch; \<open>None\<close> is the \<open>default\<close> branch, which refuses the string.\<close>

definition unescape :: "char \<Rightarrow> char option" where
  "unescape esc =
     (if esc = CHR 0x22 \<or> esc = CHR 0x5C \<or> esc = CHR ''/'' then Some esc
      else if esc = CHR ''b'' then Some (CHR 0x08)
      else if esc = CHR ''f'' then Some (CHR 0x0C)
      else if esc = CHR ''n'' then Some (CHR 0x0A)
      else if esc = CHR ''r'' then Some (CHR 0x0D)
      else if esc = CHR ''t'' then Some (CHR 0x09)
      else None)"

fun read_string_body :: "string \<Rightarrow> string \<Rightarrow> (string \<times> string) option" where
  "read_string_body [] out = None"
| "read_string_body (c # p) out =
     (if c = CHR 0x22 then Some (out, p)
      else if c \<noteq> CHR 0x5C then read_string_body p (out @ [c])
      else case p of [] \<Rightarrow> None
           | esc # p' \<Rightarrow>
               (case unescape esc of None \<Rightarrow> None
                | Some e \<Rightarrow> read_string_body p' (out @ [e])))"

definition read_string :: "string \<Rightarrow> (string \<times> string) option" where
  "read_string p =
     (case p of [] \<Rightarrow> None
      | c # p' \<Rightarrow> if c \<noteq> CHR 0x22 then None else read_string_body p' [])"

text \<open>A bare value runs to the next delimiter and may not open a nested value.\<close>

definition bare_stop :: "char \<Rightarrow> bool" where
  "bare_stop c \<longleftrightarrow> c = CHR '','' \<or> c = CHR 0x7D \<or> json_space c"

definition read_value :: "string \<Rightarrow> (string \<times> string) option" where
  "read_value p0 =
     (let p = skip_space p0 in
      case p of [] \<Rightarrow> None
      | c # _ \<Rightarrow>
          if c = CHR 0x22 then read_string p
          else let v = takeWhile (\<lambda>x. \<not> bare_stop x) p
            in if CHR 0x7B \<in> set v \<or> CHR ''['' \<in> set v then None
               else if v = [] then None
               else Some (v, dropWhile (\<lambda>x. \<not> bare_stop x) p))"

section \<open>Value readers\<close>

definition to_bool :: "string \<Rightarrow> bool option" where
  "to_bool v =
     (if eq_nocase v ''true'' \<or> eq_nocase v ''yes'' \<or> eq_nocase v ''on'' \<or> v = ''1'' then Some True
      else if eq_nocase v ''false'' \<or> eq_nocase v ''no'' \<or> eq_nocase v ''off'' \<or> v = ''0'' then Some False
      else None)"

definition is_digit :: "char \<Rightarrow> bool" where
  "is_digit c \<longleftrightarrow> 48 \<le> (of_char c :: nat) \<and> (of_char c :: nat) \<le> 57"

fun to_number_loop :: "u64 \<Rightarrow> string \<Rightarrow> u64 option" where
  "to_number_loop n [] = Some n"
| "to_number_loop n (c # v) =
     (if \<not> is_digit c then None
      else let digit = of_nat (of_char c - 48) :: u64
        in if n > (ULL_MAX - digit) div 10 then None
           else to_number_loop (n * 10 + digit) v)"

definition to_number :: "string \<Rightarrow> u64 option" where
  "to_number v = (if v = [] then None else to_number_loop 0 v)"

text \<open>A null-terminated list of names is the list before the null; a null list is \<open>None\<close>.\<close>

fun enum_search :: "string \<Rightarrow> string list \<Rightarrow> nat \<Rightarrow> nat option" where
  "enum_search v [] i = None"
| "enum_search v (n # ns) i = (if eq_nocase v n then Some i else enum_search v ns (Suc i))"

definition to_enum :: "string \<Rightarrow> string list option \<Rightarrow> u32 option" where
  "to_enum v names =
     (case names of None \<Rightarrow> None
      | Some ns \<Rightarrow>
          (case enum_search v ns 0 of
             Some i \<Rightarrow> Some (of_nat i)
           | None \<Rightarrow>
               (case to_number v of None \<Rightarrow> None
                | Some n \<Rightarrow> if n \<ge> of_nat (length ns) then None else Some (ucast n))))"

definition quoted :: "string \<Rightarrow> string" where
  "quoted s = [CHR 0x27] @ s @ [CHR 0x27]"

section \<open>Stores through the member offset\<close>

text \<open>The table of options pairs each member with the kind of its type, so the other combinations,
  which would be reinterpreting casts, do not arise.\<close>

fun store_bool :: "opt_member \<Rightarrow> bool \<Rightarrow> ha_table_option_struct \<Rightarrow> ha_table_option_struct" where
  "store_bool M_keep_values_inline b s = s\<lparr>keep_values_inline := b\<rparr>"
| "store_bool M_bloom_filter b s = s\<lparr>bloom_filter := b\<rparr>"
| "store_bool M_encrypted b s = s\<lparr>encrypted := b\<rparr>"
| "store_bool _ b s = s"

fun store_number :: "opt_member \<Rightarrow> u64 \<Rightarrow> ha_table_option_struct \<Rightarrow> ha_table_option_struct" where
  "store_number M_btree_klog_block_size n s = s\<lparr>btree_klog_block_size := n\<rparr>"
| "store_number M_level_size_ratio n s = s\<lparr>level_size_ratio := n\<rparr>"
| "store_number M_min_levels n s = s\<lparr>min_levels := n\<rparr>"
| "store_number M_dividing_level_offset n s = s\<lparr>dividing_level_offset := n\<rparr>"
| "store_number M_bloom_fpr n s = s\<lparr>bloom_fpr := n\<rparr>"
| "store_number M_l1_file_count_trigger n s = s\<lparr>l1_file_count_trigger := n\<rparr>"
| "store_number M_tombstone_density_trigger n s = s\<lparr>tombstone_density_trigger := n\<rparr>"
| "store_number M_tombstone_density_min_entries n s = s\<lparr>tombstone_density_min_entries := n\<rparr>"
| "store_number M_ttl n s = s\<lparr>ttl := n\<rparr>"
| "store_number M_encryption_key_id n s = s\<lparr>encryption_key_id := n\<rparr>"
| "store_number _ n s = s"

fun store_enum :: "opt_member \<Rightarrow> u32 \<Rightarrow> ha_table_option_struct \<Rightarrow> ha_table_option_struct" where
  "store_enum M_compression e s = s\<lparr>compression := e\<rparr>"
| "store_enum M_isolation_level e s = s\<lparr>isolation_level := e\<rparr>"
| "store_enum _ e s = s"

section \<open>The table reader\<close>

datatype 'a attr_step = Fail string 'a | Done 'a | More string 'a

text \<open>An option name, its colon and its value, with the message the caller sets otherwise.\<close>

definition read_member :: "string \<Rightarrow> string + string \<times> string \<times> string" where
  "read_member p0 =
     (case read_string (skip_space p0) of
        None \<Rightarrow> Inl ''expected an option name''
      | Some (name, p1) \<Rightarrow>
          (case skip_space p1 of
             [] \<Rightarrow> Inl (''expected '' @ [CHR 0x27] @ '':'' @ [CHR 0x27] @ '' after '' @ quoted name)
           | c # p2 \<Rightarrow>
               if c \<noteq> CHR '':''
               then Inl (''expected '' @ [CHR 0x27] @ '':'' @ [CHR 0x27] @ '' after '' @ quoted name)
               else (case read_value p2 of
                       None \<Rightarrow> Inl (''expected a value for '' @ quoted name)
                     | Some (v, p3) \<Rightarrow> Inr (name, v, p3))))"

definition find_spec :: "string \<Rightarrow> opt_spec option" where
  "find_spec name = find (\<lambda>s. eq_nocase name (spec_name s)) specs"

definition apply_option ::
  "string list option \<Rightarrow> string list option \<Rightarrow> string \<Rightarrow> string \<Rightarrow> ha_table_option_struct
     \<Rightarrow> string + ha_table_option_struct" where
  "apply_option compression_names isolation_names name v opts =
     (case find_spec name of
        None \<Rightarrow> Inl (''unknown option '' @ quoted name)
      | Some s \<Rightarrow>
          (case spec_what s of
             Boolean \<Rightarrow>
               (case to_bool v of
                  None \<Rightarrow> Inl (quoted v @ '' is not a yes-or-no value for '' @ quoted name)
                | Some b \<Rightarrow> Inr (store_bool (spec_offset s) b opts))
           | Number \<Rightarrow>
               (case to_number v of
                  None \<Rightarrow> Inl (quoted v @ '' is not a number for '' @ quoted name)
                | Some n \<Rightarrow>
                    if n < spec_low s \<or> n > spec_high s
                    then Inl (quoted v @ '' is out of range for '' @ quoted name)
                    else Inr (store_number (spec_offset s) n opts))
           | Compression \<Rightarrow>
               (case to_enum v compression_names of
                  None \<Rightarrow> Inl (quoted v @ '' is not a recognised value for '' @ quoted name)
                | Some e \<Rightarrow> Inr (store_enum (spec_offset s) e opts))
           | Isolation \<Rightarrow>
               (case to_enum v isolation_names of
                  None \<Rightarrow> Inl (quoted v @ '' is not a recognised value for '' @ quoted name)
                | Some e \<Rightarrow> Inr (store_enum (spec_offset s) e opts))))"

text \<open>What follows a member: a comma continues, a closing brace must be the last thing.\<close>

definition member_tail :: "string \<Rightarrow> string \<Rightarrow> 'a \<Rightarrow> 'a attr_step" where
  "member_tail name p0 acc =
     (case skip_space p0 of
        [] \<Rightarrow> Fail (''expected '' @ [CHR 0x27] @ '','' @ [CHR 0x27] @ '' or '' @ [CHR 0x27, CHR 0x7D, CHR 0x27]
                 @ '' after '' @ quoted name) acc
      | c # p \<Rightarrow>
          if c = CHR '','' then More p acc
          else if c = CHR 0x7D then
            (if skip_space p \<noteq> [] then Fail ''trailing text after the object'' acc else Done acc)
          else Fail (''expected '' @ [CHR 0x27] @ '','' @ [CHR 0x27] @ '' or '' @ [CHR 0x27, CHR 0x7D, CHR 0x27]
                 @ '' after '' @ quoted name) acc)"

definition attr_step ::
  "string list option \<Rightarrow> string list option \<Rightarrow> string \<Rightarrow> ha_table_option_struct
     \<Rightarrow> ha_table_option_struct attr_step" where
  "attr_step compression_names isolation_names p opts =
     (case read_member p of
        Inl e \<Rightarrow> Fail e opts
      | Inr (name, v, p') \<Rightarrow>
          (case apply_option compression_names isolation_names name v opts of
             Inl e \<Rightarrow> Fail e opts
           | Inr opts' \<Rightarrow> member_tail name p' opts'))"

lemma length_skip_space: "length (skip_space p) \<le> length p"
  by (simp add: skip_space_def length_dropWhile_le)

lemma read_string_body_shrinks: "read_string_body p out = Some (v, r) \<Longrightarrow> length r < length p"
  by (induction p out rule: read_string_body.induct)
    (auto split: if_splits list.splits option.splits, fastforce+)

lemma read_string_shrinks: "read_string p = Some (v, r) \<Longrightarrow> length r < length p"
  by (auto simp: read_string_def split: list.splits if_splits dest!: read_string_body_shrinks)

lemma read_value_shrinks: "read_value p = Some (v, r) \<Longrightarrow> length r \<le> length p"
  using length_skip_space [of p] length_dropWhile_le [of "\<lambda>x. \<not> bare_stop x" "skip_space p"]
  by (auto simp: read_value_def Let_def split: list.splits if_splits dest!: read_string_shrinks)

lemma read_member_shrinks: "read_member p = Inr (n, v, r) \<Longrightarrow> length r < length p"
proof -
  assume "read_member p = Inr (n, v, r)"
  then obtain p1 c p2 where
    s: "read_string (skip_space p) = Some (n, p1)" "skip_space p1 = c # p2" "read_value p2 = Some (v, r)"
    by (auto simp: read_member_def split: option.splits list.splits if_splits)
  have "length r \<le> length p2"
    using s(3) by (rule read_value_shrinks)
  also have "\<dots> < length p1"
    using length_skip_space [of p1] s(2) by simp
  also have "\<dots> < length (skip_space p)"
    using s(1) by (rule read_string_shrinks)
  also have "\<dots> \<le> length p"
    by (rule length_skip_space)
  finally show ?thesis .
qed

lemma member_tail_More: "member_tail n p a = More r a' \<Longrightarrow> length r < length p \<and> a' = a"
  using length_skip_space [of p]
  by (auto simp: member_tail_def split: list.splits if_splits)

lemma attr_step_shrinks: "attr_step cn isn p o1 = More r o2 \<Longrightarrow> length r < length p"
  by (auto simp: attr_step_def split: sum.splits dest!: member_tail_More read_member_shrinks)

text \<open>The \<open>for (;;)\<close> loop; every further round starts at a strictly shorter cursor.\<close>

function parse_loop ::
  "string list option \<Rightarrow> string list option \<Rightarrow> string \<Rightarrow> ha_table_option_struct
     \<Rightarrow> bool \<times> string option \<times> ha_table_option_struct" where
  "parse_loop cn isn p opts =
     (case attr_step cn isn p opts of
        Fail e o1 \<Rightarrow> (False, Some e, o1)
      | Done o1 \<Rightarrow> (True, None, o1)
      | More p' o1 \<Rightarrow> parse_loop cn isn p' o1)"
  by pat_completeness auto
termination
  by (relation "measure (\<lambda>(cn, isn, p, opts). length p)") (auto dest: attr_step_shrinks)

declare parse_loop.simps [simp del]

definition parse_attributes ::
  "string option \<Rightarrow> string list option \<Rightarrow> string list option \<Rightarrow> bool \<Rightarrow> ha_table_option_struct
     \<Rightarrow> bool \<times> string option \<times> ha_table_option_struct" where
  "parse_attributes json cn isn ptrs_ok inout =
     (if \<not> ptrs_ok then (False, None, inout)
      else case json of
        None \<Rightarrow> (True, None, inout)
      | Some text \<Rightarrow>
          if text = [] then (True, None, inout)
          else (case skip_space text of
            [] \<Rightarrow> (True, None, inout)
          | c # p \<Rightarrow>
              if c \<noteq> CHR 0x7B then (False, Some ''the attribute must be a JSON object'', inout)
              else let p' = skip_space p in
                if p' \<noteq> [] \<and> hd p' = CHR 0x7D then (True, None, inout)
                else parse_loop cn isn p' inout))"

section \<open>The table writer\<close>

definition enum_name :: "string list option \<Rightarrow> u32 \<Rightarrow> string option" where
  "enum_name names e =
     (case names of None \<Rightarrow> None
      | Some ns \<Rightarrow> if unat e < length ns then Some (ns ! unat e) else None)"

fun nat_to_string :: "nat \<Rightarrow> string" where
  "nat_to_string n =
     (if n < 10 then [char_of (48 + n)] else nat_to_string (n div 10) @ [char_of (48 + n mod 10)])"

declare nat_to_string.simps [simp del]

definition append_name :: "string \<Rightarrow> bool \<Rightarrow> string" where
  "append_name name first =
     (if first then [] else '', '') @ [CHR 0x22] @ name @ [CHR 0x22] @ '': ''"

definition append_number :: "string \<Rightarrow> u64 \<Rightarrow> bool \<Rightarrow> string" where
  "append_number name v first = append_name name first @ nat_to_string (unat v)"

definition append_bool :: "string \<Rightarrow> bool \<Rightarrow> bool \<Rightarrow> string" where
  "append_bool name v first = append_name name first @ (if v then ''true'' else ''false'')"

definition append_enum :: "string \<Rightarrow> u32 \<Rightarrow> string list option \<Rightarrow> bool \<Rightarrow> string" where
  "append_enum name v names first =
     append_name name first @
     (case enum_name names v of
        Some text \<Rightarrow> [CHR 0x22] @ text @ [CHR 0x22]
      | None \<Rightarrow> nat_to_string (unat v))"

definition serialize_attributes ::
  "ha_table_option_struct \<Rightarrow> string list option \<Rightarrow> string list option \<Rightarrow> string" where
  "serialize_attributes opts cn isn =
     [CHR 0x7B]
     @ append_bool ''keep_values_inline'' (keep_values_inline opts) True
     @ append_bool ''bloom_filter'' (bloom_filter opts) False
     @ append_bool ''encrypted'' (encrypted opts) False
     @ append_number ''btree_klog_block_size'' (btree_klog_block_size opts) False
     @ append_number ''level_size_ratio'' (level_size_ratio opts) False
     @ append_number ''min_levels'' (min_levels opts) False
     @ append_number ''dividing_level_offset'' (dividing_level_offset opts) False
     @ append_number ''bloom_fpr'' (bloom_fpr opts) False
     @ append_number ''l1_file_count_trigger'' (l1_file_count_trigger opts) False
     @ append_number ''tombstone_density_trigger'' (tombstone_density_trigger opts) False
     @ append_number ''tombstone_density_min_entries'' (tombstone_density_min_entries opts) False
     @ append_number ''ttl'' (ttl opts) False
     @ append_number ''encryption_key_id'' (encryption_key_id opts) False
     @ append_enum ''compression'' (compression opts) cn False
     @ append_enum ''isolation_level'' (isolation_level opts) isn False
     @ [CHR 0x7D]"

section \<open>The column reader\<close>

definition column_step :: "string \<Rightarrow> bool \<Rightarrow> bool attr_step" where
  "column_step p ttl_src =
     (case read_member p of
        Inl e \<Rightarrow> Fail e ttl_src
      | Inr (name, v, p') \<Rightarrow>
          if \<not> eq_nocase name ''ttl'' then Fail (''unknown column option '' @ quoted name) ttl_src
          else (case to_bool v of
                  None \<Rightarrow> Fail (quoted v @ '' is not a yes-or-no value for '' @ quoted name) ttl_src
                | Some b \<Rightarrow> member_tail name p' b))"

lemma column_step_shrinks: "column_step p b = More r b' \<Longrightarrow> length r < length p"
  by (auto simp: column_step_def split: sum.splits if_splits option.splits
      dest!: member_tail_More read_member_shrinks)

function column_loop :: "string \<Rightarrow> bool \<Rightarrow> bool \<times> string option \<times> bool" where
  "column_loop p ttl_src =
     (case column_step p ttl_src of
        Fail e b \<Rightarrow> (False, Some e, b)
      | Done b \<Rightarrow> (True, None, b)
      | More p' b \<Rightarrow> column_loop p' b)"
  by pat_completeness auto
termination
  by (relation "measure (\<lambda>(p, b). length p)") (auto dest: column_step_shrinks)

declare column_loop.simps [simp del]

definition parse_column_attributes :: "string option \<Rightarrow> bool \<Rightarrow> bool \<Rightarrow> bool \<times> string option \<times> bool" where
  "parse_column_attributes json ptrs_ok ttl_src0 =
     (if \<not> ptrs_ok then (False, None, ttl_src0)
      else case json of
        None \<Rightarrow> (True, None, False)
      | Some text \<Rightarrow>
          if text = [] then (True, None, False)
          else (case skip_space text of
            [] \<Rightarrow> (True, None, False)
          | c # p \<Rightarrow>
              if c \<noteq> CHR 0x7B then (False, Some ''the attribute must be a JSON object'', False)
              else let p' = skip_space p in
                if p' \<noteq> [] \<and> hd p' = CHR 0x7D then (True, None, False)
                else column_loop p' False))"

section \<open>Reading back a written member\<close>

fun decimal :: "nat \<Rightarrow> string \<Rightarrow> nat" where
  "decimal n [] = n"
| "decimal n (c # v) = decimal (n * 10 + (of_char c - 48)) v"

lemma decimal_append: "decimal n (u @ v) = decimal (decimal n u) v"
  by (induction u arbitrary: n) auto

lemma decimal_ge: "n \<le> decimal n v"
proof (induction v arbitrary: n)
  case (Cons c v)
  from Cons [of "n * 10 + (of_char c - 48)"] show ?case
    by simp
qed simp

lemma digit_value: "is_digit c \<Longrightarrow> (of_char c - 48 :: nat) \<le> 9"
  by (auto simp: is_digit_def)

lemma to_number_guard:
  assumes "d \<le> (9::nat)"
  shows "(n::u64) > (ULL_MAX - of_nat d) div 10 \<longleftrightarrow> unat n * 10 + d \<ge> 2 ^ 64"
proof -
  have e: "unat (of_nat d :: u64) = d"
    using assms by (simp add: unat_of_nat)
  have le: "(of_nat d :: u64) \<le> ULL_MAX"
    by (simp add: ULL_MAX_def word_le_nat_alt e) (use assms in simp)
  have "unat ((ULL_MAX - of_nat d) div 10) = (2 ^ 64 - 1 - d) div 10"
    using le by (simp add: unat_div unat_sub e ULL_MAX_def)
  then have "n > (ULL_MAX - of_nat d) div 10 \<longleftrightarrow> unat n > (2 ^ 64 - 1 - d) div 10"
    by (simp add: word_less_nat_alt)
  also have "\<dots> \<longleftrightarrow> unat n * 10 + d \<ge> 2 ^ 64"
    using assms by (simp add: div_less_iff_less_mult) arith
  finally show ?thesis .
qed

lemma to_number_loop_exact:
  "to_number_loop n v = Some m \<longleftrightarrow>
     list_all is_digit v \<and> decimal (unat n) v < 2 ^ 64 \<and> unat m = decimal (unat n) v"
proof (induction v arbitrary: n)
  case Nil
  then show ?case
    using unsigned_less [of n] by (auto simp: word_unat_eq_iff)
next
  case (Cons c v)
  show ?case
  proof (cases "is_digit c")
    case True
    define d where "d = (of_char c - 48 :: nat)"
    have d: "d \<le> 9"
      using digit_value [OF True] by (simp add: d_def)
    show ?thesis
    proof (cases "unat n * 10 + d \<ge> 2 ^ 64")
      case True
      then have "\<not> decimal (unat n * 10 + d) v < 2 ^ 64"
        using decimal_ge [of "unat n * 10 + d" v] by linarith
      with True to_number_guard [OF d, of n] show ?thesis
        by (simp add: Let_def flip: d_def)
    next
      case False
      then have "unat (n * 10 + of_nat d) = unat n * 10 + d"
        by (simp add: unat_word_ariths unat_of_nat)
      with False True to_number_guard [OF d, of n] Cons.IH [of "n * 10 + of_nat d"]
      show ?thesis
        by (simp add: Let_def flip: d_def)
    qed
  qed simp
qed

lemma digit_char: "d < 10 \<Longrightarrow> is_digit (char_of (48 + d)) \<and> of_char (char_of (48 + d)) - 48 = d"
  for d :: nat
  by (simp add: is_digit_def of_char_of)

lemma nat_to_string_decimal:
  "nat_to_string n \<noteq> [] \<and> list_all is_digit (nat_to_string n) \<and> decimal 0 (nat_to_string n) = n"
proof (induction n rule: less_induct)
  case (less n)
  show ?case
  proof (cases "n < 10")
    case True
    then show ?thesis
      using digit_char [of n] by (simp add: nat_to_string.simps)
  next
    case False
    then have "n div 10 < n" "n mod 10 < 10"
      by simp_all
    with False less [of "n div 10"] digit_char [of "n mod 10"] show ?thesis
      by (subst (1 2 3) nat_to_string.simps) (simp add: decimal_append)
  qed
qed

lemma to_number_to_string: "to_number (nat_to_string (unat n)) = Some n"
  using nat_to_string_decimal [of "unat n"] unsigned_less [of n]
  by (simp add: to_number_def to_number_loop_exact)


section \<open>Written members are read back\<close>

definition plain_text :: "string \<Rightarrow> bool" where
  "plain_text s \<longleftrightarrow> CHR 0x22 \<notin> set s \<and> CHR 0x5C \<notin> set s"

definition bare_text :: "string \<Rightarrow> bool" where
  "bare_text s \<longleftrightarrow> s \<noteq> [] \<and> hd s \<noteq> CHR 0x22 \<and>
     list_all (\<lambda>c. \<not> bare_stop c \<and> c \<noteq> CHR 0x7B \<and> c \<noteq> CHR ''['') s"

lemma read_string_body_plain:
  "plain_text s \<Longrightarrow> read_string_body (s @ CHR 0x22 # r) out = Some (out @ s, r)"
  by (induction s arbitrary: out) (auto simp: plain_text_def)

lemma read_string_plain: "plain_text s \<Longrightarrow> read_string (CHR 0x22 # s @ CHR 0x22 # r) = Some (s, r)"
  by (simp add: read_string_def read_string_body_plain)

lemma skip_space_stop: "\<not> json_space c \<Longrightarrow> skip_space (c # p) = c # p"
  by (simp add: skip_space_def)

lemma skip_space_blank: "skip_space (CHR '' '' # p) = skip_space p"
  by (simp add: skip_space_def json_space_def)

lemma read_value_quoted:
  "plain_text s \<Longrightarrow> read_value (CHR '' '' # CHR 0x22 # s @ CHR 0x22 # r) = Some (s, r)"
  by (simp add: read_value_def skip_space_blank skip_space_stop json_space_def read_string_plain)

lemma read_value_bare:
  assumes "bare_text s" "bare_stop c"
  shows "read_value (CHR '' '' # s @ c # r) = Some (s, c # r)"
proof -
  obtain a s' where s: "s = a # s'"
    using assms(1) by (cases s) (auto simp: bare_text_def)
  have tw: "takeWhile (\<lambda>x. \<not> bare_stop x) (s @ c # r) = s"
    "dropWhile (\<lambda>x. \<not> bare_stop x) (s @ c # r) = c # r"
    using assms by (auto simp: bare_text_def list_all_iff takeWhile_append dropWhile_append)
  have "skip_space (s @ c # r) = s @ c # r"
    using assms(1) by (simp add: s skip_space_stop bare_text_def bare_stop_def)
  then show ?thesis
    using assms(1) tw unfolding read_value_def skip_space_blank
    by (auto simp: Let_def s bare_text_def list_all_iff)
qed

definition value_text :: "string \<Rightarrow> string \<Rightarrow> bool" where
  "value_text t v \<longleftrightarrow> (t = v \<and> bare_text v) \<or> (t = CHR 0x22 # v @ [CHR 0x22] \<and> plain_text v)"

lemma read_member_written:
  assumes "plain_text n" "value_text t v" "bare_stop c"
  shows "read_member (CHR 0x22 # n @ CHR 0x22 # CHR '':'' # CHR '' '' # t @ c # r) = Inr (n, v, c # r)"
    and "read_member (CHR '' '' # CHR 0x22 # n @ CHR 0x22 # CHR '':'' # CHR '' '' # t @ c # r) = Inr (n, v, c # r)"
proof -
  have "read_value (CHR '' '' # t @ c # r) = Some (v, c # r)"
    using assms(2,3) read_value_bare [of v c r] read_value_quoted [of v "c # r"]
    by (auto simp: value_text_def)
  then show "read_member (CHR 0x22 # n @ CHR 0x22 # CHR '':'' # CHR '' '' # t @ c # r) = Inr (n, v, c # r)"
    "read_member (CHR '' '' # CHR 0x22 # n @ CHR 0x22 # CHR '':'' # CHR '' '' # t @ c # r) = Inr (n, v, c # r)"
    using assms(1)
    by (simp_all add: read_member_def skip_space_blank skip_space_stop json_space_def read_string_plain)
qed

text \<open>The text of one member as the writer lays it out, without the comma that precedes it.\<close>

definition member_text :: "string \<Rightarrow> string \<Rightarrow> string" where
  "member_text n t = CHR 0x22 # n @ CHR 0x22 # CHR '':'' # CHR '' '' # t"

lemma parse_loop_member:
  assumes "plain_text n" "value_text t v" "apply_option cn isn n v o1 = Inr o2"
  shows "parse_loop cn isn (member_text n t @ CHR '','' # r) o1 = parse_loop cn isn r o2"
    and "parse_loop cn isn (CHR '' '' # member_text n t @ CHR '','' # r) o1 = parse_loop cn isn r o2"
    and "parse_loop cn isn (CHR '' '' # member_text n t @ [CHR 0x7D]) o1 = (True, None, o2)"
  using read_member_written [OF assms(1,2), of "CHR '',''" r]
    read_member_written [OF assms(1,2), of "CHR 0x7D" "[]"] assms(3)
  by (simp_all add: member_text_def parse_loop.simps [of _ _ "_ # _"] attr_step_def member_tail_def
      skip_space_stop json_space_def bare_stop_def) (simp_all add: skip_space_def)

lemma value_text_number: "value_text (nat_to_string n) (nat_to_string n)"
proof -
  have "list_all is_digit (nat_to_string n)" "nat_to_string n \<noteq> []"
    using nat_to_string_decimal [of n] by auto
  moreover have "is_digit c \<Longrightarrow> c \<noteq> CHR 0x22 \<and> \<not> bare_stop c \<and> c \<noteq> CHR 0x7B \<and> c \<noteq> CHR ''[''" for c
    by (auto simp: is_digit_def bare_stop_def json_space_def)
  ultimately show ?thesis
    by (auto simp: value_text_def bare_text_def list_all_iff)
qed

lemma value_text_bool: "value_text (if b then ''true'' else ''false'') (if b then ''true'' else ''false'')"
  by (auto simp: value_text_def bare_text_def bare_stop_def json_space_def)

lemma to_bool_written: "to_bool (if b then ''true'' else ''false'') = Some b"
  by (auto simp: to_bool_def eq_nocase_def c_tolower_def Let_def)

section \<open>Bounds\<close>

fun load_number :: "opt_member \<Rightarrow> ha_table_option_struct \<Rightarrow> u64" where
  "load_number M_btree_klog_block_size s = btree_klog_block_size s"
| "load_number M_level_size_ratio s = level_size_ratio s"
| "load_number M_min_levels s = min_levels s"
| "load_number M_dividing_level_offset s = dividing_level_offset s"
| "load_number M_bloom_fpr s = bloom_fpr s"
| "load_number M_l1_file_count_trigger s = l1_file_count_trigger s"
| "load_number M_tombstone_density_trigger s = tombstone_density_trigger s"
| "load_number M_tombstone_density_min_entries s = tombstone_density_min_entries s"
| "load_number M_ttl s = ttl s"
| "load_number M_encryption_key_id s = encryption_key_id s"
| "load_number _ s = 0"

definition number_in_range :: "opt_spec \<Rightarrow> ha_table_option_struct \<Rightarrow> bool" where
  "number_in_range sp s \<longleftrightarrow>
     spec_what sp \<noteq> Number \<or>
     (spec_low sp \<le> load_number (spec_offset sp) s \<and> load_number (spec_offset sp) s \<le> spec_high sp)"

definition enum_in_range :: "string list option \<Rightarrow> u32 \<Rightarrow> bool" where
  "enum_in_range names e \<longleftrightarrow> (case names of None \<Rightarrow> True | Some ns \<Rightarrow> unat e < length ns)"

definition options_valid ::
  "string list option \<Rightarrow> string list option \<Rightarrow> ha_table_option_struct \<Rightarrow> bool" where
  "options_valid cn isn s \<longleftrightarrow>
     list_all (\<lambda>sp. number_in_range sp s) specs \<and>
     enum_in_range cn (compression s) \<and> enum_in_range isn (isolation_level s)"

lemma find_specI:
  "find_spec n = Some sp \<Longrightarrow> sp \<in> set specs"
  by (auto simp: find_spec_def find_Some_iff)

lemma enum_search_bound: "enum_search v ns i = Some j \<Longrightarrow> i \<le> j \<and> j < i + length ns"
  by (induction v ns i rule: enum_search.induct) (auto split: if_splits)

lemma to_enum_in_range:
  assumes "to_enum v names = Some e"
  shows "enum_in_range names e"
proof -
  obtain ns where ns: "names = Some ns"
    using assms by (auto simp: to_enum_def split: option.splits)
  consider i where "enum_search v ns 0 = Some i" "e = of_nat i"
    | n where "n < of_nat (length ns)" "e = ucast (n :: u64)"
    using assms ns by (auto simp: to_enum_def not_le split: option.splits if_splits)
  then show ?thesis
  proof cases
    case 1
    then have "unat e \<le> i" "i < length ns"
      using enum_search_bound [of v ns 0 i] by (auto simp: unat_of_nat)
    then show ?thesis
      by (simp add: ns enum_in_range_def)
  next
    case 2
    have "unat e \<le> unat n"
      using 2(2) by (simp add: unsigned_ucast_eq take_bit_eq_mod)
    also have "\<dots> < unat (of_nat (length ns) :: u64)"
      using 2(1) by (simp add: word_less_nat_alt)
    also have "\<dots> \<le> length ns"
      by (simp add: unat_of_nat)
    finally show ?thesis
      by (simp add: ns enum_in_range_def)
  qed
qed

lemma mk_spec_sel [simp]:
  "spec_name (mk_spec n k m lo hi) = n" "spec_what (mk_spec n k m lo hi) = k"
  "spec_offset (mk_spec n k m lo hi) = m" "spec_low (mk_spec n k m lo hi) = lo"
  "spec_high (mk_spec n k m lo hi) = hi"
  by (simp_all add: mk_spec_def)

lemma specs_offset_inj:
  "sp \<in> set specs \<Longrightarrow> tp \<in> set specs \<Longrightarrow> spec_offset sp = spec_offset tp \<Longrightarrow> sp = tp"
proof -
  have "distinct (map spec_offset specs)"
    by (simp add: specs_def)
  then show "sp \<in> set specs \<Longrightarrow> tp \<in> set specs \<Longrightarrow> spec_offset sp = spec_offset tp \<Longrightarrow> sp = tp"
    by (auto simp: distinct_map inj_on_def)
qed

lemma load_store_same:
  assumes "sp \<in> set specs" "spec_what sp = Number"
  shows "load_number (spec_offset sp) (store_number (spec_offset sp) n s) = n"
proof -
  have "list_all (\<lambda>sp. spec_what sp = Number \<longrightarrow>
      load_number (spec_offset sp) (store_number (spec_offset sp) n s) = n) specs"
    by (simp add: specs_def)
  with assms show ?thesis
    by (simp add: list_all_iff)
qed

lemma load_store_other: "k \<noteq> m \<Longrightarrow> load_number k (store_number m n s) = load_number k s"
  by (cases m; cases k; simp)

lemma store_number_in_range:
  assumes "sp \<in> set specs" "spec_what sp = Number" "spec_low sp \<le> n" "n \<le> spec_high sp"
    "tp \<in> set specs" "number_in_range tp s"
  shows "number_in_range tp (store_number (spec_offset sp) n s)"
proof (cases "tp = sp")
  case True
  with assms load_store_same [OF assms(1,2)] show ?thesis
    by (simp add: number_in_range_def)
next
  case False
  then have "spec_offset tp \<noteq> spec_offset sp"
    using specs_offset_inj [OF assms(1,5)] by auto
  with assms(6) show ?thesis
    by (simp add: number_in_range_def load_store_other)
qed

lemma number_in_range_store [simp]:
  "number_in_range tp (store_bool m b s) = number_in_range tp s"
  "number_in_range tp (store_enum m e s) = number_in_range tp s"
proof -
  have "load_number k (store_bool m b s) = load_number k s"
    "load_number k (store_enum m e s) = load_number k s" for k
    by (cases k; cases m; simp)+
  then show "number_in_range tp (store_bool m b s) = number_in_range tp s"
    "number_in_range tp (store_enum m e s) = number_in_range tp s"
    by (simp_all add: number_in_range_def)
qed

lemma number_in_range_enum [simp]:
  "number_in_range tp (s\<lparr>compression := e\<rparr>) = number_in_range tp s"
  "number_in_range tp (s\<lparr>isolation_level := e\<rparr>) = number_in_range tp s"
  using number_in_range_store(2) [of tp M_compression e s]
    number_in_range_store(2) [of tp M_isolation_level e s] by simp_all

lemma enums_of_store [simp]:
  "compression (store_bool m b s) = compression s" "isolation_level (store_bool m b s) = isolation_level s"
  "compression (store_number m n s) = compression s" "isolation_level (store_number m n s) = isolation_level s"
  by (cases m; simp)+

lemma spec_offset_enum:
  assumes "sp \<in> set specs"
  shows "spec_what sp = Compression \<Longrightarrow> spec_offset sp = M_compression"
    and "spec_what sp = Isolation \<Longrightarrow> spec_offset sp = M_isolation_level"
proof -
  have "list_all (\<lambda>sp. (spec_what sp = Compression \<longrightarrow> spec_offset sp = M_compression) \<and>
      (spec_what sp = Isolation \<longrightarrow> spec_offset sp = M_isolation_level)) specs"
    by (simp add: specs_def)
  with assms show "spec_what sp = Compression \<Longrightarrow> spec_offset sp = M_compression"
    "spec_what sp = Isolation \<Longrightarrow> spec_offset sp = M_isolation_level"
    by (simp_all add: list_all_iff)
qed

lemma apply_option_valid:
  assumes "options_valid cn isn s" "apply_option cn isn name v s = Inr s'"
  shows "options_valid cn isn s'"
proof -
  obtain sp where f: "find_spec name = Some sp"
    using assms(2) by (auto simp: apply_option_def split: option.splits)
  note sp = find_specI [OF f]
  have n: "\<And>tp. tp \<in> set specs \<Longrightarrow> number_in_range tp s"
    using assms(1) by (simp add: options_valid_def list_all_iff)
  show ?thesis
  proof (cases "spec_what sp")
    case Boolean
    with assms f show ?thesis
      by (auto simp: apply_option_def options_valid_def split: option.splits)
  next
    case Number
    then obtain x where "spec_low sp \<le> x" "x \<le> spec_high sp" "s' = store_number (spec_offset sp) x s"
      using assms(2) f by (auto simp: apply_option_def not_less split: option.splits if_splits)
    then show ?thesis
      using store_number_in_range [OF sp Number] n assms(1)
      by (simp add: options_valid_def list_all_iff)
  next
    case Compression
    with assms f show ?thesis
      using spec_offset_enum(1) [OF sp]
      by (auto simp: apply_option_def options_valid_def to_enum_in_range split: option.splits)
  next
    case Isolation
    with assms f show ?thesis
      using spec_offset_enum(2) [OF sp]
      by (auto simp: apply_option_def options_valid_def to_enum_in_range split: option.splits)
  qed
qed

lemma attr_step_valid:
  assumes "options_valid cn isn s"
  shows "case attr_step cn isn p s of Fail e s' \<Rightarrow> options_valid cn isn s' | Done s' \<Rightarrow> options_valid cn isn s'
    | More p' s' \<Rightarrow> options_valid cn isn s'"
  using assms
  by (auto simp: attr_step_def member_tail_def split: sum.splits list.splits dest: apply_option_valid)

lemma parse_loop_valid:
  "options_valid cn isn s \<Longrightarrow> options_valid cn isn (snd (snd (parse_loop cn isn p s)))"
proof (induction cn isn p s rule: parse_loop.induct)
  case (1 cn isn p s)
  show ?case
    using attr_step_valid [OF "1.prems", of p] "1.IH"
    by (subst parse_loop.simps) (auto split: attr_step.splits)
qed

section \<open>Round trip\<close>

lemma c_tolower_name:
  "c_tolower (CHR ''1'') = CHR ''1''"
  "c_tolower (CHR ''_'') = CHR ''_''"
  "c_tolower (CHR ''a'') = CHR ''a''"
  "c_tolower (CHR ''b'') = CHR ''b''"
  "c_tolower (CHR ''c'') = CHR ''c''"
  "c_tolower (CHR ''d'') = CHR ''d''"
  "c_tolower (CHR ''e'') = CHR ''e''"
  "c_tolower (CHR ''f'') = CHR ''f''"
  "c_tolower (CHR ''g'') = CHR ''g''"
  "c_tolower (CHR ''i'') = CHR ''i''"
  "c_tolower (CHR ''k'') = CHR ''k''"
  "c_tolower (CHR ''l'') = CHR ''l''"
  "c_tolower (CHR ''m'') = CHR ''m''"
  "c_tolower (CHR ''n'') = CHR ''n''"
  "c_tolower (CHR ''o'') = CHR ''o''"
  "c_tolower (CHR ''p'') = CHR ''p''"
  "c_tolower (CHR ''r'') = CHR ''r''"
  "c_tolower (CHR ''s'') = CHR ''s''"
  "c_tolower (CHR ''t'') = CHR ''t''"
  "c_tolower (CHR ''u'') = CHR ''u''"
  "c_tolower (CHR ''v'') = CHR ''v''"
  "c_tolower (CHR ''y'') = CHR ''y''"
  "c_tolower (CHR ''z'') = CHR ''z''"
  by (simp_all add: c_tolower_def)


lemma specs_lower: "sp \<in> set specs \<Longrightarrow> map c_tolower (spec_name sp) = spec_name sp"
  by (auto simp: specs_def c_tolower_name)

lemma specs_distinct: "distinct (map spec_name specs)"
  by (simp add: specs_def)

lemma find_spec_nth:
  assumes "i < length specs"
  shows "find_spec (spec_name (specs ! i)) = Some (specs ! i)"
proof -
  have "eq_nocase (spec_name (specs ! i)) (spec_name (specs ! j)) \<longleftrightarrow> i = j" if "j < length specs" for j
    using assms that specs_lower [of "specs ! i"] specs_lower [of "specs ! j"] specs_distinct
    by (auto simp: eq_nocase_def distinct_conv_nth)
  then show ?thesis
    using assms unfolding find_spec_def find_Some_iff by fastforce
qed

lemma specs_nth:
  "specs ! 0 = mk_spec ''keep_values_inline'' Boolean M_keep_values_inline 0 1"
  "specs ! Suc 0 = mk_spec ''bloom_filter'' Boolean M_bloom_filter 0 1"
  "specs ! 2 = mk_spec ''encrypted'' Boolean M_encrypted 0 1"
  "specs ! 3 = mk_spec ''btree_klog_block_size'' Number M_btree_klog_block_size 512 ULL_MAX"
  "specs ! 4 = mk_spec ''level_size_ratio'' Number M_level_size_ratio 2 100"
  "specs ! 5 = mk_spec ''min_levels'' Number M_min_levels 1 64"
  "specs ! 6 = mk_spec ''dividing_level_offset'' Number M_dividing_level_offset 0 64"
  "specs ! 7 = mk_spec ''bloom_fpr'' Number M_bloom_fpr 1 10000"
  "specs ! 8 = mk_spec ''l1_file_count_trigger'' Number M_l1_file_count_trigger 1 1024"
  "specs ! 9 = mk_spec ''tombstone_density_trigger'' Number M_tombstone_density_trigger 0 10000"
  "specs ! 10 = mk_spec ''tombstone_density_min_entries'' Number M_tombstone_density_min_entries 0 ULL_MAX"
  "specs ! 11 = mk_spec ''ttl'' Number M_ttl 0 ULL_MAX"
  "specs ! 12 = mk_spec ''encryption_key_id'' Number M_encryption_key_id 1 255"
  "specs ! 13 = mk_spec ''compression'' Compression M_compression 0 0"
  "specs ! 14 = mk_spec ''isolation_level'' Isolation M_isolation_level 0 0"
  by (simp_all add: specs_def)

lemma find_spec_name: "i < 15 \<Longrightarrow> spec_name (specs ! i) = n \<Longrightarrow> find_spec n = Some (specs ! i)"
  using find_spec_nth [of i] by (auto simp: specs_def)

lemma find_spec_names:
  "find_spec ''keep_values_inline'' = Some (specs ! 0)"
  "find_spec ''bloom_filter'' = Some (specs ! Suc 0)"
  "find_spec ''encrypted'' = Some (specs ! 2)"
  "find_spec ''btree_klog_block_size'' = Some (specs ! 3)"
  "find_spec ''level_size_ratio'' = Some (specs ! 4)"
  "find_spec ''min_levels'' = Some (specs ! 5)"
  "find_spec ''dividing_level_offset'' = Some (specs ! 6)"
  "find_spec ''bloom_fpr'' = Some (specs ! 7)"
  "find_spec ''l1_file_count_trigger'' = Some (specs ! 8)"
  "find_spec ''tombstone_density_trigger'' = Some (specs ! 9)"
  "find_spec ''tombstone_density_min_entries'' = Some (specs ! 10)"
  "find_spec ''ttl'' = Some (specs ! 11)"
  "find_spec ''encryption_key_id'' = Some (specs ! 12)"
  "find_spec ''compression'' = Some (specs ! 13)"
  "find_spec ''isolation_level'' = Some (specs ! 14)"
  by (rule find_spec_name; simp add: specs_nth)+


definition enum_names_ok :: "string list \<Rightarrow> bool" where
  "enum_names_ok ns \<longleftrightarrow>
     length ns < 2 ^ 32 \<and> distinct (map (map c_tolower) ns) \<and> list_all plain_text ns"

lemma enum_search_nth:
  "distinct (map (map c_tolower) ns) \<Longrightarrow> j < length ns \<Longrightarrow> enum_search (ns ! j) ns i = Some (i + j)"
proof (induction ns arbitrary: i j)
  case (Cons n ns)
  show ?case
  proof (cases j)
    case (Suc k)
    then have "map c_tolower (ns ! k) \<noteq> map c_tolower n"
      using Cons.prems by (metis distinct.simps(2) imageI list.map(2) list.set_map nth_mem Suc_less_eq length_Cons)
    with Cons Suc show ?thesis
      by (simp add: eq_nocase_def)
  qed (simp add: eq_nocase_def)
qed simp

lemma to_enum_written:
  "enum_names_ok ns \<Longrightarrow> unat e < length ns \<Longrightarrow> to_enum (ns ! unat e) (Some ns) = Some e"
  using enum_search_nth [of ns "unat e" 0] by (simp add: enum_names_ok_def to_enum_def)

lemma plain_enum: "enum_names_ok ns \<Longrightarrow> unat e < length ns \<Longrightarrow> plain_text (ns ! unat e)"
  by (simp add: enum_names_ok_def list_all_length)

definition bool_text :: "bool \<Rightarrow> string" where
  "bool_text b = (if b then ''true'' else ''false'')"

lemma parse_loop_bool:
  assumes "plain_text n" "find_spec n \<noteq> None" "spec_what (the (find_spec n)) = Boolean"
  shows "parse_loop cn isn (member_text n (bool_text b) @ CHR '','' # r) s =
      parse_loop cn isn r (store_bool (spec_offset (the (find_spec n))) b s)"
    and "parse_loop cn isn (CHR '' '' # member_text n (bool_text b) @ CHR '','' # r) s =
      parse_loop cn isn r (store_bool (spec_offset (the (find_spec n))) b s)"
proof -
  have "apply_option cn isn n (bool_text b) s = Inr (store_bool (spec_offset (the (find_spec n))) b s)"
    using assms(2,3) to_bool_written [of b] by (auto simp: apply_option_def bool_text_def)
  from parse_loop_member(1,2) [OF assms(1) _ this] value_text_bool [of b]
  show "parse_loop cn isn (member_text n (bool_text b) @ CHR '','' # r) s =
      parse_loop cn isn r (store_bool (spec_offset (the (find_spec n))) b s)"
    "parse_loop cn isn (CHR '' '' # member_text n (bool_text b) @ CHR '','' # r) s =
      parse_loop cn isn r (store_bool (spec_offset (the (find_spec n))) b s)"
    by (simp_all add: bool_text_def)
qed

lemma parse_loop_number:
  assumes "plain_text n" "find_spec n \<noteq> None" "spec_what (the (find_spec n)) = Number"
    "spec_low (the (find_spec n)) \<le> x" "x \<le> spec_high (the (find_spec n))"
  shows "parse_loop cn isn (CHR '' '' # member_text n (nat_to_string (unat x)) @ CHR '','' # r) s =
      parse_loop cn isn r (store_number (spec_offset (the (find_spec n))) x s)"
proof -
  have "apply_option cn isn n (nat_to_string (unat x)) s =
      Inr (store_number (spec_offset (the (find_spec n))) x s)"
    using assms(2-) by (auto simp: apply_option_def to_number_to_string not_less)
  from parse_loop_member(2) [OF assms(1) value_text_number this] show ?thesis .
qed

lemma parse_loop_enum:
  assumes "plain_text n" "find_spec n \<noteq> None" "enum_names_ok ns" "unat e < length ns"
    "spec_what (the (find_spec n)) = Compression \<and> cn = Some ns \<or>
     spec_what (the (find_spec n)) = Isolation \<and> isn = Some ns"
  shows "parse_loop cn isn (CHR '' '' # member_text n (CHR 0x22 # ns ! unat e @ [CHR 0x22]) @ CHR '','' # r) s =
      parse_loop cn isn r (store_enum (spec_offset (the (find_spec n))) e s)"
    and "parse_loop cn isn (CHR '' '' # member_text n (CHR 0x22 # ns ! unat e @ [CHR 0x22]) @ [CHR 0x7D]) s =
      (True, None, store_enum (spec_offset (the (find_spec n))) e s)"
proof -
  have v: "value_text (CHR 0x22 # ns ! unat e @ [CHR 0x22]) (ns ! unat e)"
    using plain_enum [OF assms(3,4)] by (simp add: value_text_def)
  have "apply_option cn isn n (ns ! unat e) s = Inr (store_enum (spec_offset (the (find_spec n))) e s)"
    using assms(2,5) to_enum_written [OF assms(3,4)] by (auto simp: apply_option_def)
  from parse_loop_member(2,3) [OF assms(1) v this] show
    "parse_loop cn isn (CHR '' '' # member_text n (CHR 0x22 # ns ! unat e @ [CHR 0x22]) @ CHR '','' # r) s =
      parse_loop cn isn r (store_enum (spec_offset (the (find_spec n))) e s)"
    "parse_loop cn isn (CHR '' '' # member_text n (CHR 0x22 # ns ! unat e @ [CHR 0x22]) @ [CHR 0x7D]) s =
      (True, None, store_enum (spec_offset (the (find_spec n))) e s)"
    by blast+
qed

lemma append_as_member:
  "append_bool n b True = member_text n (bool_text b)"
  "append_bool n b False = CHR '','' # CHR '' '' # member_text n (bool_text b)"
  "append_number n x False = CHR '','' # CHR '' '' # member_text n (nat_to_string (unat x))"
  "unat e < length ns \<Longrightarrow> append_enum n e (Some ns) False =
     CHR '','' # CHR '' '' # member_text n (CHR 0x22 # ns ! unat e @ [CHR 0x22])"
  by (simp_all add: append_bool_def append_number_def append_enum_def append_name_def member_text_def
      bool_text_def enum_name_def)

lemma skip_space_member: "skip_space (member_text n t @ r) = member_text n t @ r"
  by (simp add: member_text_def skip_space_stop json_space_def)

lemma member_text_hd: "member_text n t @ r \<noteq> []" "hd (member_text n t @ r) = CHR 0x22"
  by (simp_all add: member_text_def)

lemma parse_serialize:
  assumes "enum_names_ok cn" "enum_names_ok isn" "options_valid (Some cn) (Some isn) opts"
  shows "parse_attributes (Some (serialize_attributes opts (Some cn) (Some isn))) (Some cn) (Some isn) True s0 =
    (True, None, opts)"
proof -
  have e: "unat (compression opts) < length cn" "unat (isolation_level opts) < length isn"
    using assms(3) by (auto simp: options_valid_def enum_in_range_def)
  have n: "list_all (\<lambda>sp. number_in_range sp opts) specs"
    using assms(3) by (auto simp: options_valid_def)
  note n' = n [unfolded specs_def, simplified, unfolded number_in_range_def, simplified]
  show ?thesis
    using n' e assms(1,2)
    by (simp add: parse_attributes_def serialize_attributes_def append_as_member skip_space_stop json_space_def
        skip_space_member member_text_hd Let_def
        parse_loop_bool parse_loop_number parse_loop_enum plain_text_def find_spec_names specs_nth)
qed

section \<open>Properties\<close>

text \<open>C18: Writing a complete set of options and reading the text back gives exactly those options,
  whatever the struct held before, as long as every number is inside its bounds, both enumerated
  values have a name, and no two names agree up to case or contain a quote or a backslash.\<close>

theorem attributes_roundtrip:
  assumes "enum_names_ok cn" "enum_names_ok isn" "options_valid (Some cn) (Some isn) opts"
  shows "parse_attributes (Some (serialize_attributes opts (Some cn) (Some isn))) (Some cn) (Some isn) True s0 =
    (True, None, opts)"
  by (rule parse_serialize [OF assms])

definition sample_options :: ha_table_option_struct where
  "sample_options =
     \<lparr>btree_klog_block_size = 4096, level_size_ratio = 10, min_levels = 5, dividing_level_offset = 2,
      bloom_fpr = 100, l1_file_count_trigger = 4, compression = 1, isolation_level = 0,
      bloom_filter = True, keep_values_inline = False, ttl = 0, encrypted = False,
      encryption_key_id = 1, tombstone_density_trigger = 5000, tombstone_density_min_entries = 10\<rparr>"

lemma sample_names_ok: "enum_names_ok [''NONE'', ''LZ4'']" "enum_names_ok [''SNAPSHOT'']"
  by (simp_all add: enum_names_ok_def plain_text_def c_tolower_def)

lemma sample_options_valid: "options_valid (Some [''NONE'', ''LZ4'']) (Some [''SNAPSHOT'']) sample_options"
  by (simp add: options_valid_def specs_def number_in_range_def enum_in_range_def sample_options_def ULL_MAX_def)

theorem attributes_roundtrip_witness:
  "enum_names_ok [''NONE'', ''LZ4''] \<and> enum_names_ok [''SNAPSHOT''] \<and>
   options_valid (Some [''NONE'', ''LZ4'']) (Some [''SNAPSHOT'']) sample_options \<and>
   parse_attributes (Some (serialize_attributes sample_options (Some [''NONE'', ''LZ4'']) (Some [''SNAPSHOT''])))
     (Some [''NONE'', ''LZ4'']) (Some [''SNAPSHOT'']) True (sample_options\<lparr>ttl := 7, compression := 0\<rparr>) =
     (True, None, sample_options)"
  using attributes_roundtrip [OF sample_names_ok sample_options_valid] sample_names_ok sample_options_valid
  by simp

text \<open>C19: Reading an attribute never leaves an option outside the bounds its table entry gives it,
  nor an enumerated value beyond its name list, whether the text is accepted, refused half way
  through, or absent.\<close>

theorem parsed_options_stay_valid:
  assumes "options_valid cn isn s"
  shows "options_valid cn isn (snd (snd (parse_attributes json cn isn ptrs_ok s)))"
  using assms parse_loop_valid [OF assms]
  by (auto simp: parse_attributes_def Let_def split: option.splits list.splits)

theorem parsed_options_stay_valid_witness:
  "options_valid (Some [''NONE'', ''LZ4'']) (Some [''SNAPSHOT'']) sample_options \<and>
   options_valid (Some [''NONE'', ''LZ4'']) (Some [''SNAPSHOT''])
     (snd (snd (parse_attributes (Some [CHR 0x7B, CHR 0x22, CHR ''x'']) (Some [''NONE'', ''LZ4''])
        (Some [''SNAPSHOT'']) True sample_options)))"
  using parsed_options_stay_valid [OF sample_options_valid] sample_options_valid by blast

text \<open>A number is accepted exactly when it is a non-empty run of decimal digits whose value fits
  64 bits, and then it is that value: nothing wraps.\<close>

theorem to_number_exact:
  "to_number v = Some m \<longleftrightarrow>
     v \<noteq> [] \<and> list_all is_digit v \<and> decimal 0 v < 2 ^ 64 \<and> unat m = decimal 0 v"
  by (simp add: to_number_def to_number_loop_exact)

lemma digit_nocase:
  assumes "eq_nocase a b" "list_all is_digit a"
  shows "b = a"
proof -
  have "c_tolower x = c_tolower y \<Longrightarrow> is_digit x \<Longrightarrow> y = x" for x y
    by (cases "65 \<le> (of_char y :: nat) \<and> (of_char y :: nat) \<le> 90")
      (auto simp: c_tolower_def is_digit_def Let_def)
  then show ?thesis
    using assms by (induction a arbitrary: b) (auto simp: eq_nocase_def Cons_eq_map_conv)
qed

lemma enum_search_digits:
  "list_all is_digit v \<Longrightarrow> v \<notin> set ns \<Longrightarrow> enum_search v ns i = None"
  by (induction v ns i rule: enum_search.induct) (auto dest: digit_nocase)

text \<open>C32: An enumerated value beyond the name list is written as its position, and that text is
  refused by the reader, so such a value does not survive a write and a read.\<close>

theorem unnamed_enum_not_readable:
  assumes "length ns \<le> unat e" "list_all (\<lambda>n. to_number n = None) ns"
  shows "append_enum name e (Some ns) first = append_name name first @ nat_to_string (unat e) \<and>
    to_enum (nat_to_string (unat e)) (Some ns) = None"
proof -
  have e: "unat (ucast e :: u64) = unat e"
    using unsigned_less [of e, where ?'a = nat] by (simp add: unsigned_ucast_eq take_bit_eq_mod)
  have num: "to_number (nat_to_string (unat e)) = Some (ucast e)"
    using to_number_to_string [of "ucast e :: u64"] e by simp
  have "nat_to_string (unat e) \<notin> set ns"
    using assms(2) num by (auto simp: list_all_iff)
  then have "enum_search (nat_to_string (unat e)) ns 0 = None"
    using nat_to_string_decimal [of "unat e"] by (intro enum_search_digits) auto
  moreover have "unat (of_nat (length ns) :: u64) \<le> unat e"
    using assms(1) by (simp add: unat_of_nat)
  ultimately show ?thesis
    using assms(1) num e
    by (simp add: append_enum_def enum_name_def to_enum_def word_le_nat_alt)
qed

theorem unnamed_enum_not_readable_witness:
  "length [''NONE'', ''LZ4''] \<le> unat (5 :: u32) \<and> list_all (\<lambda>n. to_number n = None) [''NONE'', ''LZ4''] \<and>
   append_enum ''compression'' 5 (Some [''NONE'', ''LZ4'']) False =
     append_name ''compression'' False @ nat_to_string (unat (5 :: u32)) \<and>
   to_enum (nat_to_string (unat (5 :: u32))) (Some [''NONE'', ''LZ4'']) = None"
proof -
  have h: "length [''NONE'', ''LZ4''] \<le> unat (5 :: u32)"
    "list_all (\<lambda>n. to_number n = None) [''NONE'', ''LZ4'']"
    by (simp_all add: to_number_def is_digit_def)
  show ?thesis
    using h unnamed_enum_not_readable [OF h, of "''compression''" False] by blast
qed

end
