(* ===== verification/Fts_Text.thy ===== *)
theory Fts_Text
  imports Prelude
begin

text \<open>
  The full-text kernel, \<^verbatim>\<open>src/tidesdb/src/core/fts_text.{h,cc}\<close>: the posting and counter codecs, the
  inverted-index key, the tokenizer, the boolean-mode query parser and the phrase test.

  A text range \<open>(p, end)\<close> is the byte list it spans. The abstract class \<open>charset\<close> is a record of its
  three virtual functions; \<open>mbchar_len\<close> is given the whole unread range. Its documented contract, that
  it never looks past \<open>end\<close>, is the predicate \<open>charset_ok\<close>. A set of stop words is a list.
\<close>

section \<open>Constants and data\<close>

definition MAX_TERM_BYTES :: nat where "MAX_TERM_BYTES = 512"
definition TERM_LEN_PREFIX :: nat where "TERM_LEN_PREFIX = 2"
definition VALUE_TF_LEN :: nat where "VALUE_TF_LEN = 2"
definition VALUE_DOC_LEN_LEN :: nat where "VALUE_DOC_LEN_LEN = 4"
definition VALUE_LEN :: nat where "VALUE_LEN = VALUE_TF_LEN + VALUE_DOC_LEN_LEN"
definition META_VALUE_DOCS_LEN :: nat where "META_VALUE_DOCS_LEN = 8"
definition META_VALUE_WORDS_LEN :: nat where "META_VALUE_WORDS_LEN = 8"
definition META_VALUE_LEN :: nat where "META_VALUE_LEN = META_VALUE_DOCS_LEN + META_VALUE_WORDS_LEN"
definition DEFAULT_MIN_WORD_LEN :: nat where "DEFAULT_MIN_WORD_LEN = 3"
definition DEFAULT_MAX_WORD_LEN :: nat where "DEFAULT_MAX_WORD_LEN = 84"
definition OP_REQUIRED :: u8 where "OP_REQUIRED = 0x2B"
definition OP_EXCLUDED :: u8 where "OP_EXCLUDED = 0x2D"
definition OP_PHRASE :: u8 where "OP_PHRASE = 0x22"
definition OP_TRUNC :: u8 where "OP_TRUNC = 0x2A"
definition SPACE :: u8 where "SPACE = 0x20"
definition BLEND_MAP_SIZE :: nat where "BLEND_MAP_SIZE = 256"

lemmas fts_const = MAX_TERM_BYTES_def TERM_LEN_PREFIX_def VALUE_TF_LEN_def VALUE_DOC_LEN_LEN_def
  VALUE_LEN_def META_VALUE_DOCS_LEN_def META_VALUE_WORDS_LEN_def META_VALUE_LEN_def

lemmas fts_op = OP_REQUIRED_def OP_EXCLUDED_def OP_PHRASE_def OP_TRUNC_def SPACE_def

datatype requirement = neutral | required | excluded

record charset =
  mbchar_len :: "bytes \<Rightarrow> nat"
  is_alnum :: "u8 \<Rightarrow> bool"
  casedn :: "bytes \<Rightarrow> bytes"

record tokenize_opts =
  min_word_len :: nat
  max_word_len :: nat
  blend_map :: "bool list option"
  stopwords :: "bytes list option"

record query_term =
  qt_term :: bytes
  qt_req :: requirement
  qt_trunc :: bool
  qt_is_phrase :: bool
  qt_phrase_words :: "bytes list"

section \<open>Value codecs\<close>

definition store_u16le :: "u16 \<Rightarrow> bytes" where
  "store_u16le v = [ucast v, ucast (drop_bit 8 v)]"

definition store_u32le :: "u32 \<Rightarrow> bytes" where
  "store_u32le v = map (\<lambda>i. ucast (drop_bit (i * 8) v)) [0..<4]"

definition store_u64le :: "u64 \<Rightarrow> bytes" where
  "store_u64le v = map (\<lambda>i. ucast (drop_bit (i * 8) v)) [0..<8]"

definition load_u16le :: "bytes \<Rightarrow> u16" where
  "load_u16le p = ucast (ucast (p ! 0) OR push_bit 8 (ucast (p ! 1)) :: 32 word)"

definition load_u32le :: "bytes \<Rightarrow> u32" where
  "load_u32le p = foldl (\<lambda>v i. v OR push_bit (i * 8) (ucast (p ! i))) 0 [0..<4]"

definition load_u64le :: "bytes \<Rightarrow> u64" where
  "load_u64le p = foldl (\<lambda>v i. v OR push_bit (i * 8) (ucast (p ! i))) 0 [0..<8]"

definition encode_entry_value :: "u16 \<Rightarrow> u32 \<Rightarrow> bytes" where
  "encode_entry_value tf doc_len = store_u16le tf @ store_u32le doc_len"

definition decode_entry_value :: "bytes \<Rightarrow> (u16 \<times> u32) option" where
  "decode_entry_value inp =
     (if length inp < VALUE_LEN then None
      else Some (load_u16le inp, load_u32le (drop VALUE_TF_LEN inp)))"

text \<open>The signed counters are their two's complement words; the casts keep the bits.\<close>

definition encode_meta_value :: "u64 \<Rightarrow> u64 \<Rightarrow> bytes" where
  "encode_meta_value total_docs total_words = store_u64le total_docs @ store_u64le total_words"

definition decode_meta_value :: "bytes \<Rightarrow> (u64 \<times> u64) option" where
  "decode_meta_value inp =
     (if length inp < META_VALUE_LEN then None
      else Some (load_u64le inp, load_u64le (drop META_VALUE_DOCS_LEN inp)))"

text \<open>The buffer written, and the 32-bit length returned.\<close>

definition build_key :: "bytes \<Rightarrow> bytes \<Rightarrow> bytes \<times> u32" where
  "build_key term pk =
     (let term_len = (if length term > MAX_TERM_BYTES then MAX_TERM_BYTES else length term)
      in (store_u16le (of_nat term_len) @ take term_len term @ pk,
          of_nat TERM_LEN_PREFIX + of_nat term_len + of_nat (length pk)))"

section \<open>Tokenizer\<close>

fun blend_set :: "bytes \<Rightarrow> bool list \<Rightarrow> bool list" where
  "blend_set [] out = out"
| "blend_set (c # p) out = (if c = 0 then out else blend_set p (out[unat c := True]))"

definition build_blend_map :: "bytes option \<Rightarrow> bool list" where
  "build_blend_map chars =
     (let out = replicate BLEND_MAP_SIZE False
      in case chars of None \<Rightarrow> out | Some p \<Rightarrow> blend_set p out)"

text \<open>\<open>blend && blend[c]\<close>.\<close>

definition is_blend :: "bool list option \<Rightarrow> u8 \<Rightarrow> bool" where
  "is_blend blend c \<longleftrightarrow> (case blend of None \<Rightarrow> False | Some m \<Rightarrow> m ! unat c)"

text \<open>The contract of \<open>mbchar_len\<close>: a multibyte character ends inside the readable range.\<close>

definition charset_ok :: "charset \<Rightarrow> bool" where
  "charset_ok cs \<longleftrightarrow> (\<forall>p. mbchar_len cs p \<le> length p)"

function char_count :: "charset \<Rightarrow> bytes \<Rightarrow> nat" where
  "char_count cs p =
     (if p = [] then 0
      else let mb = mbchar_len cs p
        in Suc (char_count cs (drop (if mb \<noteq> 0 then mb else 1) p)))"
  by pat_completeness auto
termination
  by (relation "measure (\<lambda>(cs, p). length p)") auto

declare char_count.simps [simp del]

definition emit_token :: "charset \<Rightarrow> tokenize_opts \<Rightarrow> bytes \<Rightarrow> bytes list \<Rightarrow> bytes list" where
  "emit_token cs opts w out =
     (if w = [] then out
      else let chars = char_count cs w
        in if chars < min_word_len opts \<or> chars > max_word_len opts then out
           else let word = casedn cs w
             in if (case stopwords opts of None \<Rightarrow> False | Some sw \<Rightarrow> word \<in> set sw) then out
                else out @ [word])"

text \<open>The first inner loop: the range from the next word character on.\<close>

fun skip_separators :: "charset \<Rightarrow> bool list option \<Rightarrow> bytes \<Rightarrow> bytes" where
  "skip_separators cs blend [] = []"
| "skip_separators cs blend (c # p) =
     (if mbchar_len cs (c # p) \<noteq> 0 then c # p
      else if is_alnum cs c then c # p
      else if is_blend blend c then c # p
      else skip_separators cs blend p)"

text \<open>The second inner loop: the word, whether it contains a blend character, and the rest.\<close>

function scan_word :: "charset \<Rightarrow> bool list option \<Rightarrow> bytes \<Rightarrow> bytes \<times> bool \<times> bytes" where
  "scan_word cs blend p =
     (case p of
        [] \<Rightarrow> ([], False, [])
      | c # p' \<Rightarrow>
          let mb = mbchar_len cs p in
          if mb \<noteq> 0 then
            (case scan_word cs blend (drop mb p) of (w, b, r) \<Rightarrow> (take mb p @ w, b, r))
          else if is_alnum cs c then
            (case scan_word cs blend p' of (w, b, r) \<Rightarrow> (c # w, b, r))
          else if is_blend blend c then
            (case scan_word cs blend p' of (w, b, r) \<Rightarrow> (c # w, True, r))
          else ([], False, p))"
  by pat_completeness auto
termination
  by (relation "measure (\<lambda>(cs, b, p). length p)") auto

declare scan_word.simps [simp del]

text \<open>The parts of a blended word: \<open>sub\<close> is the range from \<open>sub_start\<close> to the scan position.\<close>

fun emit_parts ::
  "charset \<Rightarrow> tokenize_opts \<Rightarrow> bytes \<Rightarrow> bytes \<Rightarrow> bytes list \<Rightarrow> bytes list" where
  "emit_parts cs opts sub [] out = emit_token cs opts sub out"
| "emit_parts cs opts sub (s # p) out =
     (if is_blend (blend_map opts) s then emit_parts cs opts [] p (emit_token cs opts sub out)
      else emit_parts cs opts (sub @ [s]) p out)"

definition emit_word ::
  "charset \<Rightarrow> tokenize_opts \<Rightarrow> bytes \<Rightarrow> bool \<Rightarrow> bytes list \<Rightarrow> bytes list" where
  "emit_word cs opts w contains_blend out =
     (let out1 = emit_token cs opts w out
      in if contains_blend then emit_parts cs opts [] w out1 else out1)"

lemma length_skip_separators: "length (skip_separators cs b p) \<le> length p"
  by (induction cs b p rule: skip_separators.induct) auto

lemma scan_word_Nil [simp]: "scan_word cs b [] = ([], False, [])"
  by (simp add: scan_word.simps)

lemma scan_word_mb:
  "mbchar_len cs (c # p) = Suc n \<Longrightarrow> scan_word cs b (c # p) =
     (case scan_word cs b (drop n p) of (w, f, r) \<Rightarrow> (c # take n p @ w, f, r))"
  by (subst scan_word.simps) (simp add: Let_def split: prod.splits)

lemma scan_word_single:
  "mbchar_len cs (c # p) = 0 \<Longrightarrow> scan_word cs b (c # p) =
     (if is_alnum cs c then (case scan_word cs b p of (w, f, r) \<Rightarrow> (c # w, f, r))
      else if is_blend b c then (case scan_word cs b p of (w, f, r) \<Rightarrow> (c # w, True, r))
      else ([], False, c # p))"
  by (subst scan_word.simps) (simp add: Let_def)

lemma scan_induct [case_names Nil mb single]:
  assumes "P []"
    and "\<And>c p n. mbchar_len cs (c # p) = Suc n \<Longrightarrow> P (drop n p) \<Longrightarrow> P (c # p)"
    and "\<And>c p. mbchar_len cs (c # p) = 0 \<Longrightarrow> P p \<Longrightarrow> P (c # p)"
  shows "P p"
proof (induction p rule: length_induct)
  case (1 p)
  show ?case
  proof (cases p)
    case (Cons c q)
    then show ?thesis
      using 1 assms(2,3) by (cases "mbchar_len cs (c # q)") auto
  qed (simp add: assms(1))
qed

lemma scan_word_split: "scan_word cs b p = (w, f, r) \<Longrightarrow> p = w @ r"
  by (induction p arbitrary: w f r rule: scan_induct [of _ cs])
    (auto simp: scan_word_mb scan_word_single split: prod.splits if_splits,
      metis append_take_drop_id)

lemma skip_separators_Cons:
  "skip_separators cs b p = c # q \<Longrightarrow> mbchar_len cs (c # q) \<noteq> 0 \<or> is_alnum cs c \<or> is_blend b c"
  by (induction cs b p rule: skip_separators.induct) (auto split: if_splits)

lemma scan_word_nonempty:
  assumes "mbchar_len cs (c # q) \<noteq> 0 \<or> is_alnum cs c \<or> is_blend b c"
  shows "fst (scan_word cs b (c # q)) \<noteq> []"
  using assms
  by (cases "mbchar_len cs (c # q)") (auto simp: scan_word_mb scan_word_single split: prod.splits)

function tokenize :: "charset \<Rightarrow> tokenize_opts \<Rightarrow> bytes \<Rightarrow> bytes list \<Rightarrow> bytes list" where
  "tokenize cs opts tx out =
     (let p = skip_separators cs (blend_map opts) tx in
      if p = [] then out
      else case scan_word cs (blend_map opts) p of
        (w, contains_blend, rest) \<Rightarrow> tokenize cs opts rest (emit_word cs opts w contains_blend out))"
  by pat_completeness auto
termination
proof (relation "measure (\<lambda>(cs, opts, p, out). length p)")
  fix cs and opts :: tokenize_opts and tx out p w y contains_blend rest
  assume p: "p = skip_separators cs (blend_map opts) tx" "p \<noteq> []"
    and s: "(w, y) = scan_word cs (blend_map opts) p" "(contains_blend, rest) = y"
  from p(2) obtain c q where c: "p = c # q"
    by (meson list.exhaust)
  have "w \<noteq> []"
    using scan_word_nonempty [OF skip_separators_Cons, of cs "blend_map opts" tx c q] p s c
    by (metis fst_conv)
  moreover have "p = w @ rest"
    using scan_word_split [of cs "blend_map opts" p w contains_blend rest] s by simp
  ultimately show "((cs, opts, rest, emit_word cs opts w contains_blend out), cs, opts, tx, out)
      \<in> measure (\<lambda>(cs, opts, p, out). length p)"
    using length_skip_separators [of cs "blend_map opts" tx] p by (cases w) auto
qed simp

declare tokenize.simps [simp del]

section \<open>Boolean query parser\<close>

definition skip_blanks :: "bytes \<Rightarrow> bytes" where
  "skip_blanks p = dropWhile (\<lambda>c. c = SPACE) p"

text \<open>The leading operator and the range after it.\<close>

definition read_requirement :: "bytes \<Rightarrow> requirement \<times> bytes" where
  "read_requirement p =
     (case p of
        [] \<Rightarrow> (neutral, p)
      | c # p' \<Rightarrow>
          if c = OP_REQUIRED then (required, p')
          else if c = OP_EXCLUDED then (excluded, p')
          else (neutral, p))"

definition word_term :: "bytes \<Rightarrow> requirement \<Rightarrow> bool \<Rightarrow> query_term" where
  "word_term w req trunc =
     \<lparr>qt_term = w, qt_req = req, qt_trunc = trunc, qt_is_phrase = False, qt_phrase_words = []\<rparr>"

definition phrase_term :: "bytes list \<Rightarrow> requirement \<Rightarrow> query_term" where
  "phrase_term words req =
     \<lparr>qt_term = hd words, qt_req = (if req = neutral then required else req), qt_trunc = False,
      qt_is_phrase = True, qt_phrase_words = words\<rparr>"

text \<open>The phrase branch, from just after the opening quote: the terms it adds and the range after
  the closing quote, which may be missing.\<close>

definition parse_phrase ::
  "charset \<Rightarrow> tokenize_opts \<Rightarrow> requirement \<Rightarrow> bytes \<Rightarrow> query_term list \<times> bytes" where
  "parse_phrase cs opts req p =
     (let phrase = takeWhile (\<lambda>c. c \<noteq> OP_PHRASE) p;
          rest = dropWhile (\<lambda>c. c \<noteq> OP_PHRASE) p;
          rest' = (if rest \<noteq> [] then tl rest else rest);
          words = (if phrase = [] then [] else tokenize cs opts phrase [])
      in (if words = [] then []
          else phrase_term words req # map (\<lambda>w. word_term w required False) (tl words),
          rest'))"

fun skip_to_term :: "charset \<Rightarrow> bytes \<Rightarrow> bytes" where
  "skip_to_term cs [] = []"
| "skip_to_term cs (c # p) =
     (if \<not> is_alnum cs c \<and> mbchar_len cs (c # p) = 0 \<and> c \<noteq> OP_TRUNC then skip_to_term cs p else c # p)"

function scan_term :: "charset \<Rightarrow> bytes \<Rightarrow> bytes \<times> bytes" where
  "scan_term cs p =
     (case p of
        [] \<Rightarrow> ([], [])
      | c # p' \<Rightarrow>
          let mb = mbchar_len cs p in
          if mb \<noteq> 0 then (case scan_term cs (drop mb p) of (w, r) \<Rightarrow> (take mb p @ w, r))
          else if is_alnum cs c \<or> c = OP_TRUNC then
            (case scan_term cs p' of (w, r) \<Rightarrow> (c # w, r))
          else ([], p))"
  by pat_completeness auto
termination
  by (relation "measure (\<lambda>(cs, p). length p)") auto

declare scan_term.simps [simp del]

definition plain_term :: "charset \<Rightarrow> requirement \<Rightarrow> bytes \<Rightarrow> query_term list" where
  "plain_term cs req w =
     (if w = [] then []
      else let trunc = (last w = OP_TRUNC); w' = (if trunc then butlast w else w)
        in if w' = [] then [] else [word_term (casedn cs w') req trunc])"

lemma scan_term_Nil [simp]: "scan_term cs [] = ([], [])"
  by (simp add: scan_term.simps)

lemma scan_term_mb:
  "mbchar_len cs (c # p) = Suc n \<Longrightarrow> scan_term cs (c # p) =
     (case scan_term cs (drop n p) of (w, r) \<Rightarrow> (c # take n p @ w, r))"
  by (subst scan_term.simps) (simp add: Let_def split: prod.splits)

lemma scan_term_single:
  "mbchar_len cs (c # p) = 0 \<Longrightarrow> scan_term cs (c # p) =
     (if is_alnum cs c \<or> c = OP_TRUNC then (case scan_term cs p of (w, r) \<Rightarrow> (c # w, r)) else ([], c # p))"
  by (subst scan_term.simps) (simp add: Let_def)

lemma scan_term_split: "scan_term cs p = (w, r) \<Longrightarrow> p = w @ r"
  by (induction p arbitrary: w r rule: scan_induct [of _ cs])
    (auto simp: scan_term_mb scan_term_single split: prod.splits if_splits,
      metis append_take_drop_id)

lemma scan_term_nonempty: "skip_to_term cs p = c # q \<Longrightarrow> fst (scan_term cs (c # q)) \<noteq> []"
proof -
  assume "skip_to_term cs p = c # q"
  then have "is_alnum cs c \<or> mbchar_len cs (c # q) \<noteq> 0 \<or> c = OP_TRUNC"
    by (induction cs p rule: skip_to_term.induct) (auto split: if_splits)
  then show ?thesis
    by (cases "mbchar_len cs (c # q)") (auto simp: scan_term_mb scan_term_single split: prod.splits)
qed

lemma length_skip_blanks: "length (skip_blanks p) \<le> length p"
  by (simp add: skip_blanks_def length_dropWhile_le)

lemma length_skip_to_term: "length (skip_to_term cs p) \<le> length p"
  by (induction cs p rule: skip_to_term.induct) auto

text \<open>One round of the outer loop from a non-empty range: the terms it adds, and the range it
  leaves; \<open>None\<close> is a \<open>break\<close>.\<close>

definition boolean_round ::
  "charset \<Rightarrow> tokenize_opts \<Rightarrow> bytes \<Rightarrow> (query_term list \<times> bytes) option" where
  "boolean_round cs opts p0 =
     (let p1 = skip_blanks p0 in
      if p1 = [] then None
      else case read_requirement p1 of
        (req, p2) \<Rightarrow>
          let p3 = skip_blanks p2 in
          if p3 = [] then None
          else if hd p3 = OP_PHRASE then Some (parse_phrase cs opts req (tl p3))
          else let p4 = skip_to_term cs p3 in
            if p4 = [] then None
            else case scan_term cs p4 of (w, rest) \<Rightarrow> Some (plain_term cs req w, rest))"

lemma length_read_requirement: "length (snd (read_requirement p)) \<le> length p"
  by (auto simp: read_requirement_def split: list.splits)

lemma length_parse_phrase: "length (snd (parse_phrase cs opts req p)) \<le> length p"
  using length_dropWhile_le [of "\<lambda>c. c \<noteq> OP_PHRASE" p]
  by (auto simp: parse_phrase_def Let_def)

lemma boolean_round_shrinks:
  assumes "boolean_round cs opts p = Some (ts, r)"
  shows "length r < length p"
proof -
  define p3 where "p3 = skip_blanks (snd (read_requirement (skip_blanks p)))"
  have le: "length p3 \<le> length p"
    unfolding p3_def
    by (meson le_trans length_skip_blanks length_read_requirement)
  consider "p3 \<noteq> []" "r = snd (parse_phrase cs opts (fst (read_requirement (skip_blanks p))) (tl p3))"
    | w where "skip_to_term cs p3 \<noteq> []" "scan_term cs (skip_to_term cs p3) = (w, r)"
    using assms by (auto simp: boolean_round_def Let_def p3_def split: if_splits prod.splits)
  then show ?thesis
  proof cases
    case 1
    then show ?thesis
      using le length_parse_phrase [of cs opts "fst (read_requirement (skip_blanks p))" "tl p3"]
      by (cases p3) auto
  next
    case 2
    then obtain c q where c: "skip_to_term cs p3 = c # q"
      by (meson list.exhaust)
    with 2 have "w \<noteq> []" "c # q = w @ r"
      using scan_term_nonempty [OF c] scan_term_split [of cs "c # q" w r] by auto
    then have "length r < length (skip_to_term cs p3)"
      unfolding c by (cases w) auto
    then show ?thesis
      using le length_skip_to_term [of cs p3] by linarith
  qed
qed

function parse_boolean ::
  "charset \<Rightarrow> tokenize_opts \<Rightarrow> bytes \<Rightarrow> query_term list \<Rightarrow> query_term list" where
  "parse_boolean cs opts p out =
     (case boolean_round cs opts p of
        None \<Rightarrow> out
      | Some (ts, rest) \<Rightarrow> parse_boolean cs opts rest (out @ ts))"
  by pat_completeness auto
termination
  by (relation "measure (\<lambda>(cs, opts, p, out). length p)") (auto dest: boolean_round_shrinks)

declare parse_boolean.simps [simp del]

section \<open>Phrase test\<close>

definition phrase_in_tokens :: "bytes list \<Rightarrow> bytes list \<Rightarrow> bool" where
  "phrase_in_tokens doc_tokens phrase_words =
     (if phrase_words = [] then True
      else if length doc_tokens < length phrase_words then False
      else let limit = length doc_tokens - length phrase_words
        in list_ex (\<lambda>i. list_all (\<lambda>j. doc_tokens ! (i + j) = phrase_words ! j) [0..<length phrase_words])
             [0..<Suc limit])"

section \<open>Codec lemmas\<close>

lemma load_store_u16le_append: "load_u16le (store_u16le v @ r) = v"
proof (rule bit_word_eqI)
  fix k
  assume "k < LENGTH(16)"
  then show "bit (load_u16le (store_u16le v @ r)) k = bit v k"
    by (cases "k < 8") (auto simp: load_u16le_def store_u16le_def bit_simps dest: bit_imp_le_length)
qed

lemma load_store_u32le_append: "load_u32le (store_u32le v @ r) = v"
  using le_dec_le_enc [of 4 v r] by (simp add: load_u32le_def store_u32le_def le_dec_def le_enc_def)

lemma load_store_u64le_append: "load_u64le (store_u64le v @ r) = v"
  using le_dec_le_enc [of 8 v r] by (simp add: load_u64le_def store_u64le_def le_dec_def le_enc_def)

interpretation fts16: fixed_codec store_u16le load_u16le 2
  using load_store_u16le_append [of _ "[]"] by unfold_locales (simp_all add: store_u16le_def)

interpretation fts32: fixed_codec store_u32le load_u32le 4
  using load_store_u32le_append [of _ "[]"] by unfold_locales (simp_all add: store_u32le_def)

interpretation fts64: fixed_codec store_u64le load_u64le 8
  using load_store_u64le_append [of _ "[]"] by unfold_locales (simp_all add: store_u64le_def)

lemma build_key_bytes:
  "fst (build_key t pk) = store_u16le (of_nat (length (take 512 t))) @ take 512 t @ pk"
  by (auto simp: build_key_def Let_def fts_const min_def)

lemma u16_len_inject:
  "length a \<le> 512 \<Longrightarrow> length b \<le> 512 \<Longrightarrow>
     (of_nat (length a) :: u16) = of_nat (length b) \<longleftrightarrow> length a = length b"
  by (auto simp: word_unat_eq_iff unat_of_nat)

section \<open>Tokenizer lemmas\<close>

lemma emit_token_acc: "emit_token cs opts w out = out @ emit_token cs opts w []"
  by (simp add: emit_token_def Let_def)

lemma emit_parts_acc: "emit_parts cs opts sub p out = out @ emit_parts cs opts sub p []"
proof (induction p arbitrary: sub out)
  case (Cons s p)
  show ?case
  proof (cases "is_blend (blend_map opts) s")
    case True
    then have "emit_parts cs opts sub (s # p) o' = emit_token cs opts sub o' @ emit_parts cs opts [] p []" for o'
      using Cons.IH [of "[]" "emit_token cs opts sub o'"] by simp
    from this [of out] this [of "[]"] show ?thesis
      using emit_token_acc [of cs opts sub out] by simp
  next
    case False
    with Cons.IH [of "sub @ [s]" out] show ?thesis
      by simp
  qed
qed (simp, rule emit_token_acc)

lemma emit_word_acc: "emit_word cs opts w f out = out @ emit_word cs opts w f []"
  using emit_token_acc [of cs opts w out] emit_parts_acc [of cs opts "[]" w "out @ emit_token cs opts w []"]
    emit_parts_acc [of cs opts "[]" w "emit_token cs opts w []"]
  by (simp add: emit_word_def Let_def)

text \<open>The shape of the outer loop, and its induction.\<close>

lemma tokenize_none:
  "skip_separators cs (blend_map opts) tx = [] \<Longrightarrow> tokenize cs opts tx out = out"
  by (simp add: tokenize.simps)

lemma tokenize_induct [case_names none word]:
  assumes none: "\<And>tx. skip_separators cs (blend_map opts) tx = [] \<Longrightarrow> P tx"
    and word: "\<And>tx p w f r. skip_separators cs (blend_map opts) tx = p \<Longrightarrow> p \<noteq> [] \<Longrightarrow>
      scan_word cs (blend_map opts) p = (w, f, r) \<Longrightarrow> P r \<Longrightarrow> P tx"
  shows "P tx"
proof (induction tx rule: length_induct)
  case (1 tx)
  define p where "p = skip_separators cs (blend_map opts) tx"
  show ?case
  proof (cases p)
    case Nil
    then show ?thesis
      using none p_def by simp
  next
    case (Cons c q)
    obtain w f r where s: "scan_word cs (blend_map opts) p = (w, f, r)"
      by (metis prod_cases3)
    have "w \<noteq> []" "p = w @ r"
      using scan_word_nonempty [OF skip_separators_Cons, of cs "blend_map opts" tx c q] Cons s p_def
        scan_word_split [OF s] by (metis fst_conv)+
    then have "length r < length tx"
      using length_skip_separators [of cs "blend_map opts" tx] p_def by (cases w) auto
    then show ?thesis
      using word [of tx p w f r] 1 s Cons p_def by auto
  qed
qed

lemma tokenize_acc: "tokenize cs opts tx out = out @ tokenize cs opts tx []"
proof (induction tx arbitrary: out rule: tokenize_induct [of cs opts])
  case (none tx)
  then show ?case
    by (simp add: tokenize_none)
next
  case (word tx p w f r)
  from word(1-3) have "tokenize cs opts tx o' = tokenize cs opts r (emit_word cs opts w f o')" for o'
    by (subst tokenize.simps) (simp add: Let_def)
  then show ?case
    using word(4) [of "emit_word cs opts w f []"] word(4) [of "emit_word cs opts w f out"]
      emit_word_acc [of cs opts w f out] by simp
qed

lemma tokenize_word:
  assumes "skip_separators cs (blend_map opts) tx = p" "p \<noteq> []"
    "scan_word cs (blend_map opts) p = (w, f, r)"
  shows "tokenize cs opts tx out = out @ emit_word cs opts w f [] @ tokenize cs opts r []"
  using assms tokenize_acc [of cs opts r "emit_word cs opts w f out"] emit_word_acc [of cs opts w f out]
  by (subst tokenize.simps) (simp add: Let_def)

text \<open>What one emitted token is: a folded piece of the text, within the length bounds and not a
  stop word.\<close>

definition token_of :: "charset \<Rightarrow> tokenize_opts \<Rightarrow> bytes \<Rightarrow> bytes \<Rightarrow> bool" where
  "token_of cs opts w tok \<longleftrightarrow>
     w \<noteq> [] \<and> tok = casedn cs w \<and> min_word_len opts \<le> char_count cs w \<and> char_count cs w \<le> max_word_len opts \<and>
     (case stopwords opts of None \<Rightarrow> True | Some sw \<Rightarrow> tok \<notin> set sw)"

lemma set_emit_token: "tok \<in> set (emit_token cs opts w []) \<longleftrightarrow> token_of cs opts w tok"
  by (auto simp: emit_token_def token_of_def Let_def split: option.splits)

lemma sublist_within: "sublist w p \<Longrightarrow> sublist w (a @ p @ b)"
  using sublist_order.order_trans [of w p "a @ p @ b"] by blast

lemma set_emit_parts:
  "tok \<in> set (emit_parts cs opts sub p []) \<Longrightarrow> \<exists>w. sublist w (sub @ p) \<and> token_of cs opts w tok"
proof (induction p arbitrary: sub)
  case Nil
  then show ?case
    by (auto simp: set_emit_token)
next
  case (Cons s p)
  show ?case
  proof (cases "is_blend (blend_map opts) s")
    case True
    then have "tok \<in> set (emit_token cs opts sub []) \<or> tok \<in> set (emit_parts cs opts [] p [])"
      using Cons.prems emit_parts_acc [of cs opts "[]" p "emit_token cs opts sub []"] by auto
    then show ?thesis
    proof
      assume "tok \<in> set (emit_token cs opts sub [])"
      then show ?thesis
        by (auto simp: set_emit_token)
    next
      assume "tok \<in> set (emit_parts cs opts [] p [])"
      then obtain w where "sublist w p" "token_of cs opts w tok"
        using Cons.IH [of "[]"] by auto
      then show ?thesis
        using sublist_within [of w p "sub @ [s]" "[]"] by auto
    qed
  next
    case False
    with Cons show ?thesis
      by force
  qed
qed

lemma set_emit_word:
  assumes "tok \<in> set (emit_word cs opts w f [])"
  shows "\<exists>v. sublist v w \<and> token_of cs opts v tok"
proof -
  have "tok \<in> set (emit_token cs opts w []) \<or> tok \<in> set (emit_parts cs opts [] w [])"
    using assms emit_parts_acc [of cs opts "[]" w "emit_token cs opts w []"]
    by (auto simp: emit_word_def Let_def split: if_splits)
  then show ?thesis
    using set_emit_parts [of tok cs opts "[]" w] by (auto simp: set_emit_token)
qed

lemma skip_separators_suffix: "\<exists>s. tx = s @ skip_separators cs b tx"
proof (induction cs b tx rule: skip_separators.induct)
  case (2 cs b c p)
  then show ?case
    by (auto intro: exI [of _ "[]"]) (metis append_Cons)
qed simp

lemma tokens_from_text:
  "tok \<in> set (tokenize cs opts tx []) \<Longrightarrow> \<exists>w. sublist w tx \<and> token_of cs opts w tok"
proof (induction tx rule: tokenize_induct [of cs opts])
  case (none tx)
  then show ?case
    by (simp add: tokenize_none)
next
  case (word tx p w f r)
  obtain s where "tx = s @ w @ r"
    using skip_separators_suffix [of tx cs "blend_map opts"] scan_word_split [OF word(3)] word(1) by auto
  then have tx: "v = w \<or> v = r \<Longrightarrow> sublist u v \<Longrightarrow> sublist u tx" for u v
    using sublist_within [of u w s r] sublist_within [of u r "s @ w" "[]"] by auto
  from word.prems have "tok \<in> set (emit_word cs opts w f []) \<or> tok \<in> set (tokenize cs opts r [])"
    using tokenize_word [OF word(1-3), of "[]"] by auto
  then show ?case
    using set_emit_word [of tok cs opts w f] word(4) tx by blast
qed

section \<open>Separators\<close>

text \<open>
  A byte separates words when it is neither alphanumeric nor blended, and the charset sees it as a
  single-byte character that no multibyte character runs into. Every ASCII separator has this
  property in a charset whose multibyte sequences contain no ASCII byte.
\<close>

definition separates :: "charset \<Rightarrow> tokenize_opts \<Rightarrow> u8 \<Rightarrow> bool" where
  "separates cs opts c \<longleftrightarrow>
     charset_ok cs \<and> \<not> is_alnum cs c \<and> \<not> is_blend (blend_map opts) c \<and>
     (\<forall>v. mbchar_len cs (c # v) = 0) \<and>
     (\<forall>u v. u \<noteq> [] \<longrightarrow> mbchar_len cs (u @ c # v) = mbchar_len cs u)"

lemma skip_separators_sep:
  assumes "separates cs opts c"
  shows "skip_separators cs (blend_map opts) (u @ c # v) =
    (if skip_separators cs (blend_map opts) u = [] then skip_separators cs (blend_map opts) v
     else skip_separators cs (blend_map opts) u @ c # v)"
proof (induction u)
  case (Cons a u)
  have "mbchar_len cs ((a # u) @ c # v) = mbchar_len cs (a # u)"
    using assms unfolding separates_def by blast
  with Cons show ?case
    by simp
qed (use assms in \<open>simp add: separates_def\<close>)

lemma scan_word_sep:
  assumes "separates cs opts c"
  shows "scan_word cs (blend_map opts) (u @ c # v) =
    (case scan_word cs (blend_map opts) u of (w, f, r) \<Rightarrow> (w, f, r @ c # v))"
proof (induction u rule: scan_induct [of _ cs])
  case Nil
  show ?case
    using assms by (simp add: separates_def scan_word_single)
next
  case (mb a u n)
  have "mbchar_len cs ((a # u) @ c # v) = mbchar_len cs (a # u)" "mbchar_len cs (a # u) \<le> length (a # u)"
    using assms unfolding separates_def charset_ok_def by blast+
  with mb show ?case
    by (simp add: scan_word_mb split: prod.splits)
next
  case (single a u)
  have "mbchar_len cs ((a # u) @ c # v) = mbchar_len cs (a # u)"
    using assms unfolding separates_def by blast
  with single show ?case
    by (simp add: scan_word_single split: prod.splits)
qed

lemma tokenize_sep:
  assumes "separates cs opts c"
  shows "tokenize cs opts (u @ c # v) [] = tokenize cs opts u [] @ tokenize cs opts v []"
proof (induction u rule: tokenize_induct [of cs opts])
  case (none u)
  then have "skip_separators cs (blend_map opts) (u @ c # v) = skip_separators cs (blend_map opts) v"
    by (simp add: skip_separators_sep [OF assms])
  then have "tokenize cs opts (u @ c # v) [] = tokenize cs opts v []"
    by (subst (1 2) tokenize.simps) simp
  with none show ?case
    by (simp add: tokenize_none)
next
  case (word u p w f r)
  have "tokenize cs opts (u @ c # v) [] = emit_word cs opts w f [] @ tokenize cs opts (r @ c # v) []"
    using word(1-3) tokenize_word [of cs opts "u @ c # v" "p @ c # v" w f "r @ c # v" "[]"]
    by (simp add: skip_separators_sep [OF assms] scan_word_sep [OF assms])
  then show ?case
    using word tokenize_word [OF word(1-3), of "[]"] by simp
qed

lemma phrase_in_tokens_sublist: "phrase_in_tokens d ph \<longleftrightarrow> sublist ph d"
proof -
  have match: "list_all (\<lambda>j. d ! (i + j) = ph ! j) [0..<length ph] \<longleftrightarrow> take (length ph) (drop i d) = ph"
    if "i + length ph \<le> length d" for i
    unfolding list_eq_iff_nth_eq [of "take (length ph) (drop i d)" ph]
    using that by (auto simp: list_all_iff)
  have "phrase_in_tokens d ph \<longleftrightarrow> (\<exists>i. i + length ph \<le> length d \<and>
      list_all (\<lambda>j. d ! (i + j) = ph ! j) [0..<length ph])" if "ph \<noteq> []"
  proof -
    have "i < Suc (length d - length ph) \<longleftrightarrow> i + length ph \<le> length d" if "length ph \<le> length d" for i
      using that by auto
    then show ?thesis
      using that
      by (auto simp: phrase_in_tokens_def Let_def list_ex_iff atLeast0LessThan not_less
          simp del: upt_Suc)
  qed
  then have "phrase_in_tokens d ph \<longleftrightarrow> (\<exists>i. i + length ph \<le> length d \<and> take (length ph) (drop i d) = ph)"
    using match by (cases "ph = []") (auto simp: phrase_in_tokens_def)
  also have "\<dots> \<longleftrightarrow> sublist ph d"
  proof
    assume "\<exists>i. i + length ph \<le> length d \<and> take (length ph) (drop i d) = ph"
    then obtain i where "take (length ph) (drop i d) = ph"
      by blast
    then have "d = take i d @ ph @ drop (length ph) (drop i d)"
      by (metis append_take_drop_id)
    then show "sublist ph d"
      unfolding sublist_def by blast
  next
    assume "sublist ph d"
    then obtain a b where "d = a @ ph @ b"
      unfolding sublist_def by blast
    then show "\<exists>i. i + length ph \<le> length d \<and> take (length ph) (drop i d) = ph"
      by (intro exI [of _ "length a"]) simp
  qed
  finally show ?thesis .
qed

section \<open>Query parser lemmas\<close>

definition term_wf :: "query_term \<Rightarrow> bool" where
  "term_wf t \<longleftrightarrow>
     (if qt_is_phrase t
      then qt_phrase_words t \<noteq> [] \<and> qt_term t = hd (qt_phrase_words t) \<and> qt_req t \<noteq> neutral \<and> \<not> qt_trunc t
      else qt_phrase_words t = [])"

lemma boolean_round_wf: "boolean_round cs opts p = Some (ts, r) \<Longrightarrow> list_all term_wf ts"
  by (auto simp: boolean_round_def parse_phrase_def plain_term_def Let_def term_wf_def word_term_def
      phrase_term_def list_all_iff split: if_splits prod.splits)

lemma parse_boolean_acc_wf: "list_all term_wf out \<Longrightarrow> list_all term_wf (parse_boolean cs opts p out)"
proof (induction cs opts p out rule: parse_boolean.induct)
  case (1 cs opts p out)
  show ?case
    using 1 boolean_round_wf [of cs opts p]
    by (subst parse_boolean.simps) (auto split: option.splits prod.splits)
qed

lemma boolean_round_end: "boolean_round cs opts [] = None"
  by (simp add: boolean_round_def skip_blanks_def)

lemma parse_boolean_end: "parse_boolean cs opts [] out = out"
  by (subst parse_boolean.simps) (simp add: boolean_round_end)

lemma boolean_round_excluded_phrase:
  assumes "OP_PHRASE \<notin> set q" "tokenize cs opts q [] = w # ws"
  shows "boolean_round cs opts ([OP_EXCLUDED, OP_PHRASE] @ q @ [OP_PHRASE]) =
    Some (phrase_term (w # ws) excluded # map (\<lambda>w. word_term w required False) ws, [])"
proof -
  have "takeWhile (\<lambda>c. c \<noteq> OP_PHRASE) (q @ [OP_PHRASE]) = q"
    "dropWhile (\<lambda>c. c \<noteq> OP_PHRASE) (q @ [OP_PHRASE]) = [OP_PHRASE]"
    using assms(1) by (auto simp: takeWhile_append dropWhile_append)
  moreover have "q \<noteq> []"
    using assms(2) by (auto simp: tokenize_none)
  ultimately show ?thesis
    using assms(2)
    by (simp add: boolean_round_def skip_blanks_def read_requirement_def parse_phrase_def Let_def fts_op)
qed

section \<open>Sample charset\<close>

text \<open>A single-byte charset whose word characters are the lower-case ASCII letters.\<close>

definition ascii_lower :: charset where
  "ascii_lower = \<lparr>mbchar_len = \<lambda>_. 0, is_alnum = \<lambda>c. 0x61 \<le> c \<and> c \<le> 0x7A, casedn = \<lambda>w. w\<rparr>"

definition sample_opts :: tokenize_opts where
  "sample_opts = \<lparr>min_word_len = 2, max_word_len = 84, blend_map = None, stopwords = None\<rparr>"

lemma ascii_space_separates: "separates ascii_lower sample_opts SPACE"
  by (simp add: separates_def charset_ok_def ascii_lower_def sample_opts_def is_blend_def SPACE_def)

lemma sample_tokens:
  "tokenize ascii_lower sample_opts [0x66, 0x6F, 0x20, 0x62, 0x61] [] = [[0x66, 0x6F], [0x62, 0x61]]"
  by code_simp

section \<open>Properties\<close>

text \<open>A posting value and a counter pair read back as written, whatever bytes follow.\<close>

theorem fts_values_roundtrip:
  "decode_entry_value (encode_entry_value tf doc_len @ r) = Some (tf, doc_len) \<and>
   decode_meta_value (encode_meta_value docs words @ r) = Some (docs, words)"
proof -
  have "drop VALUE_TF_LEN (encode_entry_value tf doc_len @ r) = store_u32le doc_len @ r"
    by (simp add: encode_entry_value_def VALUE_TF_LEN_def fts16.enc_length)
  moreover have "drop META_VALUE_DOCS_LEN (encode_meta_value docs words @ r) = store_u64le words @ r"
    by (simp add: encode_meta_value_def META_VALUE_DOCS_LEN_def fts64.enc_length)
  ultimately show ?thesis
    by (simp add: decode_entry_value_def decode_meta_value_def load_store_u16le_append
        load_store_u32le_append load_store_u64le_append encode_entry_value_def encode_meta_value_def
        fts16.enc_length fts32.enc_length fts64.enc_length fts_const)
qed

text \<open>Scanning the inverted index by the key of a bare term finds exactly the postings of that
  term: its bytes are a prefix of a posting's key just when the two terms agree up to the 512-byte
  cap, and term and primary key are recovered from the key.\<close>

theorem posting_key_prefix:
  "(prefix (fst (build_key t [])) (fst (build_key t' pk)) \<longleftrightarrow> take 512 t = take 512 t') \<and>
   (fst (build_key t pk) = fst (build_key t' pk') \<longleftrightarrow> take 512 t = take 512 t' \<and> pk = pk') \<and>
   snd (build_key t pk) = of_nat (length (fst (build_key t pk)))"
proof (intro conjI)
  have len: "(of_nat (length (take 512 t)) :: u16) = of_nat (length (take 512 t')) \<longleftrightarrow>
      length (take 512 t) = length (take 512 t')"
    by (rule u16_len_inject) simp_all
  have key: "fst (build_key t x) = fst (build_key t' y) \<longleftrightarrow> take 512 t = take 512 t' \<and> x = y" for x y
    unfolding build_key_bytes fts16.enc_append_inject len by (metis append_eq_append_conv)
  show "fst (build_key t pk) = fst (build_key t' pk') \<longleftrightarrow> take 512 t = take 512 t' \<and> pk = pk'"
    by (rule key)
  have "prefix (fst (build_key t [])) (fst (build_key t' pk)) \<longleftrightarrow>
      (\<exists>x. fst (build_key t' pk) = fst (build_key t x))"
    by (simp add: prefix_def build_key_bytes)
  then show "prefix (fst (build_key t [])) (fst (build_key t' pk)) \<longleftrightarrow> take 512 t = take 512 t'"
    using key by metis
  show "snd (build_key t pk) = of_nat (length (fst (build_key t pk)))"
    by (simp add: build_key_def Let_def fts_const fts16.enc_length)
qed

text \<open>C21: Every token comes from the document: it is the folded form of a contiguous, non-empty
  piece of the text whose length in characters is within the configured bounds, and it is not a
  stop word.\<close>

theorem tokens_are_indexable:
  assumes "tok \<in> set (tokenize cs opts tx [])"
  shows "\<exists>w. sublist w tx \<and> token_of cs opts w tok"
  by (rule tokens_from_text [OF assms])

theorem tokens_are_indexable_witness:
  "[0x62, 0x61] \<in> set (tokenize ascii_lower sample_opts [0x66, 0x6F, 0x20, 0x62, 0x61] []) \<and>
   (\<exists>w. sublist w [0x66, 0x6F, 0x20, 0x62, 0x61] \<and> token_of ascii_lower sample_opts w [0x62, 0x61])"
proof -
  have m: "[0x62, 0x61] \<in> set (tokenize ascii_lower sample_opts [0x66, 0x6F, 0x20, 0x62, 0x61] [])"
    by (simp add: sample_tokens)
  from tokens_are_indexable [OF m] m show ?thesis
    by blast
qed

text \<open>C22: Tokenizing is compositional at separators: the tokens of two texts joined by a separator
  are the tokens of the one followed by the tokens of the other. So the words of a quoted phrase
  are consecutive tokens of every document that contains the phrase's text between separators, and
  the phrase test accepts it.\<close>

theorem delimited_phrase_found:
  assumes "separates cs opts c" "separates cs opts d"
  shows "tokenize cs opts (u @ c # ph @ d # v) [] =
      tokenize cs opts u [] @ tokenize cs opts ph [] @ tokenize cs opts v [] \<and>
    phrase_in_tokens (tokenize cs opts (u @ c # ph @ d # v) []) (tokenize cs opts ph [])"
  using tokenize_sep [OF assms(1)] tokenize_sep [OF assms(2)]
  by (simp add: phrase_in_tokens_sublist)

theorem delimited_phrase_found_witness:
  "separates ascii_lower sample_opts SPACE \<and>
   phrase_in_tokens (tokenize ascii_lower sample_opts ([0x61] @ SPACE # [0x66, 0x6F] @ SPACE # [0x62]) [])
     (tokenize ascii_lower sample_opts [0x66, 0x6F] [])"
  using delimited_phrase_found [OF ascii_space_separates ascii_space_separates] ascii_space_separates by blast

text \<open>The phrase test is the contiguous-sublist relation on token lists.\<close>

theorem phrase_test_is_sublist: "phrase_in_tokens doc_tokens phrase_words \<longleftrightarrow> sublist phrase_words doc_tokens"
  by (rule phrase_in_tokens_sublist)

text \<open>C27: Every parsed query term is well formed: a phrase carries at least one word, leads with
  its first word, is never merely scored and never truncated; any other term carries no phrase.\<close>

theorem parse_boolean_wf: "list_all term_wf (parse_boolean cs opts query [])"
  by (rule parse_boolean_acc_wf) simp

text \<open>C33: An excluded phrase of two or more words adds its later words as required terms, so the
  query that asks for documents without the phrase demands those words instead.\<close>

theorem excluded_phrase_requires_words:
  assumes "OP_PHRASE \<notin> set q" "tokenize cs opts q [] = w # ws"
  shows "parse_boolean cs opts ([OP_EXCLUDED, OP_PHRASE] @ q @ [OP_PHRASE]) [] =
    phrase_term (w # ws) excluded # map (\<lambda>w. word_term w required False) ws"
  using boolean_round_excluded_phrase [OF assms]
  by (subst parse_boolean.simps) (simp add: parse_boolean_end)

theorem excluded_phrase_requires_words_witness:
  "OP_PHRASE \<notin> set [0x66, 0x6F, 0x20, 0x62, 0x61] \<and>
   parse_boolean ascii_lower sample_opts
     ([OP_EXCLUDED, OP_PHRASE] @ [0x66, 0x6F, 0x20, 0x62, 0x61] @ [OP_PHRASE]) [] =
     [phrase_term [[0x66, 0x6F], [0x62, 0x61]] excluded, word_term [0x62, 0x61] required False]"
  using excluded_phrase_requires_words [OF _ sample_tokens] by (simp add: OP_PHRASE_def)

end
