(* ===== verification/Spatial.thy ===== *)
theory Spatial
  imports Prelude
begin

text \<open>
  The spatial kernel, \<^verbatim>\<open>src/tidesdb/src/core/spatial.{h,cc}\<close>: the order-preserving coordinate
  encoding, the order-32 Hilbert curve, the WKB walker that computes a bounding rectangle, the
  rectangle predicates and the decomposition of a query box into ranges of the curve.

  A \<open>double\<close> is its 64-bit IEEE-754 pattern, and the comparisons the code makes are defined on the
  pattern: nothing compares with a NaN, and the two zeros are equal. \<open>memcpy\<close> of an integer or a
  double is little-endian, as on the platforms the plugin targets.
\<close>

section \<open>Constants\<close>

definition HILBERT_ORDER :: nat where "HILBERT_ORDER = 32"
definition HILBERT_DIM :: nat where "HILBERT_DIM = 2"
definition HILBERT_N :: u64 where "HILBERT_N = push_bit HILBERT_ORDER 1"
definition HILBERT_KEY_LEN :: nat where "HILBERT_KEY_LEN = 8"
definition MBR_VALUE_LEN :: nat where "MBR_VALUE_LEN = 32"
definition RANGE_FULL_LO :: u64 where "RANGE_FULL_LO = 0"
definition RANGE_FULL_HI :: u64 where "RANGE_FULL_HI = 0xFFFFFFFFFFFFFFFF"
definition IEEE754_DOUBLE_SIGN_MASK :: u64 where "IEEE754_DOUBLE_SIGN_MASK = push_bit 63 1"
definition LEX_UINT32_HI_SHIFT :: nat where "LEX_UINT32_HI_SHIFT = 32"
definition SP_BITS_PER_BYTE :: nat where "SP_BITS_PER_BYTE = 8"
definition WKB_POINT :: u32 where "WKB_POINT = 1"
definition WKB_LINESTRING :: u32 where "WKB_LINESTRING = 2"
definition WKB_POLYGON :: u32 where "WKB_POLYGON = 3"
definition WKB_MULTIPOINT :: u32 where "WKB_MULTIPOINT = 4"
definition WKB_MULTILINESTRING :: u32 where "WKB_MULTILINESTRING = 5"
definition WKB_MULTIPOLYGON :: u32 where "WKB_MULTIPOLYGON = 6"
definition WKB_GEOMETRYCOLLECTION :: u32 where "WKB_GEOMETRYCOLLECTION = 7"
definition WKB_MAX_POINTS :: u32 where "WKB_MAX_POINTS = 1000000"
definition WKB_MAX_RINGS :: u32 where "WKB_MAX_RINGS = 10000"
definition WKB_MAX_GEOMS :: u32 where "WKB_MAX_GEOMS = 100000"
definition WKB_MAX_RECURSION_DEPTH :: nat where "WKB_MAX_RECURSION_DEPTH = 32"
definition SRID_SIZE :: nat where "SRID_SIZE = 4"
definition WKB_HEADER_SIZE :: nat where "WKB_HEADER_SIZE = 5"
definition WKB_COUNT_SIZE :: nat where "WKB_COUNT_SIZE = 4"
definition POINT_DATA_SIZE :: nat where "POINT_DATA_SIZE = 16"
definition DOUBLE_SIZE :: nat where "DOUBLE_SIZE = 8"
definition DECOMP_BITS :: nat where "DECOMP_BITS = 8"
definition DECOMP_N :: nat where "DECOMP_N = 2 ^ DECOMP_BITS"
definition DECOMP_FULL_SCAN_THRESHOLD :: u64 where "DECOMP_FULL_SCAN_THRESHOLD = of_nat (DECOMP_N * 16)"

lemmas wkb_const = WKB_POINT_def WKB_LINESTRING_def WKB_POLYGON_def WKB_MULTIPOINT_def
  WKB_MULTILINESTRING_def WKB_MULTIPOLYGON_def WKB_GEOMETRYCOLLECTION_def WKB_MAX_POINTS_def
  WKB_MAX_RINGS_def WKB_MAX_GEOMS_def WKB_MAX_RECURSION_DEPTH_def SRID_SIZE_def WKB_HEADER_SIZE_def
  WKB_COUNT_SIZE_def POINT_DATA_SIZE_def DOUBLE_SIZE_def

section \<open>Doubles\<close>

type_synonym double = u64

definition d_mag :: "double \<Rightarrow> nat" where
  "d_mag v = unat (v AND 0x7FFFFFFFFFFFFFFF)"

definition d_isnan :: "double \<Rightarrow> bool" where
  "d_isnan v \<longleftrightarrow> 0x7FF0000000000000 < d_mag v"

definition d_isfinite :: "double \<Rightarrow> bool" where
  "d_isfinite v \<longleftrightarrow> d_mag v < 0x7FF0000000000000"

text \<open>Finite and infinite doubles are ordered as sign and magnitude.\<close>

definition d_rank :: "double \<Rightarrow> int" where
  "d_rank v = (if bit v 63 then - int (d_mag v) else int (d_mag v))"

definition d_lt :: "double \<Rightarrow> double \<Rightarrow> bool" where
  "d_lt a b \<longleftrightarrow> \<not> d_isnan a \<and> \<not> d_isnan b \<and> d_rank a < d_rank b"

definition d_le :: "double \<Rightarrow> double \<Rightarrow> bool" where
  "d_le a b \<longleftrightarrow> \<not> d_isnan a \<and> \<not> d_isnan b \<and> d_rank a \<le> d_rank b"

definition d_eq :: "double \<Rightarrow> double \<Rightarrow> bool" where
  "d_eq a b \<longleftrightarrow> \<not> d_isnan a \<and> \<not> d_isnan b \<and> d_rank a = d_rank b"

definition DBL_MAX :: double where "DBL_MAX = 0x7FEFFFFFFFFFFFFF"
definition NEG_DBL_MAX :: double where "NEG_DBL_MAX = 0xFFEFFFFFFFFFFFFF"

record mbr_t =
  xmin :: double
  ymin :: double
  xmax :: double
  ymax :: double

datatype predicate = p_intersect | p_contain | p_within | p_equal | p_disjoint | p_unsupported

section \<open>Coordinates and the curve\<close>

definition read_double :: "bytes \<Rightarrow> double" where
  "read_double p = le_dec DOUBLE_SIZE p"

definition write_double :: "double \<Rightarrow> bytes" where
  "write_double v = le_enc DOUBLE_SIZE v"

definition double_to_lex_uint32 :: "double \<Rightarrow> u32" where
  "double_to_lex_uint32 val =
     (let bits = (if val AND IEEE754_DOUBLE_SIGN_MASK \<noteq> 0 then NOT val
                  else val XOR IEEE754_DOUBLE_SIGN_MASK)
      in ucast (drop_bit LEX_UINT32_HI_SHIFT bits))"

definition hilbert_rot :: "u32 \<Rightarrow> u32 \<Rightarrow> u32 \<Rightarrow> u32 \<Rightarrow> u32 \<Rightarrow> u32 \<times> u32" where
  "hilbert_rot n x y rx ry =
     (if ry = 0 then
        (let (x1, y1) = (if rx = 1 then (n - 1 - x, n - 1 - y) else (x, y)) in (y1, x1))
      else (x, y))"

function hilbert_loop :: "u64 \<Rightarrow> u32 \<Rightarrow> u32 \<Rightarrow> u64 \<Rightarrow> u64" where
  "hilbert_loop s x y d =
     (if s = 0 then d
      else let rx = (if (ucast x :: u64) AND s > 0 then 1 else 0 :: u32);
               ry = (if (ucast y :: u64) AND s > 0 then 1 else 0 :: u32);
               d' = d + s * s * ucast ((3 * rx) XOR ry);
               xy = hilbert_rot (push_bit 1 (ucast s)) x y rx ry
        in hilbert_loop (drop_bit 1 s) (fst xy) (snd xy) d')"
  by pat_completeness auto
termination
proof (relation "measure (\<lambda>(s, x, y, d). unat s)")
  show "wf (measure (\<lambda>(s :: u64, x :: u32, y :: u32, d :: u64). unat s))"
    by simp
next
  fix s :: u64 and x y :: u32 and d rx ry d' xy
  assume "s \<noteq> 0"
  then have "unat (drop_bit 1 s) < unat s"
    by (simp add: unat_drop_bit) (metis div_less_dividend gr0I one_less_numeral_iff semiring_norm(76) unat_eq_zero)
  then show "((drop_bit 1 s, fst xy, snd xy, d'), s, x, y, d) \<in> measure (\<lambda>(s, x, y, d). unat s)"
    by simp
qed

declare hilbert_loop.simps [simp del]

definition hilbert_xy2d_64 :: "u32 \<Rightarrow> u32 \<Rightarrow> u64" where
  "hilbert_xy2d_64 x y = hilbert_loop (drop_bit 1 HILBERT_N) x y 0"

definition encode_hilbert_be :: "u64 \<Rightarrow> bytes" where
  "encode_hilbert_be h =
     map (\<lambda>i. ucast (drop_bit ((HILBERT_KEY_LEN - 1 - i) * SP_BITS_PER_BYTE) h)) [0..<HILBERT_KEY_LEN]"

definition decode_hilbert_be :: "bytes \<Rightarrow> u64" where
  "decode_hilbert_be inp =
     foldl (\<lambda>h i. push_bit SP_BITS_PER_BYTE h OR ucast (inp ! i)) 0 [0..<HILBERT_KEY_LEN]"

section \<open>The WKB walker\<close>

text \<open>Each reader returns its flag, the cursor as the unread range, and the rectangle so far.\<close>

definition grow_mbr :: "double \<Rightarrow> double \<Rightarrow> mbr_t \<Rightarrow> mbr_t" where
  "grow_mbr x y m =
     (let m1 = (if d_lt x (xmin m) then m\<lparr>xmin := x\<rparr> else m);
          m2 = (if d_lt (xmax m1) x then m1\<lparr>xmax := x\<rparr> else m1);
          m3 = (if d_lt y (ymin m2) then m2\<lparr>ymin := y\<rparr> else m2)
      in if d_lt (ymax m3) y then m3\<lparr>ymax := y\<rparr> else m3)"

definition wkb_read_point :: "bytes \<Rightarrow> mbr_t \<Rightarrow> bool \<times> bytes \<times> mbr_t" where
  "wkb_read_point p m =
     (if length p < POINT_DATA_SIZE then (False, p, m)
      else let x = read_double p;
               y = read_double (drop DOUBLE_SIZE p);
               p' = drop POINT_DATA_SIZE p
        in (True, p', if d_isfinite x \<and> d_isfinite y then grow_mbr x y m else m))"

fun wkb_read_points :: "nat \<Rightarrow> bytes \<Rightarrow> mbr_t \<Rightarrow> bool \<times> bytes \<times> mbr_t" where
  "wkb_read_points 0 p m = (True, p, m)"
| "wkb_read_points (Suc n) p m =
     (case wkb_read_point p m of (ok, p', m') \<Rightarrow>
        if \<not> ok then (False, p', m') else wkb_read_points n p' m')"

definition read_count :: "bytes \<Rightarrow> u32" where
  "read_count p = le_dec WKB_COUNT_SIZE p"

definition wkb_read_point_sequence :: "bytes \<Rightarrow> mbr_t \<Rightarrow> bool \<times> bytes \<times> mbr_t" where
  "wkb_read_point_sequence p m =
     (if length p < WKB_COUNT_SIZE then (False, p, m)
      else let n_pts = read_count p; p' = drop WKB_COUNT_SIZE p
        in if n_pts > WKB_MAX_POINTS then (False, p', m)
           else wkb_read_points (unat n_pts) p' m)"

fun wkb_read_rings :: "nat \<Rightarrow> bytes \<Rightarrow> mbr_t \<Rightarrow> bool \<times> bytes \<times> mbr_t" where
  "wkb_read_rings 0 p m = (True, p, m)"
| "wkb_read_rings (Suc n) p m =
     (case wkb_read_point_sequence p m of (ok, p', m') \<Rightarrow>
        if \<not> ok then (False, p', m') else wkb_read_rings n p' m')"

definition is_multi :: "u32 \<Rightarrow> bool" where
  "is_multi gt \<longleftrightarrow> gt = WKB_MULTIPOINT \<or> gt = WKB_MULTILINESTRING \<or> gt = WKB_MULTIPOLYGON
     \<or> gt = WKB_GEOMETRYCOLLECTION"

function wkb_parse_geometry :: "nat \<Rightarrow> bytes \<Rightarrow> mbr_t \<Rightarrow> bool \<times> bytes \<times> mbr_t"
  and wkb_parse_geoms :: "nat \<Rightarrow> nat \<Rightarrow> bytes \<Rightarrow> mbr_t \<Rightarrow> bool \<times> bytes \<times> mbr_t" where
  "wkb_parse_geometry depth p0 m =
     (if depth > WKB_MAX_RECURSION_DEPTH then (False, p0, m)
      else if length p0 < WKB_HEADER_SIZE then (False, p0, m)
      else let p1 = drop 1 p0; gt = read_count p1; p = drop WKB_COUNT_SIZE p1 in
        if gt = WKB_POINT then wkb_read_point p m
        else if gt = WKB_LINESTRING then wkb_read_point_sequence p m
        else if gt = WKB_POLYGON then
          (if length p < WKB_COUNT_SIZE then (False, p, m)
           else let n_rings = read_count p; p' = drop WKB_COUNT_SIZE p
             in if n_rings > WKB_MAX_RINGS then (False, p', m)
                else wkb_read_rings (unat n_rings) p' m)
        else if is_multi gt then
          (if length p < WKB_COUNT_SIZE then (False, p, m)
           else let n_geoms = read_count p; p' = drop WKB_COUNT_SIZE p
             in if n_geoms > WKB_MAX_GEOMS then (False, p', m)
                else wkb_parse_geoms (unat n_geoms) (depth + 1) p' m)
        else (False, p, m))"
| "wkb_parse_geoms n depth p m =
     (case n of
        0 \<Rightarrow> (True, p, m)
      | Suc k \<Rightarrow>
          (case wkb_parse_geometry depth p m of (ok, p', m') \<Rightarrow>
             if \<not> ok then (False, p', m') else wkb_parse_geoms k depth p' m'))"
  by pat_completeness auto
termination
  by (relation "measures [\<lambda>a. case a of Inl (d, p, m) \<Rightarrow> 34 - d | Inr (n, d, p, m) \<Rightarrow> 34 - d,
        \<lambda>a. case a of Inl (d, p, m) \<Rightarrow> 0 | Inr (n, d, p, m) \<Rightarrow> Suc n]")
    (auto simp: WKB_MAX_RECURSION_DEPTH_def)

declare wkb_parse_geometry.simps [simp del] wkb_parse_geoms.simps [simp del]

text \<open>The flag, and the rectangle the out parameter holds afterwards; a value too short to hold a
  geometry leaves it untouched.\<close>

definition compute_mbr :: "bytes \<Rightarrow> mbr_t \<Rightarrow> bool \<times> mbr_t" where
  "compute_mbr data out =
     (if length data < SRID_SIZE + WKB_HEADER_SIZE then (False, out)
      else let m0 = \<lparr>xmin = DBL_MAX, ymin = DBL_MAX, xmax = NEG_DBL_MAX, ymax = NEG_DBL_MAX\<rparr> in
        case wkb_parse_geometry 0 (drop SRID_SIZE data) m0 of (ok, p, m) \<Rightarrow>
          if \<not> ok then (False, m)
          else (d_le (xmin m) (xmax m) \<and> d_le (ymin m) (ymax m), m))"

section \<open>Keys, values and predicates\<close>

definition sp_build_key :: "double \<Rightarrow> double \<Rightarrow> bytes \<Rightarrow> bytes \<times> u32" where
  "sp_build_key cx cy pk =
     (let qx = double_to_lex_uint32 cx; qy = double_to_lex_uint32 cy; h = hilbert_xy2d_64 qx qy
      in (encode_hilbert_be h @ pk, of_nat HILBERT_KEY_LEN + of_nat (length pk)))"

definition build_value :: "mbr_t \<Rightarrow> bytes" where
  "build_value m = write_double (xmin m) @ write_double (ymin m) @ write_double (xmax m) @ write_double (ymax m)"

definition parse_query_mbr :: "bytes \<Rightarrow> mbr_t" where
  "parse_query_mbr key =
     (let a = read_double key;
          b = read_double (drop DOUBLE_SIZE key);
          c = read_double (drop (2 * DOUBLE_SIZE) key);
          d = read_double (drop (3 * DOUBLE_SIZE) key);
          (x0, x1) = (if d_lt b a then (b, a) else (a, b));
          (y0, y1) = (if d_lt d c then (d, c) else (c, d))
      in \<lparr>xmin = x0, ymin = y0, xmax = x1, ymax = y1\<rparr>)"

definition mbr_intersects :: "mbr_t \<Rightarrow> mbr_t \<Rightarrow> bool" where
  "mbr_intersects a b \<longleftrightarrow>
     \<not> (d_lt (xmax a) (xmin b) \<or> d_lt (xmax b) (xmin a) \<or> d_lt (ymax a) (ymin b) \<or> d_lt (ymax b) (ymin a))"

definition mbr_within :: "mbr_t \<Rightarrow> mbr_t \<Rightarrow> bool" where
  "mbr_within a b \<longleftrightarrow>
     d_le (xmin b) (xmin a) \<and> d_le (xmax a) (xmax b) \<and> d_le (ymin b) (ymin a) \<and> d_le (ymax a) (ymax b)"

definition mbr_equals :: "mbr_t \<Rightarrow> mbr_t \<Rightarrow> bool" where
  "mbr_equals a b \<longleftrightarrow>
     d_eq (xmin a) (xmin b) \<and> d_eq (xmax a) (xmax b) \<and> d_eq (ymin a) (ymin b) \<and> d_eq (ymax a) (ymax b)"

fun mbr_predicate :: "predicate \<Rightarrow> mbr_t \<Rightarrow> mbr_t \<Rightarrow> bool" where
  "mbr_predicate p_intersect query entry = mbr_intersects entry query"
| "mbr_predicate p_contain query entry = mbr_within entry query"
| "mbr_predicate p_within query entry = mbr_within entry query"
| "mbr_predicate p_equal query entry = mbr_equals entry query"
| "mbr_predicate p_disjoint query entry = (\<not> mbr_intersects entry query)"
| "mbr_predicate p_unsupported query entry = False"

section \<open>Decomposition of a query box\<close>

definition decomp_shift :: nat where "decomp_shift = HILBERT_ORDER - DECOMP_BITS"

definition cell_span :: u64 where "cell_span = push_bit (HILBERT_DIM * decomp_shift) 1"

definition cell_base :: "u32 \<Rightarrow> u32 \<Rightarrow> u64" where
  "cell_base gx gy =
     hilbert_xy2d_64 (push_bit decomp_shift gx) (push_bit decomp_shift gy) div cell_span * cell_span"

definition u32_range :: "u32 \<Rightarrow> u32 \<Rightarrow> u32 list" where
  "u32_range a b = map of_nat [unat a..<Suc (unat b)]"

fun merge_ranges :: "u64 \<Rightarrow> u64 \<Rightarrow> u64 list \<Rightarrow> (u64 \<times> u64) list" where
  "merge_ranges range_lo range_hi [] = [(range_lo, range_hi)]"
| "merge_ranges range_lo range_hi (lo # cells) =
     (let hi = lo + cell_span - 1 in
      if lo \<le> range_hi + 1
      then merge_ranges range_lo (if hi > range_hi then hi else range_hi) cells
      else (range_lo, range_hi) # merge_ranges lo hi cells)"

definition decompose_ranges :: "u32 \<Rightarrow> u32 \<Rightarrow> u32 \<Rightarrow> u32 \<Rightarrow> (u64 \<times> u64) list" where
  "decompose_ranges qx_min qy_min qx_max qy_max =
     (let gx0 = drop_bit decomp_shift qx_min; gy0 = drop_bit decomp_shift qy_min;
          gx1 = drop_bit decomp_shift qx_max; gy1 = drop_bit decomp_shift qy_max;
          cell_count = ucast (gx1 - gx0 + 1) * ucast (gy1 - gy0 + 1) :: u64
      in if cell_count > DECOMP_FULL_SCAN_THRESHOLD then [(RANGE_FULL_LO, RANGE_FULL_HI)]
         else let cells = sort (concat (map (\<lambda>gx. map (\<lambda>gy. cell_base gx gy) (u32_range gy0 gy1))
                                            (u32_range gx0 gx1)))
           in merge_ranges (hd cells) (hd cells + cell_span - 1) (tl cells))"

section \<open>The curve as a digit recursion on bits\<close>

definition hdigit :: "bool \<Rightarrow> bool \<Rightarrow> nat" where
  "hdigit rx ry = (if rx then (if ry then 2 else 3) else (if ry then 1 else 0))"

fun hrot :: "bool \<Rightarrow> bool \<Rightarrow> (nat \<Rightarrow> bool) \<times> (nat \<Rightarrow> bool) \<Rightarrow> (nat \<Rightarrow> bool) \<times> (nat \<Rightarrow> bool)" where
  "hrot rx ry (f, g) =
     (if ry then (f, g) else if rx then (\<lambda>j. \<not> g j, \<lambda>j. \<not> f j) else (g, f))"

primrec hdist :: "nat \<Rightarrow> (nat \<Rightarrow> bool) \<times> (nat \<Rightarrow> bool) \<Rightarrow> nat" where
  "hdist 0 fg = 0"
| "hdist (Suc k) fg =
     4 ^ k * hdigit (fst fg k) (snd fg k) + hdist k (hrot (fst fg k) (snd fg k) fg)"

definition agree :: "nat \<Rightarrow> nat \<Rightarrow> (nat \<Rightarrow> bool) \<times> (nat \<Rightarrow> bool) \<Rightarrow> (nat \<Rightarrow> bool) \<times> (nat \<Rightarrow> bool) \<Rightarrow> bool" where
  "agree lo hi a b \<longleftrightarrow> (\<forall>j. lo \<le> j \<and> j < hi \<longrightarrow> fst a j = fst b j \<and> snd a j = snd b j)"

lemma hdigit_less: "hdigit a b \<le> 3"
  by (simp add: hdigit_def)

lemma hdigit_inject: "hdigit a b = hdigit c d \<longleftrightarrow> a = c \<and> b = d"
  by (auto simp: hdigit_def)

lemma hdist_less: "hdist k fg < 4 ^ k"
proof (induction k arbitrary: fg)
  case (Suc k)
  have "4 ^ k * hdigit (fst fg k) (snd fg k) \<le> 4 ^ k * 3"
    by (rule mult_le_mono2) (rule hdigit_less)
  with Suc [of "hrot (fst fg k) (snd fg k) fg"]
  have "4 ^ k * hdigit (fst fg k) (snd fg k) + hdist k (hrot (fst fg k) (snd fg k) fg) < 4 ^ k * 3 + 4 ^ k"
    by (rule add_le_less_mono [rotated])
  then show ?case
    by simp
qed simp

lemma agree_hrot: "agree lo hi (hrot rx ry a) (hrot rx ry b) \<longleftrightarrow> agree lo hi a b"
  by (cases a; cases b) (auto simp: agree_def)

lemma agree_less: "agree lo (Suc k) a b \<Longrightarrow> agree lo k a b"
  by (simp add: agree_def)

lemma hdist_agree: "agree 0 k a b \<Longrightarrow> hdist k a = hdist k b"
proof (induction k arbitrary: a b)
  case (Suc k)
  then have "fst a k = fst b k" "snd a k = snd b k"
    by (auto simp: agree_def)
  with Suc show ?case
    by (simp add: agree_hrot agree_less)
qed simp

lemma hdist_inject: "hdist k a = hdist k b \<Longrightarrow> agree 0 k a b"
proof (induction k arbitrary: a b)
  case 0
  show ?case
    by (simp add: agree_def)
next
  case (Suc k)
  let ?a = "hrot (fst a k) (snd a k) a" and ?b = "hrot (fst b k) (snd b k) b"
  have d: "(4 ^ k * hdigit (fst c k) (snd c k) + hdist k e) div 4 ^ k = hdigit (fst c k) (snd c k)"
    "(4 ^ k * hdigit (fst c k) (snd c k) + hdist k e) mod 4 ^ k = hdist k e" for c e
    using hdist_less [of k e] by simp_all
  have "hdigit (fst a k) (snd a k) = hdigit (fst b k) (snd b k)" and rest: "hdist k ?a = hdist k ?b"
    using Suc.prems d [of a ?a] d [of b ?b] by (metis hdist.simps(2))+
  then have top: "fst a k = fst b k" "snd a k = snd b k"
    by (simp_all add: hdigit_inject)
  from Suc.IH [OF rest] have "agree 0 k a b"
    by (simp add: top agree_hrot)
  with top show ?case
    by (auto simp: agree_def less_Suc_eq)
qed

lemma pow4_div_split: "(4 ^ (n + b) * e + h) div 4 ^ b = 4 ^ n * e + h div (4 :: nat) ^ b"
proof -
  have "4 ^ (n + b) * e + h = h + (4 ^ n * e) * 4 ^ b"
    by (simp add: power_add algebra_simps)
  then show ?thesis
    by (simp only: div_mult_self1) (simp add: add.commute)
qed

text \<open>The distance divided by the size of a sub-square depends only on the bits above it.\<close>

lemma hdist_coarse: "agree b (n + b) x y \<Longrightarrow> hdist (n + b) x div 4 ^ b = hdist (n + b) y div 4 ^ b"
proof (induction n arbitrary: x y)
  case 0
  show ?case
    using hdist_less [of b x] hdist_less [of b y] by simp
next
  case (Suc n)
  have top: "fst x (n + b) = fst y (n + b)" "snd x (n + b) = snd y (n + b)"
    using Suc.prems by (auto simp: agree_def)
  have "agree b (n + b) (hrot (fst x (n + b)) (snd x (n + b)) x) (hrot (fst x (n + b)) (snd x (n + b)) y)"
    using Suc.prems by (simp add: agree_hrot agree_less)
  from Suc.IH [OF this] show ?case
    by (simp add: pow4_div_split top)
qed

lemma hdist_coarse_inject:
  "hdist (n + b) x div 4 ^ b = hdist (n + b) y div 4 ^ b \<Longrightarrow> agree b (n + b) x y"
proof (induction n arbitrary: x y)
  case 0
  show ?case
    by (auto simp: agree_def)
next
  case (Suc n)
  let ?x = "hrot (fst x (n + b)) (snd x (n + b)) x" and ?y = "hrot (fst y (n + b)) (snd y (n + b)) y"
  have less: "hdist (n + b) c div 4 ^ b < 4 ^ n" for c
    using hdist_less [of "n + b" c] by (simp add: power_add less_mult_imp_div_less)
  have d: "(4 ^ n * e + hdist (n + b) c div 4 ^ b) div 4 ^ n = e"
    "(4 ^ n * e + hdist (n + b) c div 4 ^ b) mod 4 ^ n = hdist (n + b) c div 4 ^ b" for c e
    using less [of c] by simp_all
  have eq: "4 ^ n * hdigit (fst x (n + b)) (snd x (n + b)) + hdist (n + b) ?x div 4 ^ b
      = 4 ^ n * hdigit (fst y (n + b)) (snd y (n + b)) + hdist (n + b) ?y div 4 ^ b"
    using Suc.prems by (simp add: pow4_div_split)
  then have "hdigit (fst x (n + b)) (snd x (n + b)) = hdigit (fst y (n + b)) (snd y (n + b))"
    and rest: "hdist (n + b) ?x div 4 ^ b = hdist (n + b) ?y div 4 ^ b"
    by (metis d(1)) (metis eq d(2))
  then have top: "fst x (n + b) = fst y (n + b)" "snd x (n + b) = snd y (n + b)"
    by (simp_all add: hdigit_inject)
  from Suc.IH [OF rest] have "agree b (n + b) x y"
    by (simp add: top agree_hrot)
  with top show ?case
    by (auto simp: agree_def less_Suc_eq)
qed

section \<open>The loop computes the digit recursion\<close>

definition bits_of :: "u32 \<Rightarrow> u32 \<Rightarrow> (nat \<Rightarrow> bool) \<times> (nat \<Rightarrow> bool)" where
  "bits_of x y = (bit x, bit y)"

lemma and_pow_pos: "k < 32 \<Longrightarrow> (ucast (x :: u32) :: u64) AND push_bit k 1 > 0 \<longleftrightarrow> bit x k"
proof -
  assume k: "k < 32"
  have "(ucast x :: u64) AND push_bit k 1 > 0 \<longleftrightarrow> bit (ucast x :: u64) k"
    by (simp only: word_neq_0_conv [symmetric] bit_iff_and_push_bit_not_eq_0)
  also have "\<dots> \<longleftrightarrow> bit x k"
    using k by (simp add: bit_simps)
  finally show ?thesis .
qed

lemma bit_reflect:
  assumes "j \<le> k" "k < 32"
  shows "bit (push_bit (Suc k) 1 - 1 - x :: u32) j \<longleftrightarrow> \<not> bit x j"
proof -
  have "push_bit (Suc k) 1 - 1 - x = (word_of_int (push_bit (Suc k) 1 + NOT (uint x)) :: u32)"
    by (simp add: not_eq_complement push_bit_eq_mult)
  then have "bit (push_bit (Suc k) 1 - 1 - x) j = bit (push_bit (Suc k) 1 + NOT (uint x) :: int) j"
    using assms by (simp only: bit_word_of_int_iff) simp
  also have "\<dots> = bit (take_bit (Suc k) (push_bit (Suc k) 1 + NOT (uint x))) j"
    using assms by (simp only: bit_take_bit_iff) simp
  also have "take_bit (Suc k) (push_bit (Suc k) 1 + NOT (uint x)) = take_bit (Suc k) (NOT (uint x))"
  proof -
    have "take_bit (Suc k) (push_bit (Suc k) 1 :: int) = 0"
      by (simp only: take_bit_push_bit) simp
    then show ?thesis
      by (metis add_0 take_bit_add take_bit_of_0)
  qed
  also have "bit (take_bit (Suc k) (NOT (uint x))) j = (\<not> bit x j)"
    using assms by (simp add: bit_take_bit_iff bit_not_iff bit_uint_iff)
  finally show ?thesis .
qed

lemma ucast_push_bit_1: "k < 32 \<Longrightarrow> push_bit 1 (ucast (push_bit k 1 :: u64) :: u32) = push_bit (Suc k) 1"
  by (rule bit_word_eqI)
    (unfold bit_push_bit_iff bit_unsigned_iff bit_1_iff possible_bit_word, auto)

lemma hilbert_rot_bits:
  assumes "k < 32" "hilbert_rot (push_bit 1 (ucast (push_bit k 1 :: u64))) x y
      (if bit x k then 1 else 0) (if bit y k then 1 else 0) = (x', y')"
  shows "agree 0 k (bits_of x' y') (hrot (bit x k) (bit y k) (bits_of x y))"
  using assms(2) bit_reflect [of _ k x] bit_reflect [of _ k y] assms(1)
  unfolding ucast_push_bit_1 [OF assms(1)]
  by (auto simp: hilbert_rot_def agree_def bits_of_def split: if_splits)

lemma unat_pow2: "n < 64 \<Longrightarrow> unat (2 ^ n :: u64) = 2 ^ n"
proof -
  assume "n < 64"
  then have "(2 :: nat) ^ n < 2 ^ 64"
    by (rule power_strict_increasing) simp
  then show ?thesis
    using unat_of_nat [of "2 ^ n", where ?'a = 64] by (simp only: of_nat_power of_nat_numeral) simp
qed

lemma unat_pow_sq: "k < 32 \<Longrightarrow> unat (push_bit k 1 * push_bit k 1 :: u64) = 4 ^ k"
proof -
  assume k: "k < 32"
  have "push_bit k 1 * push_bit k 1 = (2 ^ (2 * k) :: u64)"
    by (simp add: push_bit_eq_mult power_add mult_2)
  then show ?thesis
    using k unat_pow2 [of "2 * k"] by (simp add: power_mult)
qed

lemma hdigit_word:
  "unat (ucast ((3 * (if rx then 1 else 0)) XOR (if ry then 1 else 0) :: u32) :: u64) = hdigit rx ry"
  by (auto simp: hdigit_def)

lemma drop_pow: "drop_bit 1 (push_bit (Suc k) 1 :: u64) = (if k < 63 then push_bit k 1 else 0)"
  by (rule bit_word_eqI)
    (unfold bit_drop_bit_eq bit_push_bit_iff bit_1_iff possible_bit_word comp_def, auto simp: bit_simps)

lemma unat_add_mult:
  "unat a = A \<Longrightarrow> unat b = B \<Longrightarrow> unat d + A * B < 2 ^ 64 \<Longrightarrow> unat (d + a * b :: u64) = unat d + A * B"
  by (simp add: unat_word_ariths)

lemma hilbert_loop_step:
  assumes "k < 32" "unat d + 4 ^ Suc k \<le> 2 ^ 64"
  obtains x' y' d' where
    "hilbert_loop (push_bit k 1) x y d = hilbert_loop (drop_bit 1 (push_bit k 1)) x' y' d'"
    "agree 0 k (bits_of x' y') (hrot (bit x k) (bit y k) (bits_of x y))"
    "unat d' = unat d + 4 ^ k * hdigit (bit x k) (bit y k)"
proof -
  define rx ry where "rx = (if bit x k then 1 else 0 :: u32)" and "ry = (if bit y k then 1 else 0 :: u32)"
  define d' :: u64 where "d' = d + push_bit k 1 * push_bit k 1 * ucast ((3 * rx) XOR ry)"
  obtain x' y' where xy: "hilbert_rot (push_bit 1 (ucast (push_bit k 1 :: u64))) x y rx ry = (x', y')"
    by (metis surj_pair)
  have nz: "(push_bit k 1 :: u64) \<noteq> 0"
    using unat_pow_sq [OF assms(1)] by (metis mult_zero_left power_not_zero unat_0 zero_neq_numeral)
  have "hilbert_loop (push_bit k 1) x y d = hilbert_loop (drop_bit 1 (push_bit k 1)) x' y' d'"
    using nz xy by (subst hilbert_loop.simps)
      (simp only: Let_def and_pow_pos [OF assms(1)] rx_def [symmetric] ry_def [symmetric] d'_def fst_conv snd_conv if_False)
  moreover have "agree 0 k (bits_of x' y') (hrot (bit x k) (bit y k) (bits_of x y))"
    using hilbert_rot_bits [OF assms(1)] xy by (simp add: rx_def ry_def)
  moreover have "unat d' = unat d + 4 ^ k * hdigit (bit x k) (bit y k)"
  proof -
    have "4 ^ k * hdigit (bit x k) (bit y k) \<le> 4 ^ k * 3"
      by (rule mult_le_mono2) (rule hdigit_less)
    moreover have "(0 :: nat) < 4 ^ k"
      by simp
    ultimately have b: "unat d + 4 ^ k * hdigit (bit x k) (bit y k) < 2 ^ 64"
      using assms(2) unfolding power_Suc by linarith
    show ?thesis
      unfolding d'_def rx_def ry_def
      by (rule unat_add_mult [OF unat_pow_sq [OF assms(1)] hdigit_word b])
  qed
  ultimately show ?thesis
    by (rule that)
qed

lemma hilbert_loop_hdist:
  assumes "k < 32" "unat d + 4 ^ Suc k \<le> 2 ^ 64"
  shows "unat (hilbert_loop (push_bit k 1) x y d) = unat d + hdist (Suc k) (bits_of x y)"
  using assms
proof (induction k arbitrary: x y d)
  case 0
  from hilbert_loop_step [OF 0] obtain x' y' d' where s:
    "hilbert_loop (push_bit 0 1) x y d = hilbert_loop (drop_bit 1 (push_bit 0 1)) x' y' d'"
    "unat d' = unat d + 4 ^ 0 * hdigit (bit x 0) (bit y 0)" .
  then show ?case
    by (simp add: hilbert_loop.simps [of 0] bits_of_def)
next
  case (Suc k)
  from hilbert_loop_step [OF Suc.prems] obtain x' y' d' where s:
    "hilbert_loop (push_bit (Suc k) 1) x y d = hilbert_loop (drop_bit 1 (push_bit (Suc k) 1)) x' y' d'"
    "agree 0 (Suc k) (bits_of x' y') (hrot (bit x (Suc k)) (bit y (Suc k)) (bits_of x y))"
    "unat d' = unat d + 4 ^ Suc k * hdigit (bit x (Suc k)) (bit y (Suc k))" .
  have "4 ^ Suc k * hdigit (bit x (Suc k)) (bit y (Suc k)) \<le> 4 ^ Suc k * 3"
    by (rule mult_le_mono2) (rule hdigit_less)
  then have "unat d' + 4 ^ Suc k \<le> 2 ^ 64"
    using Suc.prems(2) s(3) by (simp only: power_Suc [of 4 "Suc k"])
  then have "unat (hilbert_loop (push_bit k 1) x' y' d') = unat d' + hdist (Suc k) (bits_of x' y')"
    using Suc.IH Suc.prems(1) by simp
  moreover have "hdist (Suc k) (bits_of x' y') = hdist (Suc k) (hrot (bit x (Suc k)) (bit y (Suc k)) (bits_of x y))"
    by (rule hdist_agree) (rule s(2))
  moreover have "hdist (Suc (Suc k)) (bits_of x y) = 4 ^ Suc k * hdigit (bit x (Suc k)) (bit y (Suc k))
      + hdist (Suc k) (hrot (bit x (Suc k)) (bit y (Suc k)) (bits_of x y))"
    unfolding hdist.simps(2) [of "Suc k"] by (simp add: bits_of_def del: hdist.simps)
  ultimately show ?case
    using s(1,3) Suc.prems(1) drop_pow [of k] by (simp del: hdist.simps)
qed

lemma unat_hilbert: "unat (hilbert_xy2d_64 x y) = hdist 32 (bits_of x y)"
proof -
  have "drop_bit 1 HILBERT_N = push_bit 31 1"
    unfolding HILBERT_N_def HILBERT_ORDER_def using drop_pow [of 31] by simp
  then show ?thesis
    using hilbert_loop_hdist [of 31 0 x y] by (simp add: hilbert_xy2d_64_def)
qed

lemma bits_of_agree: "agree 0 32 (bits_of x y) (bits_of x' y') \<longleftrightarrow> x = x' \<and> y = y'"
  by (auto simp: agree_def bits_of_def intro!: bit_word_eqI)

lemma hilbert_inject: "hilbert_xy2d_64 x y = hilbert_xy2d_64 x' y' \<longleftrightarrow> x = x' \<and> y = y'"
  using hdist_inject [of 32 "bits_of x y" "bits_of x' y'"]
  by (metis unat_hilbert bits_of_agree)

lemma hilbert_bij: "bij (\<lambda>(x, y). hilbert_xy2d_64 x y)"
proof -
  have inj: "inj (\<lambda>(x, y). hilbert_xy2d_64 x y)"
    by (auto simp: inj_on_def hilbert_inject)
  have "card (range (\<lambda>(x, y). hilbert_xy2d_64 x y)) = card (UNIV :: u64 set)"
    using inj by (simp add: card_image card_word card_cartesian_product flip: UNIV_Times_UNIV)
  then have "range (\<lambda>(x, y). hilbert_xy2d_64 x y) = UNIV"
    by (intro card_subset_eq) simp_all
  with inj show ?thesis
    by (simp add: bij_def)
qed

section \<open>Coarse cells\<close>

lemma decomp_shift_eq: "decomp_shift = 24"
  by (simp add: decomp_shift_def HILBERT_ORDER_def DECOMP_BITS_def)

lemma unat_cell_span: "unat cell_span = 4 ^ 24"
  by (simp add: cell_span_def decomp_shift_eq HILBERT_DIM_def)

definition aligned :: "u64 \<Rightarrow> bool" where
  "aligned c \<longleftrightarrow> 4 ^ 24 dvd unat c"

lemma unat_cell_last:
  assumes "aligned c"
  shows "unat (c + cell_span - 1) = unat c + (4 ^ 24 - 1)"
proof -
  obtain q where q: "unat c = 4 ^ 24 * q"
    using assms by (auto simp: aligned_def dvd_def)
  have "4 ^ 24 * q < (2 :: nat) ^ 64"
    using q unsigned_less [of c, where ?'a = nat] by simp
  then have "q < 65536"
    by simp
  then have "unat c + (4 ^ 24 - 1) < 2 ^ 64"
    using q by simp
  moreover have "c + cell_span - 1 = c + (cell_span - 1)"
    by simp
  moreover have "unat (cell_span - 1) = 4 ^ 24 - 1"
    by (simp add: cell_span_def decomp_shift_eq HILBERT_DIM_def)
  ultimately show ?thesis
    by (simp only: unat_word_ariths) simp
qed

definition in_cell :: "u64 \<Rightarrow> u64 \<Rightarrow> bool" where
  "in_cell c h \<longleftrightarrow> c \<le> h \<and> h \<le> c + cell_span - 1"

lemma in_cell_div:
  assumes "aligned c"
  shows "in_cell c h \<longleftrightarrow> unat h div 4 ^ 24 = unat c div 4 ^ 24"
proof -
  obtain q where q: "unat c = 4 ^ 24 * q"
    using assms by (auto simp: aligned_def dvd_def)
  have "in_cell c h \<longleftrightarrow> 4 ^ 24 * q \<le> unat h \<and> unat h \<le> 4 ^ 24 * q + (4 ^ 24 - 1)"
    by (simp only: in_cell_def word_le_nat_alt unat_cell_last [OF assms] q)
  also have "\<dots> \<longleftrightarrow> unat h div 4 ^ 24 = q"
    by auto
  finally show ?thesis
    by (simp add: q)
qed

lemma aligned_cell_base: "aligned (cell_base gx gy)"
  and unat_cell_base: "unat (cell_base gx gy) div 4 ^ 24 =
    unat (hilbert_xy2d_64 (push_bit 24 gx) (push_bit 24 gy)) div 4 ^ 24"
proof -
  define h where "h = hilbert_xy2d_64 (push_bit 24 gx) (push_bit 24 gy)"
  have "unat h div 4 ^ 24 * 4 ^ 24 \<le> unat h"
    by (rule div_times_less_eq_dividend)
  then have "unat h div 4 ^ 24 * 4 ^ 24 < 2 ^ 64"
    using unsigned_less [of h, where ?'a = nat] by simp
  then have "unat (cell_base gx gy) = unat h div 4 ^ 24 * 4 ^ 24"
    unfolding cell_base_def decomp_shift_eq h_def [symmetric]
    by (simp only: unat_word_ariths unat_div unat_cell_span) simp
  then show "aligned (cell_base gx gy)"
    "unat (cell_base gx gy) div 4 ^ 24 =
      unat (hilbert_xy2d_64 (push_bit 24 gx) (push_bit 24 gy)) div 4 ^ 24"
    by (simp_all add: aligned_def h_def)
qed

lemma agree_coarse:
  "agree 24 32 (bits_of (push_bit 24 (drop_bit 24 x)) (push_bit 24 (drop_bit 24 y))) (bits_of x y)"
  by (auto simp: agree_def bits_of_def bit_push_bit_iff bit_drop_bit_eq simp del: push_bit_numeral)

lemma cell_index:
  "unat (cell_base (drop_bit 24 x) (drop_bit 24 y)) div 4 ^ 24 = unat (hilbert_xy2d_64 x y) div 4 ^ 24"
  using hdist_coarse [of 24 8 "bits_of (push_bit 24 (drop_bit 24 x)) (push_bit 24 (drop_bit 24 y))" "bits_of x y"]
    agree_coarse [of x y]
  by (simp only: unat_cell_base unat_hilbert) simp

lemma point_in_own_cell: "in_cell (cell_base (drop_bit 24 x) (drop_bit 24 y)) (hilbert_xy2d_64 x y)"
  by (simp only: in_cell_div [OF aligned_cell_base] cell_index)

text \<open>Conversely a point on the curve lies in the interval of a cell only if it lies in the cell.\<close>

lemma in_cell_point:
  assumes "in_cell (cell_base gx gy) (hilbert_xy2d_64 x y)" "gx < 256" "gy < 256"
  shows "gx = drop_bit 24 x" "gy = drop_bit 24 y"
proof -
  have "unat (hilbert_xy2d_64 x y) div 4 ^ 24 = unat (hilbert_xy2d_64 (push_bit 24 gx) (push_bit 24 gy)) div 4 ^ 24"
    using assms(1) by (simp only: in_cell_div [OF aligned_cell_base] unat_cell_base)
  then have "hdist (8 + 24) (bits_of x y) div 4 ^ 24 =
      hdist (8 + 24) (bits_of (push_bit 24 gx) (push_bit 24 gy)) div 4 ^ 24"
    by (simp add: unat_hilbert)
  then have a: "agree 24 (8 + 24) (bits_of x y) (bits_of (push_bit 24 gx) (push_bit 24 gy))"
    by (rule hdist_coarse_inject)
  have small: "\<not> bit g j" if "g < 256" "8 \<le> j" for g :: u32 and j
  proof -
    have "g = take_bit 8 g"
      using that(1) by (simp add: word_less_nat_alt word_unat_eq_iff take_bit_eq_mod unat_mod)
    then show ?thesis
      using that(2) by (metis bit_take_bit_iff not_less)
  qed
  have same: "bit g j = bit (drop_bit 24 z) j"
    if "\<forall>i. 24 \<le> i \<and> i < 32 \<longrightarrow> bit z i = bit (push_bit 24 g) i" "g < 256" for g z :: u32 and j
  proof (cases "j < 8")
    case True
    then have "bit (drop_bit 24 z) j = bit (push_bit 24 g) (24 + j)"
      using that(1) by (simp add: bit_drop_bit_eq)
    also have "\<dots> = bit g j"
      using True by (simp add: bit_push_bit_iff del: push_bit_numeral)
    finally show ?thesis
      by simp
  next
    case False
    then show ?thesis
      using small [OF that(2), of j] by (auto simp: bit_drop_bit_eq dest: bit_imp_le_length)
  qed
  have "\<forall>i. 24 \<le> i \<and> i < 32 \<longrightarrow> bit x i = bit (push_bit 24 gx) i"
    "\<forall>i. 24 \<le> i \<and> i < 32 \<longrightarrow> bit y i = bit (push_bit 24 gy) i"
    using a unfolding agree_def bits_of_def by simp_all
  from same [OF this(1) assms(2)] same [OF this(2) assms(3)]
  show "gx = drop_bit 24 x" "gy = drop_bit 24 y"
    by (simp_all add: bit_eq_iff)
qed

section \<open>Merging\<close>

definition covered :: "(u64 \<times> u64) list \<Rightarrow> u64 \<Rightarrow> bool" where
  "covered rs h \<longleftrightarrow> list_ex (\<lambda>(lo, hi). lo \<le> h \<and> h \<le> hi) rs"

definition separated :: "(u64 \<times> u64) list \<Rightarrow> bool" where
  "separated rs \<longleftrightarrow> list_all (\<lambda>(lo, hi). lo \<le> hi) rs \<and>
     sorted_wrt (\<lambda>(_, hi) (lo, _). unat hi + 1 < unat lo) rs"

lemma aligned_next:
  assumes "aligned a" "aligned b" "a < b"
  shows "unat (a + cell_span - 1) < unat b"
proof -
  obtain p q where pq: "unat a = 4 ^ 24 * p" "unat b = 4 ^ 24 * q"
    using assms(1,2) by (auto simp: aligned_def dvd_def)
  then have "p < q"
    using assms(3) by (simp add: word_less_nat_alt)
  then have "4 ^ 24 * Suc p \<le> (4 :: nat) ^ 24 * q"
    by (intro mult_le_mono2) simp
  then show ?thesis
    by (simp only: unat_cell_last [OF assms(1)] pq) simp
qed

lemma merge_ranges_correct:
  assumes "sorted_wrt (<) cells" "\<forall>c\<in>set cells. aligned c \<and> unat range_hi < unat c" "range_lo \<le> range_hi"
  shows "(\<forall>h. covered (merge_ranges range_lo range_hi cells) h \<longleftrightarrow>
      (range_lo \<le> h \<and> h \<le> range_hi) \<or> (\<exists>c\<in>set cells. in_cell c h)) \<and>
    separated (merge_ranges range_lo range_hi cells) \<and>
    (\<forall>r\<in>set (merge_ranges range_lo range_hi cells). range_lo \<le> fst r)"
  using assms
proof (induction range_lo range_hi cells rule: merge_ranges.induct)
  case (1 range_lo range_hi)
  then show ?case
    by (simp add: covered_def separated_def)
next
  case (2 range_lo range_hi lo cells)
  define hi where "hi = lo + cell_span - 1"
  have al: "aligned lo" and gt: "unat range_hi < unat lo"
    using "2.prems"(2) by auto
  have le: "lo \<le> hi"
    using unat_cell_last [OF al] by (simp add: hi_def word_le_nat_alt)
  have next_gt: "\<forall>c\<in>set cells. aligned c \<and> unat hi < unat c"
    using "2.prems"(1,2) aligned_next [OF al] by (auto simp: hi_def)
  have srt: "sorted_wrt (<) cells"
    using "2.prems"(1) by simp
  have suc: "unat (range_hi + 1) = unat range_hi + 1"
    using gt unsigned_less [of lo, where ?'a = nat] by (simp add: unat_word_ariths)
  show ?case
  proof (cases "lo \<le> range_hi + 1")
    case True
    then have adj: "unat lo = unat range_hi + 1"
      using gt suc by (simp add: word_le_nat_alt)
    have hi: "range_hi < hi" and lo: "range_lo \<le> hi"
      using le gt "2.prems"(3) by (auto simp: word_less_nat_alt word_le_nat_alt)
    have "(range_lo \<le> h \<and> h \<le> hi) \<longleftrightarrow> (range_lo \<le> h \<and> h \<le> range_hi) \<or> in_cell lo h" for h
      using adj hi lo "2.prems"(3) unfolding in_cell_def hi_def [symmetric]
      by (auto simp: word_less_nat_alt word_le_nat_alt)
    moreover have "merge_ranges range_lo range_hi (lo # cells) = merge_ranges range_lo hi cells"
      using True hi by (simp add: Let_def flip: hi_def)
    ultimately show ?thesis
      using "2.IH"(1) [OF hi_def True srt] next_gt lo hi by auto
  next
    case False
    then have gap: "unat range_hi + 1 < unat lo"
      using suc by (simp add: word_le_nat_alt)
    note IH = "2.IH"(2) [OF hi_def False srt next_gt le]
    have eq: "merge_ranges range_lo range_hi (lo # cells) = (range_lo, range_hi) # merge_ranges lo hi cells"
      using False by (simp add: Let_def flip: hi_def)
    have "range_lo \<le> lo"
      using "2.prems"(3) gt by (auto simp: word_less_nat_alt word_le_nat_alt)
    moreover have "unat range_hi + 1 < unat (fst r)" if "r \<in> set (merge_ranges lo hi cells)" for r
      using IH gap that by (fastforce simp: word_le_nat_alt)
    ultimately show ?thesis
      unfolding eq using IH "2.prems"(3)
      by (auto simp: covered_def separated_def in_cell_def hi_def intro: order_trans)
  qed
qed

section \<open>The decomposition\<close>

lemma set_u32_range: "set (u32_range a b) = {g. a \<le> g \<and> g \<le> b}"
proof (intro set_eqI iffI)
  fix g
  assume "g \<in> set (u32_range a b)"
  then obtain n where n: "unat a \<le> n" "n \<le> unat b" "g = of_nat n"
    by (auto simp: u32_range_def)
  then have "unat g = n"
    using unsigned_less [of b, where ?'a = nat] by (simp add: unat_of_nat)
  with n show "g \<in> {g. a \<le> g \<and> g \<le> b}"
    by (simp add: word_le_nat_alt)
next
  fix g
  assume "g \<in> {g. a \<le> g \<and> g \<le> b}"
  then have "unat g \<in> {unat a..<Suc (unat b)}" "g = of_nat (unat g)"
    by (auto simp: word_le_nat_alt)
  then show "g \<in> set (u32_range a b)"
    unfolding u32_range_def by (metis atLeastLessThan_upt image_eqI list.set_map set_upt)
qed

lemma distinct_u32_range: "distinct (u32_range a b)"
proof -
  have "inj_on (of_nat :: nat \<Rightarrow> u32) {unat a..<Suc (unat b)}"
  proof (rule inj_onI)
    fix m n
    assume "m \<in> {unat a..<Suc (unat b)}" "n \<in> {unat a..<Suc (unat b)}" "(of_nat m :: u32) = of_nat n"
    then show "m = n"
      using unsigned_less [of b, where ?'a = nat] by (auto simp: word_unat_eq_iff unat_of_nat)
  qed
  then show ?thesis
    unfolding u32_range_def distinct_map set_upt by simp
qed

lemma drop_coarse_less: "drop_bit 24 (x :: u32) < 256"
  using unsigned_less [of x, where ?'a = nat]
  by (simp add: word_less_nat_alt unat_drop_bit less_mult_imp_div_less)

lemma drop_push_coarse: "g < 256 \<Longrightarrow> drop_bit 24 (push_bit 24 g :: u32) = g"
proof -
  assume g: "g < 256"
  then have "unat g * 2 ^ 24 < 2 ^ 32"
    by (simp add: word_less_nat_alt)
  then show ?thesis
    by (simp only: word_unat_eq_iff unat_drop_bit unat_push_bit) simp
qed

lemma cell_base_inject:
  assumes "gx < 256" "gy < 256" "gx' < 256" "gy' < 256" "cell_base gx gy = cell_base gx' gy'"
  shows "gx = gx' \<and> gy = gy'"
proof -
  have "in_cell (cell_base gx gy) (hilbert_xy2d_64 (push_bit 24 gx) (push_bit 24 gy))"
    using point_in_own_cell [of "push_bit 24 gx" "push_bit 24 gy"]
    by (simp only: drop_push_coarse [OF assms(1)] drop_push_coarse [OF assms(2)])
  then have "in_cell (cell_base gx' gy') (hilbert_xy2d_64 (push_bit 24 gx) (push_bit 24 gy))"
    by (simp only: assms(5))
  from in_cell_point [OF this assms(3,4)] show ?thesis
    by (simp only: drop_push_coarse [OF assms(1)] drop_push_coarse [OF assms(2)])
qed

definition box_cells :: "u32 \<Rightarrow> u32 \<Rightarrow> u32 \<Rightarrow> u32 \<Rightarrow> u64 list" where
  "box_cells gx0 gy0 gx1 gy1 =
     concat (map (\<lambda>gx. map (\<lambda>gy. cell_base gx gy) (u32_range gy0 gy1)) (u32_range gx0 gx1))"

lemma set_box_cells:
  "c \<in> set (box_cells gx0 gy0 gx1 gy1) \<longleftrightarrow>
     (\<exists>gx gy. gx0 \<le> gx \<and> gx \<le> gx1 \<and> gy0 \<le> gy \<and> gy \<le> gy1 \<and> c = cell_base gx gy)"
  by (auto simp: box_cells_def set_u32_range)

lemma distinct_box_cells:
  assumes "gx1 < 256" "gy1 < 256"
  shows "distinct (box_cells gx0 gy0 gx1 gy1)"
proof -
  have small: "gx < 256" "gy < 256" if "gx \<in> set (u32_range gx0 gx1)" "gy \<in> set (u32_range gy0 gy1)" for gx gy
    using that assms by (auto simp: set_u32_range)
  have eq: "box_cells gx0 gy0 gx1 gy1 =
      map (\<lambda>(gx, gy). cell_base gx gy) (List.product (u32_range gx0 gx1) (u32_range gy0 gy1))"
    by (simp add: box_cells_def product_concat_map map_concat comp_def)
  have "inj_on (\<lambda>(gx, gy). cell_base gx gy) (set (u32_range gx0 gx1) \<times> set (u32_range gy0 gy1))"
  proof (rule inj_onI, clarify)
    fix x y x' y'
    assume "x \<in> set (u32_range gx0 gx1)" "y \<in> set (u32_range gy0 gy1)"
      "x' \<in> set (u32_range gx0 gx1)" "y' \<in> set (u32_range gy0 gy1)" "cell_base x y = cell_base x' y'"
    then show "x = x' \<and> y = y'"
      using small [of x y] small [of x' y'] by (intro cell_base_inject)
  qed
  then show ?thesis
    unfolding eq by (simp add: distinct_map distinct_product distinct_u32_range)
qed

lemma box_ranges:
  assumes "gx0 \<le> gx1" "gy0 \<le> gy1" "gx1 < 256" "gy1 < 256"
  defines "cells \<equiv> sort (box_cells gx0 gy0 gx1 gy1)"
  shows "covered (merge_ranges (hd cells) (hd cells + cell_span - 1) (tl cells)) h \<longleftrightarrow>
      (\<exists>c\<in>set (box_cells gx0 gy0 gx1 gy1). in_cell c h)"
    and "separated (merge_ranges (hd cells) (hd cells + cell_span - 1) (tl cells))"
proof -
  have "cell_base gx0 gy0 \<in> set cells"
    using assms(1,2) unfolding cells_def set_sort set_box_cells by blast
  then obtain c0 cs where c: "cells = c0 # cs"
    by (cases cells) auto
  have sorted: "sorted_wrt (<) (c0 # cs)"
    unfolding c [symmetric] cells_def
    by (simp add: strict_sorted_iff distinct_box_cells [OF assms(3,4)])
  have al: "aligned c" if "c \<in> set (c0 # cs)" for c
    using that unfolding c [symmetric] cells_def set_sort set_box_cells by (auto simp: aligned_cell_base)
  have le: "c0 \<le> c0 + cell_span - 1"
    using unat_cell_last [of c0] al by (simp add: word_le_nat_alt)
  have "\<forall>c\<in>set cs. aligned c \<and> unat (c0 + cell_span - 1) < unat c"
    using sorted al aligned_next by auto
  from merge_ranges_correct [OF _ this le] sorted
  have m: "\<forall>h. covered (merge_ranges c0 (c0 + cell_span - 1) cs) h \<longleftrightarrow>
      (c0 \<le> h \<and> h \<le> c0 + cell_span - 1) \<or> (\<exists>c\<in>set cs. in_cell c h)"
    "separated (merge_ranges c0 (c0 + cell_span - 1) cs)"
    by auto
  have "set (box_cells gx0 gy0 gx1 gy1) = set (c0 # cs)"
    unfolding c [symmetric] cells_def by simp
  with m show "covered (merge_ranges (hd cells) (hd cells + cell_span - 1) (tl cells)) h \<longleftrightarrow>
      (\<exists>c\<in>set (box_cells gx0 gy0 gx1 gy1). in_cell c h)"
    "separated (merge_ranges (hd cells) (hd cells + cell_span - 1) (tl cells))"
    by (auto simp: c in_cell_def)
qed

definition coarse :: "u32 \<Rightarrow> u32" where
  "coarse x = drop_bit 24 x"

definition wide_box :: "u32 \<Rightarrow> u32 \<Rightarrow> u32 \<Rightarrow> u32 \<Rightarrow> bool" where
  "wide_box qx_min qy_min qx_max qy_max \<longleftrightarrow>
     ucast (coarse qx_max - coarse qx_min + 1) * (ucast (coarse qy_max - coarse qy_min + 1) :: u64)
       > DECOMP_FULL_SCAN_THRESHOLD"

lemma coarse_mono: "a \<le> b \<Longrightarrow> coarse a \<le> coarse b"
  by (simp add: coarse_def word_le_nat_alt unat_drop_bit div_le_mono)

lemma decompose_narrow:
  "\<not> wide_box qx_min qy_min qx_max qy_max \<Longrightarrow>
   decompose_ranges qx_min qy_min qx_max qy_max =
     (let cells = sort (box_cells (coarse qx_min) (coarse qy_min) (coarse qx_max) (coarse qy_max))
      in merge_ranges (hd cells) (hd cells + cell_span - 1) (tl cells))"
  by (simp add: decompose_ranges_def wide_box_def coarse_def decomp_shift_eq box_cells_def Let_def)

lemma decompose_wide:
  "wide_box qx_min qy_min qx_max qy_max \<Longrightarrow>
   decompose_ranges qx_min qy_min qx_max qy_max = [(RANGE_FULL_LO, RANGE_FULL_HI)]"
  by (simp add: decompose_ranges_def wide_box_def coarse_def decomp_shift_eq Let_def)

lemma range_full: "covered [(RANGE_FULL_LO, RANGE_FULL_HI)] h" "separated [(RANGE_FULL_LO, RANGE_FULL_HI)]"
proof -
  have "h \<le> RANGE_FULL_HI" for h
    using unsigned_less [of h, where ?'a = nat] by (simp add: word_le_nat_alt RANGE_FULL_HI_def)
  then show "covered [(RANGE_FULL_LO, RANGE_FULL_HI)] h" "separated [(RANGE_FULL_LO, RANGE_FULL_HI)]"
    by (simp_all add: covered_def separated_def RANGE_FULL_LO_def)
qed

lemma decompose_separated:
  assumes "qx_min \<le> qx_max" "qy_min \<le> qy_max"
  shows "separated (decompose_ranges qx_min qy_min qx_max qy_max)"
proof (cases "wide_box qx_min qy_min qx_max qy_max")
  case True
  then show ?thesis
    by (simp only: decompose_wide range_full)
next
  case False
  then show ?thesis
    unfolding decompose_narrow [OF False] Let_def
    using assms by (intro box_ranges(2)) (simp_all add: coarse_mono, simp_all add: coarse_def drop_coarse_less)
qed

lemma decompose_covered:
  assumes "qx_min \<le> qx_max" "qy_min \<le> qy_max"
  shows "covered (decompose_ranges qx_min qy_min qx_max qy_max) (hilbert_xy2d_64 x y) \<longleftrightarrow>
    wide_box qx_min qy_min qx_max qy_max \<or>
    (coarse qx_min \<le> coarse x \<and> coarse x \<le> coarse qx_max \<and> coarse qy_min \<le> coarse y \<and> coarse y \<le> coarse qy_max)"
proof (cases "wide_box qx_min qy_min qx_max qy_max")
  case True
  then show ?thesis
    by (simp add: decompose_wide range_full)
next
  case False
  have small: "coarse z < 256" for z
    by (simp only: coarse_def drop_coarse_less)
  have own: "gx = coarse x \<and> gy = coarse y"
    if "gx \<le> coarse qx_max" "gy \<le> coarse qy_max" "in_cell (cell_base gx gy) (hilbert_xy2d_64 x y)" for gx gy
    using in_cell_point [OF that(3) le_less_trans [OF that(1) small] le_less_trans [OF that(2) small]]
    by (simp only: coarse_def)
  have "covered (decompose_ranges qx_min qy_min qx_max qy_max) (hilbert_xy2d_64 x y) \<longleftrightarrow>
      (\<exists>c\<in>set (box_cells (coarse qx_min) (coarse qy_min) (coarse qx_max) (coarse qy_max)).
        in_cell c (hilbert_xy2d_64 x y))"
    unfolding decompose_narrow [OF False] Let_def
    using box_ranges(1) [OF coarse_mono [OF assms(1)] coarse_mono [OF assms(2)] small small] .
  also have "\<dots> \<longleftrightarrow> (\<exists>gx gy. coarse qx_min \<le> gx \<and> gx \<le> coarse qx_max \<and> coarse qy_min \<le> gy \<and> gy \<le> coarse qy_max
      \<and> in_cell (cell_base gx gy) (hilbert_xy2d_64 x y))"
    unfolding set_box_cells Bex_def by blast
  also have "\<dots> \<longleftrightarrow> coarse qx_min \<le> coarse x \<and> coarse x \<le> coarse qx_max \<and> coarse qy_min \<le> coarse y \<and> coarse y \<le> coarse qy_max"
    using own point_in_own_cell [of x y, folded coarse_def] by blast
  finally show ?thesis
    using False by simp
qed

section \<open>Coordinate order\<close>

lemma d_mag_mod: "d_mag v = unat v mod 2 ^ 63"
proof -
  have "(0x7FFFFFFFFFFFFFFF :: u64) = mask 63"
    by (simp add: mask_eq_exp_minus_1)
  then have "v AND 0x7FFFFFFFFFFFFFFF = take_bit 63 v"
    by (simp only: take_bit_eq_mask)
  then show ?thesis
    by (simp only: d_mag_def) (simp add: unat_mod take_bit_eq_mod)
qed

lemma bit_63_unat: "bit (v :: u64) 63 \<longleftrightarrow> 2 ^ 63 \<le> unat v"
proof -
  have "bit v 63 \<longleftrightarrow> bit (unat v) 63"
    by (simp only: bit_unsigned_iff possible_bit_nat simp_thms)
  then have "bit v 63 \<longleftrightarrow> odd (unat v div 2 ^ 63)"
    by (simp only: bit_iff_odd [of "unat v" 63])
  moreover have "unat v div 2 ^ 63 = (if 2 ^ 63 \<le> unat v then 1 else 0)"
    using unsigned_less [of v, where ?'a = nat] by (auto intro: div_nat_eqI)
  ultimately show ?thesis
    by simp
qed

definition lex_bits :: "double \<Rightarrow> u64" where
  "lex_bits v = (if bit v 63 then NOT v else v XOR push_bit 63 1)"

lemma double_to_lex_bits: "double_to_lex_uint32 v = ucast (drop_bit 32 (lex_bits v))"
proof -
  have "v AND IEEE754_DOUBLE_SIGN_MASK \<noteq> 0 \<longleftrightarrow> bit v 63"
    by (simp only: IEEE754_DOUBLE_SIGN_MASK_def bit_iff_and_push_bit_not_eq_0)
  then show ?thesis
    by (simp only: double_to_lex_uint32_def lex_bits_def IEEE754_DOUBLE_SIGN_MASK_def LEX_UINT32_HI_SHIFT_def Let_def)
qed

lemma unat_lex_bits: "unat (lex_bits v) = (if bit v 63 then 2 ^ 63 - 1 - d_mag v else 2 ^ 63 + d_mag v)"
proof (cases "bit v 63")
  case True
  have "unat (NOT v) = 2 ^ 64 - 1 - unat v"
  proof -
    have "NOT v = - 1 - v"
      by (simp add: not_eq_complement)
    then show ?thesis
      using unat_sub [of v "- 1"] by (simp add: unsigned_minus_1_eq_mask mask_eq_exp_minus_1)
  qed
  moreover have "unat v = 2 ^ 63 + d_mag v"
    using True unsigned_less [of v, where ?'a = nat] unfolding d_mag_mod bit_63_unat by (simp add: le_mod_geq)
  ultimately show ?thesis
    using True by (simp add: lex_bits_def)
next
  case False
  have nb: "\<not> bit v n" if "63 \<le> n" for n
    using that False bit_imp_le_length [of v n] by (cases "n = 63") auto
  have "v XOR push_bit 63 1 = v + push_bit 63 1"
    by (rule disjunctive_add_eq_xor [symmetric], rule bit_word_eqI)
      (unfold bit_and_iff bit_push_bit_iff, use nb in auto)
  moreover have "unat v = d_mag v" "unat v < 2 ^ 63"
    using False unfolding d_mag_mod bit_63_unat by simp_all
  ultimately show ?thesis
    using False by (simp add: lex_bits_def unat_word_ariths)
qed

lemma lex_bits_mono:
  assumes "d_rank a < d_rank b"
  shows "unat (lex_bits a) < unat (lex_bits b)"
proof -
  have "d_mag a < 2 ^ 63" "d_mag b < 2 ^ 63"
    by (simp_all add: d_mag_mod)
  moreover have "(2 :: nat) ^ 63 - 1 - m < 2 ^ 63 - 1 - n" if "n < m" "m < 2 ^ 63" for m n
    using that by linarith
  ultimately show ?thesis
    using assms unfolding unat_lex_bits d_rank_def by (cases "bit a 63"; cases "bit b 63") auto
qed

lemma unat_lex: "unat (double_to_lex_uint32 v) = unat (lex_bits v) div 2 ^ 32"
proof -
  have "unat (lex_bits v) div 2 ^ 32 < 2 ^ 32"
    using unsigned_less [of "lex_bits v", where ?'a = nat] by (simp add: less_mult_imp_div_less)
  then show ?thesis
    by (simp only: double_to_lex_bits unsigned_ucast_eq unat_drop_bit) (simp add: take_bit_eq_mod)
qed

lemma lex_mono: "d_lt a b \<or> a = b \<Longrightarrow> double_to_lex_uint32 a \<le> double_to_lex_uint32 b"
  using lex_bits_mono [of a b]
  by (auto simp: d_lt_def word_le_nat_alt unat_lex intro: div_le_mono)

section \<open>Keys\<close>

lemma encode_hilbert_be_enc: "encode_hilbert_be = be_enc 8"
  by (rule ext) (simp add: encode_hilbert_be_def be_enc_def HILBERT_KEY_LEN_def SP_BITS_PER_BYTE_def)

lemma decode_hilbert_append: "decode_hilbert_be (encode_hilbert_be h @ r) = h"
  unfolding decode_hilbert_be_def encode_hilbert_be_enc HILBERT_KEY_LEN_def SP_BITS_PER_BYTE_def
  by (rule be_loop_enc) simp

interpretation hbe: ordered_codec encode_hilbert_be decode_hilbert_be 8
proof
  fix x y :: u64
  show "length (encode_hilbert_be x) = 8" and "encode_hilbert_be x < encode_hilbert_be y \<longleftrightarrow> x < y"
    by (simp_all add: encode_hilbert_be_enc be_enc_less)
  show "decode_hilbert_be (encode_hilbert_be x) = x"
    using decode_hilbert_append [of x "[]"] by simp
qed

section \<open>Rectangles\<close>

lemma read_write_double: "read_double (write_double v @ r) = v"
  unfolding read_double_def write_double_def DOUBLE_SIZE_def by (rule le_dec_le_enc) simp

lemma length_write_double [simp]: "length (write_double v) = 8"
  by (simp add: write_double_def DOUBLE_SIZE_def)

interpretation sp_double: fixed_codec write_double read_double 8
  using read_write_double [of _ "[]"] by unfold_locales simp_all

definition mbr_valid :: "mbr_t \<Rightarrow> bool" where
  "mbr_valid m \<longleftrightarrow> d_le (xmin m) (xmax m) \<and> d_le (ymin m) (ymax m)"

definition mbr_has :: "mbr_t \<Rightarrow> double \<Rightarrow> double \<Rightarrow> bool" where
  "mbr_has m x y \<longleftrightarrow> d_le (xmin m) x \<and> d_le x (xmax m) \<and> d_le (ymin m) y \<and> d_le y (ymax m)"

lemma interval_meet:
  assumes "d_le a b" "d_le c d"
  shows "\<not> (d_lt b c \<or> d_lt d a) \<longleftrightarrow> (\<exists>x. d_le a x \<and> d_le x b \<and> d_le c x \<and> d_le x d)"
proof
  assume "\<not> (d_lt b c \<or> d_lt d a)"
  then have "d_le a x \<and> d_le x b \<and> d_le c x \<and> d_le x d" if "x = (if d_rank a \<le> d_rank c then c else a)" for x
    using assms that by (auto simp: d_lt_def d_le_def)
  then show "\<exists>x. d_le a x \<and> d_le x b \<and> d_le c x \<and> d_le x d"
    by blast
qed (auto simp: d_lt_def d_le_def)

lemma mbr_intersects_common:
  assumes "mbr_valid a" "mbr_valid b"
  shows "mbr_intersects a b \<longleftrightarrow> (\<exists>x y. mbr_has a x y \<and> mbr_has b x y)"
  using assms interval_meet [of "xmin a" "xmax a" "xmin b" "xmax b"] interval_meet [of "ymin a" "ymax a" "ymin b" "ymax b"]
  unfolding mbr_valid_def mbr_intersects_def mbr_has_def by blast

lemma mbr_within_subset:
  assumes "mbr_valid a" "mbr_valid b"
  shows "mbr_within a b \<longleftrightarrow> (\<forall>x y. mbr_has a x y \<longrightarrow> mbr_has b x y)"
proof
  assume "mbr_within a b"
  then show "\<forall>x y. mbr_has a x y \<longrightarrow> mbr_has b x y"
    by (auto simp: mbr_within_def mbr_has_def d_le_def)
next
  assume *: "\<forall>x y. mbr_has a x y \<longrightarrow> mbr_has b x y"
  have "mbr_has a (xmin a) (ymin a)" "mbr_has a (xmax a) (ymax a)"
    using assms(1) by (auto simp: mbr_valid_def mbr_has_def d_le_def)
  with * show "mbr_within a b"
    by (auto simp: mbr_within_def mbr_has_def)
qed

section \<open>Geometries\<close>

text \<open>The WKB text of a geometry in the byte order the walker assumes, and its coordinates.\<close>

datatype geom =
    Pt double double
  | Line "(double \<times> double) list"
  | Poly "(double \<times> double) list list"
  | Multi u32 "geom list"

definition enc_count :: "u32 \<Rightarrow> bytes" where
  "enc_count n = le_enc 4 n"

definition enc_point :: "double \<times> double \<Rightarrow> bytes" where
  "enc_point p = write_double (fst p) @ write_double (snd p)"

definition enc_points :: "(double \<times> double) list \<Rightarrow> bytes" where
  "enc_points ps = enc_count (of_nat (length ps)) @ concat (map enc_point ps)"

fun wkb :: "geom \<Rightarrow> bytes" where
  "wkb (Pt x y) = 1 # enc_count WKB_POINT @ enc_point (x, y)"
| "wkb (Line ps) = 1 # enc_count WKB_LINESTRING @ enc_points ps"
| "wkb (Poly rs) = 1 # enc_count WKB_POLYGON @ enc_count (of_nat (length rs)) @ concat (map enc_points rs)"
| "wkb (Multi gt gs) = 1 # enc_count gt @ enc_count (of_nat (length gs)) @ concat (map wkb gs)"

fun geom_points :: "geom \<Rightarrow> (double \<times> double) list" where
  "geom_points (Pt x y) = [(x, y)]"
| "geom_points (Line ps) = ps"
| "geom_points (Poly rs) = concat rs"
| "geom_points (Multi gt gs) = concat (map geom_points gs)"

fun nesting :: "geom \<Rightarrow> nat" where
  "nesting (Multi gt gs) = Suc (foldr max (map nesting gs) 0)"
| "nesting _ = 0"

fun geom_ok :: "geom \<Rightarrow> bool" where
  "geom_ok (Pt x y) = True"
| "geom_ok (Line ps) = (length ps \<le> 1000000)"
| "geom_ok (Poly rs) = (length rs \<le> 10000 \<and> list_all (\<lambda>ps. length ps \<le> 1000000) rs)"
| "geom_ok (Multi gt gs) = (is_multi gt \<and> length gs \<le> 100000 \<and> list_all geom_ok gs)"

definition grow_point :: "mbr_t \<Rightarrow> double \<times> double \<Rightarrow> mbr_t" where
  "grow_point m p = (if d_isfinite (fst p) \<and> d_isfinite (snd p) then grow_mbr (fst p) (snd p) m else m)"

lemma read_count_enc: "read_count (enc_count n @ r) = n"
  unfolding read_count_def enc_count_def WKB_COUNT_SIZE_def by (rule le_dec_le_enc) simp

lemma length_enc_count [simp]: "length (enc_count n) = 4"
  by (simp add: enc_count_def)

lemma drop_count: "drop WKB_COUNT_SIZE (enc_count n @ r) = r" "\<not> length (enc_count n @ r) < WKB_COUNT_SIZE"
  by (simp_all add: WKB_COUNT_SIZE_def)

lemma read_point_enc: "wkb_read_point (enc_point p @ r) m = (True, r, grow_point m p)"
proof -
  have "drop 8 (enc_point p @ r) = write_double (snd p) @ r" "drop 16 (enc_point p @ r) = r"
    by (simp_all add: enc_point_def)
  moreover have "read_double (enc_point p @ r) = fst p"
    using read_write_double [of "fst p" "write_double (snd p) @ r"] by (simp add: enc_point_def)
  ultimately show ?thesis
    by (simp add: wkb_read_point_def wkb_const read_write_double grow_point_def Let_def)
      (simp add: enc_point_def)
qed

lemma read_points_enc:
  "wkb_read_points (length ps) (concat (map enc_point ps) @ r) m = (True, r, foldl grow_point m ps)"
  by (induction ps arbitrary: m) (simp_all add: read_point_enc)

lemma count_ok: "n \<le> unat lim \<Longrightarrow> \<not> (of_nat n > (lim :: u32)) \<and> unat (of_nat n :: u32) = n"
  using unsigned_less [of lim, where ?'a = nat] by (simp add: word_less_nat_alt unat_of_nat)

lemma read_sequence_enc:
  "length ps \<le> 1000000 \<Longrightarrow>
     wkb_read_point_sequence (enc_points ps @ r) m = (True, r, foldl grow_point m ps)"
  using count_ok [of "length ps" WKB_MAX_POINTS]
  by (simp add: wkb_read_point_sequence_def enc_points_def read_count_enc drop_count Let_def
      WKB_MAX_POINTS_def read_points_enc WKB_COUNT_SIZE_def)

lemma read_rings_enc:
  "list_all (\<lambda>ps. length ps \<le> 1000000) rs \<Longrightarrow>
     wkb_read_rings (length rs) (concat (map enc_points rs) @ r) m = (True, r, foldl grow_point m (concat rs))"
  by (induction rs arbitrary: m) (simp_all add: read_sequence_enc)

lemma geometry_header:
  assumes "depth \<le> 32"
  shows "wkb_parse_geometry depth (b # enc_count gt @ p) m =
    (if gt = WKB_POINT then wkb_read_point p m
     else if gt = WKB_LINESTRING then wkb_read_point_sequence p m
     else if gt = WKB_POLYGON then
       (if length p < WKB_COUNT_SIZE then (False, p, m)
        else let n_rings = read_count p; p' = drop WKB_COUNT_SIZE p
          in if n_rings > WKB_MAX_RINGS then (False, p', m) else wkb_read_rings (unat n_rings) p' m)
     else if is_multi gt then
       (if length p < WKB_COUNT_SIZE then (False, p, m)
        else let n_geoms = read_count p; p' = drop WKB_COUNT_SIZE p
          in if n_geoms > WKB_MAX_GEOMS then (False, p', m)
             else wkb_parse_geoms (unat n_geoms) (depth + 1) p' m)
     else (False, p, m))"
  using assms
  by (subst wkb_parse_geometry.simps)
    (simp add: WKB_MAX_RECURSION_DEPTH_def WKB_HEADER_SIZE_def read_count_enc drop_count Let_def del: drop_append)

lemma nesting_member: "g \<in> set gs \<Longrightarrow> nesting g \<le> foldr max (map nesting gs) 0"
  by (induction gs) auto

lemma parse_geoms_enc:
  assumes "\<And>g r m. g \<in> set gs \<Longrightarrow> wkb_parse_geometry d (wkb g @ r) m = (True, r, foldl grow_point m (geom_points g))"
  shows "wkb_parse_geoms (length gs) d (concat (map wkb gs) @ r) m =
    (True, r, foldl grow_point m (concat (map geom_points gs)))"
  using assms
proof (induction gs arbitrary: m)
  case Nil
  show ?case
    by (simp add: wkb_parse_geoms.simps)
next
  case (Cons g gs)
  then show ?case
    by (subst wkb_parse_geoms.simps) simp
qed

lemma multi_tags: "is_multi gt \<Longrightarrow> gt \<noteq> WKB_POINT \<and> gt \<noteq> WKB_LINESTRING \<and> gt \<noteq> WKB_POLYGON"
  by (auto simp: is_multi_def wkb_const)

lemma parse_geometry_enc:
  "geom_ok g \<Longrightarrow> depth + nesting g \<le> 32 \<Longrightarrow>
     wkb_parse_geometry depth (wkb g @ r) m = (True, r, foldl grow_point m (geom_points g))"
proof (induction g arbitrary: depth r m)
  case (Pt x y)
  then show ?case
    by (simp add: geometry_header read_point_enc)
next
  case (Line ps)
  then show ?case
    by (simp add: geometry_header read_sequence_enc) (simp add: wkb_const)
next
  case (Poly rs)
  then show ?case
    using count_ok [of "length rs" WKB_MAX_RINGS]
    by (simp add: geometry_header read_count_enc drop_count Let_def read_rings_enc WKB_MAX_RINGS_def del: drop_append)
      (simp add: wkb_const)
next
  case (Multi gt gs)
  have d: "depth \<le> 32"
    using Multi.prems(2) by simp
  have "wkb_parse_geometry (depth + 1) (wkb g @ r) m = (True, r, foldl grow_point m (geom_points g))"
    if "g \<in> set gs" for g r m
    using Multi.IH [OF that] Multi.prems nesting_member [OF that] that by (simp add: list_all_iff)
  from parse_geoms_enc [OF this]
  have gs: "wkb_parse_geoms (length gs) (depth + 1) (concat (map wkb gs) @ r) m =
      (True, r, foldl grow_point m (geom_points (Multi gt gs)))"
    by simp
  have gt: "is_multi gt" and n: "length gs \<le> unat WKB_MAX_GEOMS"
    using Multi.prems(1) by (simp_all add: WKB_MAX_GEOMS_def)
  show ?case
    using multi_tags [OF gt] gt count_ok [OF n] gs
    by (simp add: geometry_header [OF d] read_count_enc drop_count Let_def del: drop_append)
      (simp add: WKB_COUNT_SIZE_def)
qed

section \<open>The exact bounding rectangle\<close>

definition finite_points :: "geom \<Rightarrow> (double \<times> double) list" where
  "finite_points g = filter (\<lambda>p. d_isfinite (fst p) \<and> d_isfinite (snd p)) (geom_points g)"

definition mbr_finite :: "mbr_t \<Rightarrow> bool" where
  "mbr_finite m \<longleftrightarrow> d_isfinite (xmin m) \<and> d_isfinite (ymin m) \<and> d_isfinite (xmax m) \<and> d_isfinite (ymax m)"

lemma finite_not_nan: "d_isfinite v \<Longrightarrow> \<not> d_isnan v"
  by (simp add: d_isfinite_def d_isnan_def)

lemma grow_mbr_ranks:
  assumes "mbr_finite m" "d_isfinite x" "d_isfinite y"
  shows "mbr_finite (grow_mbr x y m)"
    and "d_rank (xmin (grow_mbr x y m)) = min (d_rank (xmin m)) (d_rank x)"
    and "d_rank (xmax (grow_mbr x y m)) = max (d_rank (xmax m)) (d_rank x)"
    and "d_rank (ymin (grow_mbr x y m)) = min (d_rank (ymin m)) (d_rank y)"
    and "d_rank (ymax (grow_mbr x y m)) = max (d_rank (ymax m)) (d_rank y)"
  using assms
  by (auto simp: grow_mbr_def Let_def mbr_finite_def d_lt_def min_def max_def finite_not_nan)

definition bounds_of :: "mbr_t \<Rightarrow> (double \<times> double) list \<Rightarrow> mbr_t \<Rightarrow> bool" where
  "bounds_of m fs r \<longleftrightarrow>
     d_rank (xmin r) = Min (insert (d_rank (xmin m)) (d_rank ` fst ` set fs)) \<and>
     d_rank (xmax r) = Max (insert (d_rank (xmax m)) (d_rank ` fst ` set fs)) \<and>
     d_rank (ymin r) = Min (insert (d_rank (ymin m)) (d_rank ` snd ` set fs)) \<and>
     d_rank (ymax r) = Max (insert (d_rank (ymax m)) (d_rank ` snd ` set fs))"

lemma Min_Max_insert:
  "finite X \<Longrightarrow> Min (insert (min a b) X) = Min (insert a (insert b X))"
  "finite X \<Longrightarrow> Max (insert (max a b) X) = Max (insert a (insert b X))" for a b :: int
  by (cases "X = {}"; simp add: min.assoc max.assoc)+

lemma grow_points_ranks:
  assumes "mbr_finite m"
  shows "mbr_finite (foldl grow_point m ps) \<and>
    bounds_of m (filter (\<lambda>p. d_isfinite (fst p) \<and> d_isfinite (snd p)) ps) (foldl grow_point m ps)"
  using assms
proof (induction ps arbitrary: m)
  case (Cons p ps)
  show ?case
  proof (cases "d_isfinite (fst p) \<and> d_isfinite (snd p)")
    case True
    then have p: "grow_point m p = grow_mbr (fst p) (snd p) m"
      by (simp add: grow_point_def)
    note g = grow_mbr_ranks [OF Cons.prems, of "fst p" "snd p"]
    from Cons.IH [OF g(1)] g True show ?thesis
      by (simp add: p bounds_of_def Min_Max_insert)
  next
    case False
    then have "grow_point m p = m"
      by (auto simp: grow_point_def)
    with Cons False show ?thesis
      by auto
  qed
qed (simp add: bounds_of_def)

lemma dbl_max_rank:
  "d_isfinite DBL_MAX" "d_isfinite NEG_DBL_MAX" "d_rank DBL_MAX = 0x7FEFFFFFFFFFFFFF"
  "d_rank NEG_DBL_MAX = - 0x7FEFFFFFFFFFFFFF"
  by (simp_all add: d_isfinite_def d_rank_def d_mag_def DBL_MAX_def NEG_DBL_MAX_def)

lemma finite_rank: "d_isfinite v \<Longrightarrow> d_rank NEG_DBL_MAX \<le> d_rank v \<and> d_rank v \<le> d_rank DBL_MAX"
  unfolding dbl_max_rank by (simp add: d_isfinite_def d_rank_def)

lemma Min_insert_bound: "finite X \<Longrightarrow> X \<noteq> {} \<Longrightarrow> \<forall>x\<in>X. x \<le> a \<Longrightarrow> Min (insert a X) = Min X"
  and Max_insert_bound: "finite X \<Longrightarrow> X \<noteq> {} \<Longrightarrow> \<forall>x\<in>X. a \<le> x \<Longrightarrow> Max (insert a X) = Max X"
  for a :: int
  by (simp_all add: min_def max_def) (meson Min_in Max_in antisym)+

lemma compute_mbr_bounds:
  assumes "geom_ok g" "nesting g \<le> 32" "length srid = 4"
  shows "fst (compute_mbr (srid @ wkb g @ r) out) = (finite_points g \<noteq> []) \<and>
    (finite_points g \<noteq> [] \<longrightarrow>
      d_rank (xmin (snd (compute_mbr (srid @ wkb g @ r) out))) = Min (d_rank ` fst ` set (finite_points g)) \<and>
      d_rank (xmax (snd (compute_mbr (srid @ wkb g @ r) out))) = Max (d_rank ` fst ` set (finite_points g)) \<and>
      d_rank (ymin (snd (compute_mbr (srid @ wkb g @ r) out))) = Min (d_rank ` snd ` set (finite_points g)) \<and>
      d_rank (ymax (snd (compute_mbr (srid @ wkb g @ r) out))) = Max (d_rank ` snd ` set (finite_points g)))"
proof -
  define m0 where "m0 = \<lparr>xmin = DBL_MAX, ymin = DBL_MAX, xmax = NEG_DBL_MAX, ymax = NEG_DBL_MAX\<rparr>"
  define m where "m = foldl grow_point m0 (geom_points g)"
  have fin: "mbr_finite m0"
    by (simp add: m0_def mbr_finite_def dbl_max_rank)
  from grow_points_ranks [OF fin, of "geom_points g"]
  have mf: "mbr_finite m" and b: "bounds_of m0 (finite_points g) m"
    by (simp_all add: m_def finite_points_def)
  have len: "5 \<le> length (wkb g)"
    by (cases g) simp_all
  have parse: "wkb_parse_geometry 0 (wkb g @ r) m0 = (True, r, m)"
    using parse_geometry_enc [OF assms(1), of 0 r m0] assms(2) by (simp add: m_def)
  have result: "compute_mbr (srid @ wkb g @ r) out = (d_le (xmin m) (xmax m) \<and> d_le (ymin m) (ymax m), m)"
    using len assms(3) parse
    by (simp add: compute_mbr_def SRID_SIZE_def WKB_HEADER_SIZE_def Let_def flip: m0_def)
  have le: "d_le (xmin m) (xmax m) \<longleftrightarrow> d_rank (xmin m) \<le> d_rank (xmax m)"
    "d_le (ymin m) (ymax m) \<longleftrightarrow> d_rank (ymin m) \<le> d_rank (ymax m)"
    using mf by (simp_all add: d_le_def mbr_finite_def finite_not_nan)
  show ?thesis
  proof (cases "finite_points g = []")
    case True
    then have "\<not> d_rank (xmin m) \<le> d_rank (xmax m)"
      using b by (simp add: bounds_of_def m0_def dbl_max_rank)
    with True show ?thesis
      by (simp add: result le)
  next
    case False
    have r: "\<forall>v\<in>d_rank ` fst ` set (finite_points g). d_rank NEG_DBL_MAX \<le> v \<and> v \<le> d_rank DBL_MAX"
      "\<forall>v\<in>d_rank ` snd ` set (finite_points g). d_rank NEG_DBL_MAX \<le> v \<and> v \<le> d_rank DBL_MAX"
      using finite_rank by (auto simp: finite_points_def)
    have q: "d_rank (xmin m) = Min (d_rank ` fst ` set (finite_points g))"
      "d_rank (xmax m) = Max (d_rank ` fst ` set (finite_points g))"
      "d_rank (ymin m) = Min (d_rank ` snd ` set (finite_points g))"
      "d_rank (ymax m) = Max (d_rank ` snd ` set (finite_points g))"
      using b r False unfolding bounds_of_def m0_def by (simp_all add: Min_insert_bound Max_insert_bound)
    moreover have "Min X \<le> Max X" if "finite X" "X \<noteq> {}" for X :: "int set"
      using that by (meson Max_in Min_le)
    ultimately show ?thesis
      using False by (simp add: result le)
  qed
qed

section \<open>Properties\<close>

text \<open>C20: The curve is a bijection from the quantised plane onto the 64-bit distances, so no two grid
  points share a key prefix and every distance is a grid point.\<close>

theorem hilbert_curve_bijective: "bij (\<lambda>(x, y). hilbert_xy2d_64 x y)"
  by (rule hilbert_bij)

text \<open>C15: The ranges of a query box are ordered, disjoint and never adjacent, and a point on the
  curve lies in one of them exactly when its coarse cell is one of the cells the box touches, unless
  the box is so wide that the whole curve is scanned. In particular no point of the box is missed.\<close>

theorem decompose_ranges_exact:
  assumes "qx_min \<le> qx_max" "qy_min \<le> qy_max"
  shows "separated (decompose_ranges qx_min qy_min qx_max qy_max) \<and>
    (covered (decompose_ranges qx_min qy_min qx_max qy_max) (hilbert_xy2d_64 x y) \<longleftrightarrow>
       wide_box qx_min qy_min qx_max qy_max \<or>
       (coarse qx_min \<le> coarse x \<and> coarse x \<le> coarse qx_max \<and>
        coarse qy_min \<le> coarse y \<and> coarse y \<le> coarse qy_max))"
  using decompose_separated [OF assms] decompose_covered [OF assms] by blast

theorem decompose_ranges_exact_witness:
  "(1 :: u32) \<le> 2 \<and> separated (decompose_ranges 1 1 2 2) \<and>
   covered (decompose_ranges 1 1 2 2) (hilbert_xy2d_64 2 1)"
  using decompose_ranges_exact [of 1 2 1 2 2 1] by (simp add: coarse_def)



text \<open>C34: The two zeros are one number to every comparison, but not to the coordinate encoding: the
  rectangle of a point at negative zero lies inside the box from zero to one, and the ranges of that
  box do not contain the point's distance.\<close>

theorem negative_zero_missed:
  "mbr_predicate p_within \<lparr>xmin = 0, ymin = 0, xmax = 0x3FF0000000000000, ymax = 0x3FF0000000000000\<rparr>
     \<lparr>xmin = 0x8000000000000000, ymin = 0x8000000000000000, xmax = 0x8000000000000000, ymax = 0x8000000000000000\<rparr> \<and>
   \<not> covered (decompose_ranges (double_to_lex_uint32 0) (double_to_lex_uint32 0)
         (double_to_lex_uint32 0x3FF0000000000000) (double_to_lex_uint32 0x3FF0000000000000))
       (hilbert_xy2d_64 (double_to_lex_uint32 0x8000000000000000) (double_to_lex_uint32 0x8000000000000000))"
proof
  show "mbr_predicate p_within \<lparr>xmin = 0, ymin = 0, xmax = 0x3FF0000000000000, ymax = 0x3FF0000000000000\<rparr>
     \<lparr>xmin = 0x8000000000000000, ymin = 0x8000000000000000, xmax = 0x8000000000000000, ymax = 0x8000000000000000\<rparr>"
    by (simp add: mbr_within_def d_le_def d_isnan_def d_rank_def d_mag_def)
  have q: "double_to_lex_uint32 0 = 0x80000000" "double_to_lex_uint32 0x3FF0000000000000 = 0xBFF00000"
    "double_to_lex_uint32 0x8000000000000000 = 0x7FFFFFFF"
    by (simp_all add: double_to_lex_uint32_def IEEE754_DOUBLE_SIGN_MASK_def LEX_UINT32_HI_SHIFT_def)
  have c: "coarse 0x80000000 = 0x80" "coarse 0xBFF00000 = 0xBF" "coarse 0x7FFFFFFF = 0x7F"
    by (simp_all add: coarse_def)
  have "\<not> wide_box 0x80000000 0x80000000 0xBFF00000 0xBFF00000"
    by (simp add: wide_box_def c DECOMP_FULL_SCAN_THRESHOLD_def DECOMP_N_def DECOMP_BITS_def)
  then show "\<not> covered (decompose_ranges (double_to_lex_uint32 0) (double_to_lex_uint32 0)
         (double_to_lex_uint32 0x3FF0000000000000) (double_to_lex_uint32 0x3FF0000000000000))
       (hilbert_xy2d_64 (double_to_lex_uint32 0x8000000000000000) (double_to_lex_uint32 0x8000000000000000))"
    using decompose_covered [of "0x80000000" "0xBFF00000" "0x80000000" "0xBFF00000" "0x7FFFFFFF" "0x7FFFFFFF"]
    by (simp add: q c)
qed

text \<open>C16: The rectangle computed from a geometry value is its exact bounding box: the walk accepts
  every well-formed geometry within the caps and nesting limit, whatever follows it, succeeds
  exactly when some point is finite, and then each edge is the least or greatest coordinate over the
  finite points, wherever in the geometry they are.\<close>

theorem compute_mbr_exact:
  assumes "geom_ok g" "nesting g \<le> 32" "length srid = 4"
  shows "fst (compute_mbr (srid @ wkb g @ r) out) = (finite_points g \<noteq> []) \<and>
    (finite_points g \<noteq> [] \<longrightarrow>
      d_rank (xmin (snd (compute_mbr (srid @ wkb g @ r) out))) = Min (d_rank ` fst ` set (finite_points g)) \<and>
      d_rank (xmax (snd (compute_mbr (srid @ wkb g @ r) out))) = Max (d_rank ` fst ` set (finite_points g)) \<and>
      d_rank (ymin (snd (compute_mbr (srid @ wkb g @ r) out))) = Min (d_rank ` snd ` set (finite_points g)) \<and>
      d_rank (ymax (snd (compute_mbr (srid @ wkb g @ r) out))) = Max (d_rank ` snd ` set (finite_points g)))"
  by (rule compute_mbr_bounds [OF assms])

theorem compute_mbr_exact_witness:
  "geom_ok (Multi 7 [Pt 0x3FF0000000000000 0, Line [(0x4000000000000000, 0x7FF0000000000000)]]) \<and>
   fst (compute_mbr ([0, 0, 0, 0] @ wkb (Multi 7 [Pt 0x3FF0000000000000 0, Line [(0x4000000000000000, 0x7FF0000000000000)]]) @ [])
     \<lparr>xmin = 0, ymin = 0, xmax = 0, ymax = 0\<rparr>)"
proof -
  let ?g = "Multi 7 [Pt 0x3FF0000000000000 0, Line [(0x4000000000000000, 0x7FF0000000000000)]]"
  have h: "geom_ok ?g" "nesting ?g \<le> 32" "length [0, 0, 0, 0 :: u8] = 4"
    by (simp_all add: is_multi_def wkb_const)
  have "finite_points ?g \<noteq> []"
    by (simp add: finite_points_def d_isfinite_def d_mag_def)
  with compute_mbr_exact [OF h, of "[]" "\<lparr>xmin = 0, ymin = 0, xmax = 0, ymax = 0\<rparr>"] h(1) show ?thesis
    by blast
qed



end
