(* ===== verification/Xa_Codec.thy ===== *)
theory Xa_Codec
  imports Prelude
begin

text \<open>
  The two byte formats of two-phase commit, \<^verbatim>\<open>src/tidesdb/src/handler/ha_tidesdb_txn.cc\<close>: the key a
  prepared transaction is stored under, from which recovery rebuilds the XID, and the record of the
  tables it wrote to.

  The server's XID is a format id, two lengths that are C \<open>long\<close> and a buffer of \<open>XIDDATASIZE\<close> bytes
  of which the first \<open>gtrid + bqual\<close> count; \<open>xid_same\<close> is the server's equality. A rebuilt XID holds
  just the bytes that count.
\<close>

section \<open>Data\<close>

definition XIDDATASIZE :: nat where "XIDDATASIZE = 128"
definition TDB_XID_HDR_LEN :: nat where "TDB_XID_HDR_LEN = 16"
definition TDB_XA_TC_FORMAT_VERSION :: u8 where "TDB_XA_TC_FORMAT_VERSION = 1"
definition TDB_XA_TC_MAX_NAME :: u32 where "TDB_XA_TC_MAX_NAME = 4096"

record xid =
  x_format :: u64
  x_gtrid_len :: int
  x_bqual_len :: int
  x_data :: bytes

type_synonym table_names = "(bytes \<times> bytes) list"

section \<open>Operations\<close>

definition tdb_put_u64_be :: "u64 \<Rightarrow> bytes" where
  "tdb_put_u64_be v = map (\<lambda>i. ucast (drop_bit ((7 - i) * 8) v AND 0xFF)) [0..<8]"

definition tdb_put_u32_be :: "u32 \<Rightarrow> bytes" where
  "tdb_put_u32_be v = map (\<lambda>i. ucast (drop_bit ((3 - i) * 8) v AND 0xFF)) [0..<4]"

definition tdb_get_u64_be :: "bytes \<Rightarrow> u64" where
  "tdb_get_u64_be inp = foldl (\<lambda>v i. push_bit 8 v OR ucast (inp ! i)) 0 [0..<8]"

definition tdb_get_u32_be :: "bytes \<Rightarrow> u32" where
  "tdb_get_u32_be inp = foldl (\<lambda>v i. push_bit 8 v OR ucast (inp ! i)) 0 [0..<4]"

definition tdb_xid_key :: "xid \<Rightarrow> bytes" where
  "tdb_xid_key x =
     (let gl = x_gtrid_len x; bl = x_bqual_len x;
          n = (if gl > 0 then nat gl else 0) + (if bl > 0 then nat bl else 0)
      in tdb_put_u64_be (x_format x) @ tdb_put_u32_be (of_int gl) @ tdb_put_u32_be (of_int bl)
         @ take n (x_data x))"

definition tdb_xid_from_key :: "bytes option \<Rightarrow> bool \<Rightarrow> xid option" where
  "tdb_xid_from_key key out_ok =
     (case key of
        None \<Rightarrow> None
      | Some k \<Rightarrow>
          if \<not> out_ok \<or> length k < TDB_XID_HDR_LEN then None
          else let fmt = tdb_get_u64_be k;
                   gl = tdb_get_u32_be (drop 8 k);
                   bl = tdb_get_u32_be (drop 12 k)
            in if unat gl > XIDDATASIZE \<or> unat bl > XIDDATASIZE \<or> unat gl + unat bl > XIDDATASIZE then None
               else if length k \<noteq> TDB_XID_HDR_LEN + unat gl + unat bl then None
               else Some \<lparr>x_format = fmt, x_gtrid_len = int (unat gl), x_bqual_len = int (unat bl),
                          x_data = drop TDB_XID_HDR_LEN k\<rparr>)"

definition tc_put_name :: "bytes \<Rightarrow> bytes" where
  "tc_put_name s = tdb_put_u32_be (of_nat (length s)) @ s"

definition tdb_xa_tc_encode :: "table_names \<Rightarrow> bytes" where
  "tdb_xa_tc_encode tables =
     [TDB_XA_TC_FORMAT_VERSION] @ tdb_put_u32_be (of_nat (length tables))
     @ concat (map (\<lambda>t. tc_put_name (fst t) @ tc_put_name (snd t)) tables)"

definition tc_get_name :: "bytes \<Rightarrow> (bytes \<times> bytes) option" where
  "tc_get_name p =
     (if length p < 4 then None
      else let n = tdb_get_u32_be p; p' = drop 4 p
        in if n > TDB_XA_TC_MAX_NAME \<or> length p' < unat n then None
           else Some (take (unat n) p', drop (unat n) p'))"

fun tc_read_names :: "nat \<Rightarrow> bytes \<Rightarrow> table_names \<Rightarrow> bool \<times> table_names" where
  "tc_read_names 0 p out = (True, out)"
| "tc_read_names (Suc n) p out =
     (case tc_get_name p of
        None \<Rightarrow> (False, out)
      | Some (db, p1) \<Rightarrow>
          (case tc_get_name p1 of
             None \<Rightarrow> (False, out)
           | Some (tbl, p2) \<Rightarrow> tc_read_names n p2 (out @ [(db, tbl)])))"

text \<open>The returned flag, and what the out list holds afterwards.\<close>

definition tdb_xa_tc_decode :: "bytes option \<Rightarrow> bool \<times> table_names" where
  "tdb_xa_tc_decode data =
     (case data of
        None \<Rightarrow> (False, [])
      | Some d \<Rightarrow>
          if length d < 5 \<or> d ! 0 \<noteq> TDB_XA_TC_FORMAT_VERSION then (False, [])
          else let p = drop 1 d in tc_read_names (unat (tdb_get_u32_be p)) (drop 4 p) [])"

section \<open>Lemmas\<close>

lemma xa_put_u64: "tdb_put_u64_be = be_enc 8"
  by (rule ext) (simp add: tdb_put_u64_be_def be_enc_def ucast_mask_byte)

lemma xa_put_u32: "tdb_put_u32_be = be_enc 4"
  by (rule ext) (simp add: tdb_put_u32_be_def be_enc_def ucast_mask_byte)

lemma xa_get_u64: "tdb_get_u64_be (tdb_put_u64_be v @ r) = v"
  unfolding tdb_get_u64_be_def xa_put_u64 by (rule be_loop_enc) simp

lemma xa_get_u32: "tdb_get_u32_be (tdb_put_u32_be v @ r) = v"
  unfolding tdb_get_u32_be_def xa_put_u32 by (rule be_loop_enc) simp

interpretation xa64: fixed_codec tdb_put_u64_be tdb_get_u64_be 8
  using xa_get_u64 [of _ "[]"] by unfold_locales (simp_all add: xa_put_u64)

interpretation xa32: fixed_codec tdb_put_u32_be tdb_get_u32_be 4
  using xa_get_u32 [of _ "[]"] by unfold_locales (simp_all add: xa_put_u32)

lemma xa_get_u32_take: "4 \<le> length p \<Longrightarrow> tdb_get_u32_be p = be_dec (take 4 p)"
  unfolding tdb_get_u32_be_def be_dec_def by (rule foldl_nth_take)

lemma xa_get_u64_take: "8 \<le> length p \<Longrightarrow> tdb_get_u64_be p = be_dec (take 8 p)"
  unfolding tdb_get_u64_be_def be_dec_def by (rule foldl_nth_take)

interpretation tc_str: framed_string tc_put_name tc_get_name "unat TDB_XA_TC_MAX_NAME"
proof (rule framed_string_32)
  show "tc_get_name p =
      (if length p < 4 then None
       else let n = be_dec (take 4 p) :: u32; p' = drop 4 p
         in if n > TDB_XA_TC_MAX_NAME then None else if length p' < unat n then None
            else Some (take (unat n) p', drop (unat n) p'))" for p
    by (simp add: tc_get_name_def xa_get_u32_take Let_def)
qed (simp_all add: TDB_XA_TC_MAX_NAME_def tc_put_name_def xa_put_u32)

subsection \<open>XIDs\<close>

definition xid_wf :: "xid \<Rightarrow> bool" where
  "xid_wf x \<longleftrightarrow>
     0 \<le> x_gtrid_len x \<and> 0 \<le> x_bqual_len x \<and> x_gtrid_len x + x_bqual_len x \<le> int XIDDATASIZE \<and>
     x_gtrid_len x + x_bqual_len x \<le> int (length (x_data x))"

definition xid_same :: "xid \<Rightarrow> xid \<Rightarrow> bool" where
  "xid_same x y \<longleftrightarrow>
     x_format x = x_format y \<and> x_gtrid_len x = x_gtrid_len y \<and> x_bqual_len x = x_bqual_len y \<and>
     take (nat (x_gtrid_len x + x_bqual_len x)) (x_data x) = take (nat (x_gtrid_len x + x_bqual_len x)) (x_data y)"

lemma xid_key_shape:
  assumes "x_gtrid_len x = int g" "x_bqual_len x = int b"
  shows "tdb_xid_key x = tdb_put_u64_be (x_format x) @ tdb_put_u32_be (of_nat g) @ tdb_put_u32_be (of_nat b)
      @ take (g + b) (x_data x)"
  using assms by (simp add: tdb_xid_key_def Let_def)

lemma xid_from_key_key:
  assumes "xid_wf x"
  obtains y where "tdb_xid_from_key (Some (tdb_xid_key x)) True = Some y" "xid_same x y" "xid_wf y"
proof -
  define g b where "g = nat (x_gtrid_len x)" and "b = nat (x_bqual_len x)"
  define pay where "pay = take (g + b) (x_data x)"
  have gb: "x_gtrid_len x = int g" "x_bqual_len x = int b" "g + b \<le> 128" "length pay = g + b"
    using assms by (auto simp: g_def b_def pay_def xid_wf_def XIDDATASIZE_def)
  have key: "tdb_xid_key x = tdb_put_u64_be (x_format x) @ tdb_put_u32_be (of_nat g) @ tdb_put_u32_be (of_nat b) @ pay"
    using xid_key_shape [OF gb(1,2)] by (simp add: pay_def)
  have n: "unat (of_nat g :: u32) = g" "unat (of_nat b :: u32) = b"
    using gb(3) by (simp_all add: unat_of_nat)
  have d: "drop 8 (tdb_xid_key x) = tdb_put_u32_be (of_nat g) @ tdb_put_u32_be (of_nat b) @ pay"
    "drop 12 (tdb_xid_key x) = tdb_put_u32_be (of_nat b) @ pay" "drop 16 (tdb_xid_key x) = pay"
    "length (tdb_xid_key x) = 16 + g + b"
    by (simp_all add: key xa64.enc_length xa32.enc_length gb)
  have "tdb_xid_from_key (Some (tdb_xid_key x)) True =
      Some \<lparr>x_format = x_format x, x_gtrid_len = int g, x_bqual_len = int b, x_data = pay\<rparr>"
    using gb(3) by (simp add: tdb_xid_from_key_def Let_def TDB_XID_HDR_LEN_def XIDDATASIZE_def d xa_get_u32 n)
      (simp add: key xa_get_u64)
  moreover have "xid_same x \<lparr>x_format = x_format x, x_gtrid_len = int g, x_bqual_len = int b, x_data = pay\<rparr>"
    by (simp add: xid_same_def gb pay_def nat_add_distrib)
  moreover have "xid_wf \<lparr>x_format = x_format x, x_gtrid_len = int g, x_bqual_len = int b, x_data = pay\<rparr>"
    using gb by (simp add: xid_wf_def XIDDATASIZE_def)
  ultimately show ?thesis
    by (rule that)
qed

lemma header_check:
  "(if L < (16 :: nat) then None
    else if g > 128 \<or> b > 128 \<or> g + b > 128 then None
    else if L \<noteq> 16 + g + b then None else Some v) = Some y \<Longrightarrow> L = 16 + g + b \<and> g + b \<le> 128 \<and> y = v"
  by (cases "L < 16"; cases "g > 128 \<or> b > 128 \<or> g + b > 128"; cases "L \<noteq> 16 + g + b") simp_all

lemma xid_from_key_sound:
  assumes "tdb_xid_from_key (Some k) True = Some y"
  shows "xid_wf y \<and> tdb_xid_key y = k"
proof -
  define g b where "g = tdb_get_u32_be (drop 8 k)" and "b = tdb_get_u32_be (drop 12 k)"
  have eq: "tdb_xid_from_key (Some k) True =
      (if length k < 16 then None
       else if unat g > 128 \<or> unat b > 128 \<or> unat g + unat b > 128 then None
       else if length k \<noteq> 16 + unat g + unat b then None
       else Some \<lparr>x_format = tdb_get_u64_be k, x_gtrid_len = int (unat g), x_bqual_len = int (unat b),
                  x_data = drop 16 k\<rparr>)"
    by (simp only: tdb_xid_from_key_def Let_def TDB_XID_HDR_LEN_def XIDDATASIZE_def g_def b_def
        option.case not_True_eq_False simp_thms)
  note chk = header_check [OF trans [OF eq [symmetric] assms]]
  have y: "length k = 16 + unat g + unat b" "unat g + unat b \<le> 128"
    "y = \<lparr>x_format = tdb_get_u64_be k, x_gtrid_len = int (unat g), x_bqual_len = int (unat b), x_data = drop 16 k\<rparr>"
    using chk by blast+
  have len: "16 \<le> length k"
    using y(1) by linarith
  have parts: "tdb_put_u64_be (tdb_get_u64_be k) = take 8 k" "tdb_put_u32_be g = take 4 (drop 8 k)"
    "tdb_put_u32_be b = take 4 (drop 12 k)"
    using len by (simp_all add: g_def b_def xa_get_u64_take xa_get_u32_take xa_put_u64 xa_put_u32 be_enc_be_dec)
  have k: "k = take 8 k @ take 4 (drop 8 k) @ take 4 (drop 12 k) @ drop 16 k"
  proof -
    have "take 4 (drop 12 k) @ drop 16 k = drop 12 k" "take 4 (drop 8 k) @ drop 12 k = drop 8 k"
      using append_take_drop_id [of 4 "drop 12 k"] append_take_drop_id [of 4 "drop 8 k"] by simp_all
    then show ?thesis
      by simp
  qed
  have "length (drop 16 k) = unat g + unat b"
    using y(1) by simp
  then have "tdb_xid_key y = take 8 k @ take 4 (drop 8 k) @ take 4 (drop 12 k) @ drop 16 k"
    unfolding y(3) parts [symmetric] by (subst xid_key_shape [of _ "unat g" "unat b"]) simp_all
  then have "tdb_xid_key y = k"
    using k by (rule trans [OF _ sym])
  moreover have "xid_wf y"
    unfolding y(3) xid_wf_def XIDDATASIZE_def using y(1,2) by (simp del: of_nat_unat)
  ultimately show ?thesis
    by blast
qed

subsection \<open>Table names\<close>

definition names_ok :: "table_names \<Rightarrow> bool" where
  "names_ok ts \<longleftrightarrow> list_all (\<lambda>t. length (fst t) \<le> unat TDB_XA_TC_MAX_NAME \<and> length (snd t) \<le> unat TDB_XA_TC_MAX_NAME) ts"

definition tc_body :: "table_names \<Rightarrow> bytes" where
  "tc_body ts = concat (map (\<lambda>t. tc_put_name (fst t) @ tc_put_name (snd t)) ts)"

lemma tc_read_names_encode:
  "names_ok ts \<Longrightarrow> tc_read_names (length ts) (tc_body ts @ r) out = (True, out @ ts)"
  by (induction ts arbitrary: out) (auto simp: names_ok_def tc_body_def tc_str.get_put)

lemma tc_read_names_sound:
  "tc_read_names n p out = (True, res) \<Longrightarrow>
     \<exists>ts r. res = out @ ts \<and> length ts = n \<and> names_ok ts \<and> p = tc_body ts @ r"
proof (induction n p out rule: tc_read_names.induct)
  case (1 p out)
  then show ?case
    by (simp add: names_ok_def tc_body_def)
next
  case (2 n p out)
  obtain db p1 tbl p2 where g: "tc_get_name p = Some (db, p1)" "tc_get_name p1 = Some (tbl, p2)"
    using "2.prems" by (auto split: option.splits)
  with "2.prems" have "tc_read_names n p2 (out @ [(db, tbl)]) = (True, res)"
    by simp
  with "2.IH" [OF g(1) refl g(2) refl] obtain ts r where
    ts: "res = (out @ [(db, tbl)]) @ ts" "length ts = n" "names_ok ts" "p2 = tc_body ts @ r"
    by auto
  have "res = out @ (db, tbl) # ts \<and> length ((db, tbl) # ts) = Suc n \<and> names_ok ((db, tbl) # ts) \<and>
      p = tc_body ((db, tbl) # ts) @ r"
    using ts tc_str.get_sound [OF g(1)] tc_str.get_sound [OF g(2)] by (simp add: names_ok_def tc_body_def)
  then show ?case
    by blast
qed

lemma tc_encode_shape:
  "tdb_xa_tc_encode ts = TDB_XA_TC_FORMAT_VERSION # tdb_put_u32_be (of_nat (length ts)) @ tc_body ts"
  by (simp add: tdb_xa_tc_encode_def tc_body_def)

lemma tc_decode_encode:
  assumes "names_ok ts" "length ts < 2 ^ 32"
  shows "tdb_xa_tc_decode (Some (tdb_xa_tc_encode ts @ r)) = (True, ts)"
proof -
  have "unat (of_nat (length ts) :: u32) = length ts"
    using assms(2) by (simp add: unat_of_nat)
  then show ?thesis
    using tc_read_names_encode [OF assms(1), of r "[]"]
    by (simp add: tdb_xa_tc_decode_def tc_encode_shape Let_def xa_get_u32 xa32.enc_length)
qed

lemma tc_decode_sound:
  assumes "tdb_xa_tc_decode (Some d) = (True, ts)"
  shows "names_ok ts \<and> length ts < 2 ^ 32 \<and> (\<exists>r. d = tdb_xa_tc_encode ts @ r)"
proof -
  define n where "n = tdb_get_u32_be (drop 1 d)"
  have d: "5 \<le> length d" "d ! 0 = TDB_XA_TC_FORMAT_VERSION" "tc_read_names (unat n) (drop 5 d) [] = (True, ts)"
    using assms by (auto simp: tdb_xa_tc_decode_def Let_def n_def split: if_splits)
  obtain r where ts: "length ts = unat n" "names_ok ts" "drop 5 d = tc_body ts @ r"
    using tc_read_names_sound [OF d(3)] by auto
  have "tdb_put_u32_be n = take 4 (drop 1 d)"
    using d(1) by (simp add: n_def xa_get_u32_take xa_put_u32 be_enc_be_dec)
  moreover have "d = d ! 0 # take 4 (drop 1 d) @ drop 5 d"
    using d(1) by (cases d) (auto simp: drop_Cons')
  ultimately have "d = tdb_xa_tc_encode ts @ r"
    using ts d(2) by (simp add: tc_encode_shape)
  moreover have "length ts < 2 ^ 32"
    using ts(1) unsigned_less [of n, where ?'a = nat] by simp
  ultimately show ?thesis
    using ts(2) by blast
qed

section \<open>Properties\<close>

text \<open>C24: The key of a prepared transaction names it: two well-formed XIDs have the same key exactly
  when the server considers them equal, a key rebuilds the XID it was written from, and a byte
  string is accepted only if it is the key of the XID it yields.\<close>

theorem xid_key_roundtrip:
  assumes "xid_wf x" "xid_wf x'"
  shows "(tdb_xid_key x = tdb_xid_key x' \<longleftrightarrow> xid_same x x') \<and>
    (\<exists>y. tdb_xid_from_key (Some (tdb_xid_key x)) True = Some y \<and> xid_same x y) \<and>
    (tdb_xid_from_key (Some k) True = Some y \<longrightarrow> tdb_xid_key y = k)"
proof -
  have same: "tdb_xid_key x = tdb_xid_key x'" if "xid_same x x'"
    using that assms by (auto simp: tdb_xid_key_def Let_def xid_same_def xid_wf_def nat_add_distrib)
  have "xid_same x x'" if k: "tdb_xid_key x = tdb_xid_key x'"
  proof -
    obtain y y' where "tdb_xid_from_key (Some (tdb_xid_key x)) True = Some y" "xid_same x y"
      "tdb_xid_from_key (Some (tdb_xid_key x')) True = Some y'" "xid_same x' y'"
      using xid_from_key_key [OF assms(1)] xid_from_key_key [OF assms(2)] by metis
    with k show ?thesis
      by (auto simp: xid_same_def)
  qed
  with same show ?thesis
    using xid_from_key_key [OF assms(1)] xid_from_key_sound [of k y] by metis
qed

theorem xid_key_roundtrip_witness:
  "xid_wf \<lparr>x_format = 1, x_gtrid_len = 2, x_bqual_len = 0, x_data = [7, 8, 9]\<rparr> \<and>
   (\<exists>y. tdb_xid_from_key (Some (tdb_xid_key \<lparr>x_format = 1, x_gtrid_len = 2, x_bqual_len = 0, x_data = [7, 8, 9]\<rparr>)) True
       = Some y \<and> xid_same \<lparr>x_format = 1, x_gtrid_len = 2, x_bqual_len = 0, x_data = [7, 8, 9]\<rparr> y)"
proof -
  have h: "xid_wf \<lparr>x_format = 1, x_gtrid_len = 2, x_bqual_len = 0, x_data = [7, 8, 9]\<rparr>"
    by (simp add: xid_wf_def XIDDATASIZE_def)
  from xid_key_roundtrip [OF h h] h show ?thesis
    by blast
qed

text \<open>C25: A record of modified tables is accepted exactly when it starts with the encoding of the
  list it yields, with every name within the limit.\<close>

theorem modified_tables_roundtrip:
  "tdb_xa_tc_decode (Some d) = (True, ts) \<longleftrightarrow>
     names_ok ts \<and> length ts < 2 ^ 32 \<and> (\<exists>r. d = tdb_xa_tc_encode ts @ r)"
  using tc_decode_encode tc_decode_sound by metis


end
