(* ===== verification/Tdb_Lib.thy ===== *)
theory Tdb_Lib
  imports Prelude "HOL-Library.AList"
begin

text \<open>
  The storage library as the engine sees it. The library is not part of the repository, so its
  operations are a parameter: a record of functions over a state \<open>'l\<close>. A transaction, an iterator
  and a column family are numbers, the handles the library hands out; an operation returns the
  library's code and the next state. What the engine relies on is stated as contracts: \<open>lib_owns\<close>
  for the life time of handles, \<open>lib_stores\<close> for what a transaction reads and for savepoints,
  \<open>lib_commits\<close> for durability, and \<open>lib_iterates\<close> for scans. The last section defines one concrete
  library kept in memory and shows that it meets all of them, so the contracts can hold together.
  The theory also holds \<open>tdb_rc_to_ha\<close>, the map from library codes to the server's.
\<close>

section \<open>Codes\<close>

datatype tdb_rc =
    TDB_SUCCESS | TDB_ERR_MEMORY | TDB_ERR_INVALID_ARGS | TDB_ERR_NOT_FOUND | TDB_ERR_IO
  | TDB_ERR_CORRUPTION | TDB_ERR_EXISTS | TDB_ERR_CONFLICT | TDB_ERR_TOO_LARGE
  | TDB_ERR_MEMORY_LIMIT | TDB_ERR_INVALID_DB | TDB_ERR_UNKNOWN | TDB_ERR_LOCKED
  | TDB_ERR_READONLY | TDB_ERR_TXN_ABORTED | TDB_ERR_TXN_EXPIRED | TDB_ERR_OTHER nat

datatype ha_rc =
    HA_OK | HA_ERR_LOCK_DEADLOCK | HA_ERR_LOCK_WAIT_TIMEOUT | HA_ERR_OUT_OF_MEM
  | HA_ERR_KEY_NOT_FOUND | HA_ERR_FOUND_DUPP_KEY | HA_ERR_READ_ONLY_TRANSACTION | HA_ERR_CRASHED
  | HA_ERR_TO_BIG_ROW | HA_ERR_INTERNAL_ERROR | HA_ERR_GENERIC | HA_ERR_NO_SAVEPOINT
  | HA_ERR_END_OF_FILE | HA_ERR_WRONG_COMMAND | HA_ERR_UNSUPPORTED | HA_ERR_NO_REFERENCED_ROW
  | HA_ERR_ROW_IS_REFERENCED | HA_ERR_OTHER nat

fun tdb_rc_to_ha :: "tdb_rc \<Rightarrow> ha_rc" where
  "tdb_rc_to_ha TDB_SUCCESS = HA_OK"
| "tdb_rc_to_ha TDB_ERR_CONFLICT = HA_ERR_LOCK_DEADLOCK"
| "tdb_rc_to_ha TDB_ERR_TXN_ABORTED = HA_ERR_LOCK_DEADLOCK"
| "tdb_rc_to_ha TDB_ERR_TXN_EXPIRED = HA_ERR_LOCK_WAIT_TIMEOUT"
| "tdb_rc_to_ha TDB_ERR_LOCKED = HA_ERR_LOCK_WAIT_TIMEOUT"
| "tdb_rc_to_ha TDB_ERR_MEMORY_LIMIT = HA_ERR_LOCK_WAIT_TIMEOUT"
| "tdb_rc_to_ha TDB_ERR_MEMORY = HA_ERR_OUT_OF_MEM"
| "tdb_rc_to_ha TDB_ERR_NOT_FOUND = HA_ERR_KEY_NOT_FOUND"
| "tdb_rc_to_ha TDB_ERR_EXISTS = HA_ERR_FOUND_DUPP_KEY"
| "tdb_rc_to_ha TDB_ERR_READONLY = HA_ERR_READ_ONLY_TRANSACTION"
| "tdb_rc_to_ha TDB_ERR_IO = HA_ERR_CRASHED"
| "tdb_rc_to_ha TDB_ERR_CORRUPTION = HA_ERR_CRASHED"
| "tdb_rc_to_ha TDB_ERR_TOO_LARGE = HA_ERR_TO_BIG_ROW"
| "tdb_rc_to_ha TDB_ERR_INVALID_DB = HA_ERR_INTERNAL_ERROR"
| "tdb_rc_to_ha TDB_ERR_INVALID_ARGS = HA_ERR_INTERNAL_ERROR"
| "tdb_rc_to_ha TDB_ERR_UNKNOWN = HA_ERR_LOCK_DEADLOCK"
| "tdb_rc_to_ha (TDB_ERR_OTHER _) = HA_ERR_GENERIC"

lemma rc_to_ha_ok [simp]: "tdb_rc_to_ha rc = HA_OK \<longleftrightarrow> rc = TDB_SUCCESS"
  by (cases rc) simp_all

section \<open>The library's operations\<close>

datatype tdb_iso =
  TDB_ISOLATION_READ_UNCOMMITTED | TDB_ISOLATION_READ_COMMITTED | TDB_ISOLATION_REPEATABLE_READ
  | TDB_ISOLATION_SNAPSHOT | TDB_ISOLATION_SERIALIZABLE

datatype tdb_txn_state = TDB_TXN_STATE_ACTIVE | TDB_TXN_STATE_PREPARED | TDB_TXN_STATE_DONE

type_synonym txn = nat
type_synonym iter = nat
type_synonym cf = nat
type_synonym place = "cf \<times> bytes"
type_synonym store = "place \<rightharpoonup> bytes"

record 'l tdb_lib =
  txn_begin :: "'l \<Rightarrow> tdb_rc \<times> txn option \<times> 'l"
  txn_begin_iso :: "tdb_iso \<Rightarrow> 'l \<Rightarrow> tdb_rc \<times> txn option \<times> 'l"
  txn_reset :: "txn \<Rightarrow> tdb_iso \<Rightarrow> 'l \<Rightarrow> tdb_rc \<times> 'l"
  txn_free :: "txn \<Rightarrow> 'l \<Rightarrow> 'l"
  txn_state :: "txn \<Rightarrow> 'l \<Rightarrow> tdb_txn_state option"
  txn_commit :: "txn \<Rightarrow> 'l \<Rightarrow> tdb_rc \<times> 'l"
  txn_rollback :: "txn \<Rightarrow> 'l \<Rightarrow> tdb_rc \<times> 'l"
  txn_commit_prepared :: "txn \<Rightarrow> 'l \<Rightarrow> tdb_rc \<times> 'l"
  txn_rollback_prepared :: "txn \<Rightarrow> 'l \<Rightarrow> tdb_rc \<times> 'l"
  txn_prepare :: "txn \<Rightarrow> bytes \<Rightarrow> 'l \<Rightarrow> tdb_rc \<times> 'l"
  txn_savepoint :: "txn \<Rightarrow> string \<Rightarrow> 'l \<Rightarrow> tdb_rc \<times> 'l"
  txn_rollback_to_savepoint :: "txn \<Rightarrow> string \<Rightarrow> 'l \<Rightarrow> tdb_rc \<times> 'l"
  txn_release_savepoint :: "txn \<Rightarrow> string \<Rightarrow> 'l \<Rightarrow> tdb_rc \<times> 'l"
  txn_get :: "txn \<Rightarrow> cf \<Rightarrow> bytes \<Rightarrow> 'l \<Rightarrow> tdb_rc \<times> bytes option \<times> 'l"
  txn_contains :: "txn \<Rightarrow> cf \<Rightarrow> bytes \<Rightarrow> 'l \<Rightarrow> tdb_rc \<times> 'l"
  txn_put :: "txn \<Rightarrow> cf \<Rightarrow> bytes \<Rightarrow> bytes \<Rightarrow> int \<Rightarrow> 'l \<Rightarrow> tdb_rc \<times> 'l"
  txn_delete :: "txn \<Rightarrow> cf \<Rightarrow> bytes \<Rightarrow> 'l \<Rightarrow> tdb_rc \<times> 'l"
  txn_single_delete :: "txn \<Rightarrow> cf \<Rightarrow> bytes \<Rightarrow> 'l \<Rightarrow> tdb_rc \<times> 'l"
  txn_delete_range :: "txn \<Rightarrow> cf \<Rightarrow> bytes \<Rightarrow> bytes \<Rightarrow> 'l \<Rightarrow> tdb_rc \<times> 'l"
  recover_count :: "'l \<Rightarrow> tdb_rc \<times> int \<times> 'l"
  recover_prepared :: "int \<Rightarrow> 'l \<Rightarrow> tdb_rc \<times> (bytes \<times> txn) list \<times> 'l"
  get_column_family :: "string \<Rightarrow> 'l \<Rightarrow> cf option"
  create_column_family :: "string \<Rightarrow> 'l \<Rightarrow> tdb_rc \<times> 'l"
  drop_column_family :: "string \<Rightarrow> 'l \<Rightarrow> tdb_rc \<times> 'l"
  rename_column_family :: "string \<Rightarrow> string \<Rightarrow> 'l \<Rightarrow> tdb_rc \<times> 'l"
  list_column_families :: "'l \<Rightarrow> tdb_rc \<times> string list"
  compact_range :: "cf \<Rightarrow> bytes \<Rightarrow> bytes \<Rightarrow> 'l \<Rightarrow> tdb_rc \<times> 'l"
  iter_new :: "txn \<Rightarrow> cf \<Rightarrow> 'l \<Rightarrow> tdb_rc \<times> iter option \<times> 'l"
  iter_new_range :: "txn \<Rightarrow> cf \<Rightarrow> bytes \<Rightarrow> bytes \<Rightarrow> 'l \<Rightarrow> tdb_rc \<times> iter option \<times> 'l"
  iter_free :: "iter \<Rightarrow> 'l \<Rightarrow> 'l"
  iter_seek_to_first :: "iter \<Rightarrow> 'l \<Rightarrow> 'l"
  iter_seek_to_last :: "iter \<Rightarrow> 'l \<Rightarrow> 'l"
  iter_seek :: "iter \<Rightarrow> bytes \<Rightarrow> 'l \<Rightarrow> 'l"
  iter_seek_for_prev :: "iter \<Rightarrow> bytes \<Rightarrow> 'l \<Rightarrow> 'l"
  iter_next :: "iter \<Rightarrow> 'l \<Rightarrow> 'l"
  iter_prev :: "iter \<Rightarrow> 'l \<Rightarrow> 'l"
  iter_valid :: "iter \<Rightarrow> 'l \<Rightarrow> bool"
  iter_key :: "iter \<Rightarrow> 'l \<Rightarrow> tdb_rc \<times> bytes"
  iter_value :: "iter \<Rightarrow> 'l \<Rightarrow> tdb_rc \<times> bytes"

section \<open>Contracts\<close>

text \<open>
  The life time of handles. \<open>g_live\<close> and \<open>g_iters\<close> are the transactions and iterators that exist,
  \<open>g_ok\<close> any property of the library's state that a call keeps if the handle it is given exists. A
  library that detects a call through a dead handle is the case \<open>g_ok = no such call happened\<close>.
\<close>

record 'l lib_ghost =
  g_live :: "'l \<Rightarrow> txn set"
  g_iters :: "'l \<Rightarrow> iter set"
  g_ok :: "'l \<Rightarrow> bool"

definition same_handles :: "'l lib_ghost \<Rightarrow> 'l \<Rightarrow> 'l \<Rightarrow> bool" where
  "same_handles g l l' \<longleftrightarrow> g_live g l' = g_live g l \<and> g_iters g l' = g_iters g l"

definition own_plain :: "'l lib_ghost \<Rightarrow> 'l \<Rightarrow> 'l \<Rightarrow> bool" where
  "own_plain g l l' \<longleftrightarrow> same_handles g l l' \<and> (g_ok g l \<longrightarrow> g_ok g l')"

definition own_txn :: "'l lib_ghost \<Rightarrow> txn \<Rightarrow> 'l \<Rightarrow> 'l \<Rightarrow> bool" where
  "own_txn g h l l' \<longleftrightarrow> same_handles g l l' \<and> (h \<in> g_live g l \<longrightarrow> g_ok g l \<longrightarrow> g_ok g l')"

definition own_iter :: "'l lib_ghost \<Rightarrow> iter \<Rightarrow> 'l \<Rightarrow> 'l \<Rightarrow> bool" where
  "own_iter g it l l' \<longleftrightarrow> same_handles g l l' \<and> (it \<in> g_iters g l \<longrightarrow> g_ok g l \<longrightarrow> g_ok g l')"

definition own_begin :: "'l lib_ghost \<Rightarrow> 'l \<Rightarrow> tdb_rc \<Rightarrow> txn option \<Rightarrow> 'l \<Rightarrow> bool" where
  "own_begin g l rc out l' \<longleftrightarrow>
     g_iters g l' = g_iters g l \<and> (g_ok g l \<longrightarrow> g_ok g l') \<and>
     (if rc = TDB_SUCCESS
      then \<exists>h. out = Some h \<and> h \<notin> g_live g l \<and> g_live g l' = insert h (g_live g l)
      else out = None \<and> g_live g l' = g_live g l)"

definition own_free :: "'l lib_ghost \<Rightarrow> txn \<Rightarrow> 'l \<Rightarrow> 'l \<Rightarrow> bool" where
  "own_free g h l l' \<longleftrightarrow>
     g_live g l' = g_live g l - {h} \<and> g_iters g l' = g_iters g l \<and>
     (h \<in> g_live g l \<longrightarrow> g_ok g l \<longrightarrow> g_ok g l')"

definition own_iter_new :: "'l lib_ghost \<Rightarrow> txn \<Rightarrow> 'l \<Rightarrow> tdb_rc \<Rightarrow> iter option \<Rightarrow> 'l \<Rightarrow> bool" where
  "own_iter_new g h l rc out l' \<longleftrightarrow>
     (rc \<noteq> TDB_SUCCESS \<longrightarrow> out = None) \<and>
     g_live g l' = g_live g l \<and> (h \<in> g_live g l \<longrightarrow> g_ok g l \<longrightarrow> g_ok g l') \<and>
     (case out of None \<Rightarrow> g_iters g l' = g_iters g l
        | Some it \<Rightarrow> it \<notin> g_iters g l \<and> g_iters g l' = insert it (g_iters g l))"

definition own_iter_free :: "'l lib_ghost \<Rightarrow> iter \<Rightarrow> 'l \<Rightarrow> 'l \<Rightarrow> bool" where
  "own_iter_free g it l l' \<longleftrightarrow>
     g_live g l' = g_live g l \<and> g_iters g l' = g_iters g l - {it} \<and>
     (it \<in> g_iters g l \<longrightarrow> g_ok g l \<longrightarrow> g_ok g l')"

text \<open>
  \<open>D\<close> is the set of transactions the library found in doubt when it was opened; only those are ever
  handed out by recovery.
\<close>

definition lib_owns :: "'l tdb_lib \<Rightarrow> 'l lib_ghost \<Rightarrow> txn set \<Rightarrow> bool" where
  "lib_owns lib g D \<longleftrightarrow>
     (\<forall>l rc out l'. txn_begin lib l = (rc, out, l') \<longrightarrow> own_begin g l rc out l') \<and>
     (\<forall>lv l rc out l'. txn_begin_iso lib lv l = (rc, out, l') \<longrightarrow> own_begin g l rc out l') \<and>
     (\<forall>h l. own_free g h l (txn_free lib h l)) \<and>
     (\<forall>h lv l. own_txn g h l (snd (txn_reset lib h lv l))) \<and>
     (\<forall>h l. own_txn g h l (snd (txn_commit lib h l))) \<and>
     (\<forall>h l. own_txn g h l (snd (txn_rollback lib h l))) \<and>
     (\<forall>h l. own_txn g h l (snd (txn_commit_prepared lib h l))) \<and>
     (\<forall>h l. own_txn g h l (snd (txn_rollback_prepared lib h l))) \<and>
     (\<forall>h x l. own_txn g h l (snd (txn_prepare lib h x l))) \<and>
     (\<forall>h n l. own_txn g h l (snd (txn_savepoint lib h n l))) \<and>
     (\<forall>h n l. own_txn g h l (snd (txn_rollback_to_savepoint lib h n l))) \<and>
     (\<forall>h n l. own_txn g h l (snd (txn_release_savepoint lib h n l))) \<and>
     (\<forall>h c k l. own_txn g h l (snd (snd (txn_get lib h c k l)))) \<and>
     (\<forall>h c k l. own_txn g h l (snd (txn_contains lib h c k l))) \<and>
     (\<forall>h c k v t l. own_txn g h l (snd (txn_put lib h c k v t l))) \<and>
     (\<forall>h c k l. own_txn g h l (snd (txn_delete lib h c k l))) \<and>
     (\<forall>h c k l. own_txn g h l (snd (txn_single_delete lib h c k l))) \<and>
     (\<forall>h c a b l. own_txn g h l (snd (txn_delete_range lib h c a b l))) \<and>
     (\<forall>l. own_plain g l (snd (snd (recover_count lib l)))) \<and>
     (\<forall>n l rc xs l'. recover_prepared lib n l = (rc, xs, l') \<longrightarrow>
        own_plain g l l' \<and> (rc = TDB_SUCCESS \<longrightarrow> distinct (map snd xs) \<and> set (map snd xs) \<subseteq> D)) \<and>
     (\<forall>n l. own_plain g l (snd (create_column_family lib n l))) \<and>
     (\<forall>c a b l. own_plain g l (snd (compact_range lib c a b l))) \<and>
     (\<forall>h c l rc out l'. iter_new lib h c l = (rc, out, l') \<longrightarrow> own_iter_new g h l rc out l') \<and>
     (\<forall>h c a b l rc out l'. iter_new_range lib h c a b l = (rc, out, l') \<longrightarrow> own_iter_new g h l rc out l') \<and>
     (\<forall>it l. own_iter_free g it l (iter_free lib it l)) \<and>
     (\<forall>it l. own_iter g it l (iter_seek_to_first lib it l)) \<and>
     (\<forall>it k l. own_iter g it l (iter_seek lib it k l)) \<and>
     (\<forall>it l. own_iter g it l (iter_next lib it l)) \<and>
     (\<forall>it l. own_iter g it l (iter_prev lib it l))"

text \<open>
  What a transaction holds: the store it reads, and the writes it will apply. Expiry of values is
  not part of the contract: the time-to-live argument of a put has no effect on it.
\<close>

type_synonym writes = "place \<rightharpoonup> bytes option"
type_synonym content = "store \<times> writes"

definition c_write :: "place \<Rightarrow> bytes option \<Rightarrow> content \<Rightarrow> content" where
  "c_write p v c = ((fst c)(p := v), (snd c)(p \<mapsto> v))"

definition in_range :: "cf \<Rightarrow> bytes \<Rightarrow> bytes \<Rightarrow> place \<Rightarrow> bool" where
  "in_range c a b p \<longleftrightarrow> fst p = c \<and> a \<le> snd p \<and> snd p < b"

definition apply_writes :: "writes \<Rightarrow> store \<Rightarrow> store" where
  "apply_writes w d = (\<lambda>p. case w p of None \<Rightarrow> d p | Some v \<Rightarrow> v)"

record 'l lib_sem =
  s_db :: "'l \<Rightarrow> store"
  s_txn :: "'l \<Rightarrow> txn \<Rightarrow> content"
  s_saved :: "'l \<Rightarrow> txn \<Rightarrow> string \<Rightarrow> content option"
  s_iter :: "'l \<Rightarrow> iter \<Rightarrow> ((bytes \<times> bytes) list \<times> int) option"

definition sem_same :: "'l lib_sem \<Rightarrow> 'l \<Rightarrow> 'l \<Rightarrow> bool" where
  "sem_same s l l' \<longleftrightarrow>
     s_db s l' = s_db s l \<and> s_txn s l' = s_txn s l \<and> s_saved s l' = s_saved s l \<and> s_iter s l' = s_iter s l"

definition sem_content :: "'l lib_sem \<Rightarrow> txn \<Rightarrow> content \<Rightarrow> 'l \<Rightarrow> 'l \<Rightarrow> bool" where
  "sem_content s h c l l' \<longleftrightarrow>
     s_db s l' = s_db s l \<and> s_txn s l' = (s_txn s l)(h := c) \<and> s_saved s l' = s_saved s l \<and>
     s_iter s l' = s_iter s l"

definition sem_write :: "'l lib_sem \<Rightarrow> txn \<Rightarrow> place \<Rightarrow> bytes option \<Rightarrow> tdb_rc \<Rightarrow> 'l \<Rightarrow> 'l \<Rightarrow> bool" where
  "sem_write s h p v rc l l' \<longleftrightarrow>
     (if rc = TDB_SUCCESS then sem_content s h (c_write p v (s_txn s l h)) l l' else sem_same s l l')"

text \<open>Only the one transaction changes, and the committed store does not.\<close>

definition sem_frame :: "'l lib_sem \<Rightarrow> txn \<Rightarrow> 'l \<Rightarrow> 'l \<Rightarrow> bool" where
  "sem_frame s h l l' \<longleftrightarrow>
     s_db s l' = s_db s l \<and> s_iter s l' = s_iter s l \<and>
     (\<forall>h'. h' \<noteq> h \<longrightarrow> s_txn s l' h' = s_txn s l h' \<and> s_saved s l' h' = s_saved s l h')"

definition sem_fresh :: "'l lib_sem \<Rightarrow> txn \<Rightarrow> 'l \<Rightarrow> 'l \<Rightarrow> bool" where
  "sem_fresh s h l l' \<longleftrightarrow>
     sem_frame s h l l' \<and> s_txn s l' h = (s_db s l, Map.empty) \<and> s_saved s l' h = Map.empty"

definition sem_commit :: "'l lib_sem \<Rightarrow> txn \<Rightarrow> tdb_rc \<Rightarrow> 'l \<Rightarrow> 'l \<Rightarrow> bool" where
  "sem_commit s h rc l l' \<longleftrightarrow>
     s_iter s l' = s_iter s l \<and>
     (\<forall>h'. h' \<noteq> h \<longrightarrow> s_txn s l' h' = s_txn s l h' \<and> s_saved s l' h' = s_saved s l h') \<and>
     s_db s l' = (if rc = TDB_SUCCESS then apply_writes (snd (s_txn s l h)) (s_db s l) else s_db s l)"

definition lib_stores :: "'l tdb_lib \<Rightarrow> 'l lib_sem \<Rightarrow> bool" where
  "lib_stores lib s \<longleftrightarrow>
     (\<forall>l h l'. txn_begin lib l = (TDB_SUCCESS, Some h, l') \<longrightarrow> sem_fresh s h l l') \<and>
     (\<forall>l rc h l'. txn_begin lib l = (rc, h, l') \<and> rc \<noteq> TDB_SUCCESS \<longrightarrow> sem_same s l l') \<and>
     (\<forall>lv l h l'. txn_begin_iso lib lv l = (TDB_SUCCESS, Some h, l') \<longrightarrow> sem_fresh s h l l') \<and>
     (\<forall>lv l rc h l'. txn_begin_iso lib lv l = (rc, h, l') \<and> rc \<noteq> TDB_SUCCESS \<longrightarrow> sem_same s l l') \<and>
     (\<forall>h lv l l'. txn_reset lib h lv l = (TDB_SUCCESS, l') \<longrightarrow> sem_fresh s h l l') \<and>
     (\<forall>h l. sem_frame s h l (txn_free lib h l)) \<and>
     (\<forall>h l. sem_frame s h l (snd (txn_rollback lib h l))) \<and>
     (\<forall>h l. sem_frame s h l (snd (txn_rollback_prepared lib h l))) \<and>
     (\<forall>h l rc l'. txn_commit lib h l = (rc, l') \<longrightarrow> sem_commit s h rc l l') \<and>
     (\<forall>h l rc l'. txn_commit_prepared lib h l = (rc, l') \<longrightarrow> sem_commit s h rc l l') \<and>
     (\<forall>h x l. sem_same s l (snd (txn_prepare lib h x l))) \<and>
     (\<forall>h c k l rc v l'. txn_get lib h c k l = (rc, v, l') \<longrightarrow>
        sem_same s l l' \<and> (rc = TDB_SUCCESS \<longrightarrow> v \<noteq> None \<and> v = fst (s_txn s l h) (c, k)) \<and>
        (rc = TDB_ERR_NOT_FOUND \<longrightarrow> fst (s_txn s l h) (c, k) = None)) \<and>
     (\<forall>h c k l rc l'. txn_contains lib h c k l = (rc, l') \<longrightarrow>
        sem_same s l l' \<and> (rc = TDB_SUCCESS \<longrightarrow> fst (s_txn s l h) (c, k) \<noteq> None) \<and>
        (rc = TDB_ERR_NOT_FOUND \<longrightarrow> fst (s_txn s l h) (c, k) = None)) \<and>
     (\<forall>h c k v t l rc l'. txn_put lib h c k v t l = (rc, l') \<longrightarrow> sem_write s h (c, k) (Some v) rc l l') \<and>
     (\<forall>h c k l rc l'. txn_delete lib h c k l = (rc, l') \<longrightarrow> sem_write s h (c, k) None rc l l') \<and>
     (\<forall>h c k l rc l'. txn_single_delete lib h c k l = (rc, l') \<longrightarrow> sem_write s h (c, k) None rc l l')"

text \<open>Savepoints: setting one remembers the content, rolling back restores it, releasing forgets it.\<close>

definition lib_savepoints :: "'l tdb_lib \<Rightarrow> 'l lib_sem \<Rightarrow> bool" where
  "lib_savepoints lib s \<longleftrightarrow>
     (\<forall>h n l rc l'. txn_savepoint lib h n l = (rc, l') \<longrightarrow>
        (if rc = TDB_SUCCESS
         then s_db s l' = s_db s l \<and> s_txn s l' = s_txn s l \<and> s_iter s l' = s_iter s l \<and>
              s_saved s l' = (s_saved s l)(h := (s_saved s l h)(n \<mapsto> s_txn s l h))
         else sem_same s l l')) \<and>
     (\<forall>h n l rc l'. txn_rollback_to_savepoint lib h n l = (rc, l') \<longrightarrow>
        (case s_saved s l h n of
           None \<Rightarrow> rc \<noteq> TDB_SUCCESS \<and> sem_same s l l'
         | Some c \<Rightarrow> rc = TDB_SUCCESS \<and> sem_frame s h l l' \<and> s_txn s l' h = c)) \<and>
     (\<forall>h n l rc l'. txn_release_savepoint lib h n l = (rc, l') \<longrightarrow>
        s_db s l' = s_db s l \<and> s_txn s l' = s_txn s l \<and> s_iter s l' = s_iter s l \<and>
        s_saved s l' h n = None \<and> s_saved s l' h \<subseteq>\<^sub>m s_saved s l h \<and>
        (\<forall>h'. h' \<noteq> h \<longrightarrow> s_saved s l' h' = s_saved s l h'))"

text \<open>
  Scans: an iterator is the sorted list of the entries its transaction saw when it was opened, with
  a position; it is valid while the position is inside.
\<close>

definition es_sorted :: "(bytes \<times> bytes) list \<Rightarrow> bool" where
  "es_sorted es \<longleftrightarrow> sorted_wrt (<) (map fst es)"

definition it_seek :: "bytes \<Rightarrow> (bytes \<times> bytes) list \<times> int \<Rightarrow> (bytes \<times> bytes) list \<times> int" where
  "it_seek k c = (fst c, int (length (takeWhile (\<lambda>e. fst e < k) (fst c))))"

definition it_seek_for_prev :: "bytes \<Rightarrow> (bytes \<times> bytes) list \<times> int \<Rightarrow> (bytes \<times> bytes) list \<times> int" where
  "it_seek_for_prev k c = (fst c, int (length (takeWhile (\<lambda>e. fst e \<le> k) (fst c))) - 1)"

definition it_first :: "(bytes \<times> bytes) list \<times> int \<Rightarrow> (bytes \<times> bytes) list \<times> int" where
  "it_first c = (fst c, 0)"

definition it_last :: "(bytes \<times> bytes) list \<times> int \<Rightarrow> (bytes \<times> bytes) list \<times> int" where
  "it_last c = (fst c, int (length (fst c)) - 1)"

definition it_move :: "int \<Rightarrow> (bytes \<times> bytes) list \<times> int \<Rightarrow> (bytes \<times> bytes) list \<times> int" where
  "it_move d c = (fst c, snd c + d)"

definition it_valid :: "(bytes \<times> bytes) list \<times> int \<Rightarrow> bool" where
  "it_valid c \<longleftrightarrow> 0 \<le> snd c \<and> snd c < int (length (fst c))"

definition sem_iter_set :: "'l lib_sem \<Rightarrow> iter \<Rightarrow> ((bytes \<times> bytes) list \<times> int) option \<Rightarrow> 'l \<Rightarrow> 'l \<Rightarrow> bool" where
  "sem_iter_set s it c l l' \<longleftrightarrow>
     s_db s l' = s_db s l \<and> s_txn s l' = s_txn s l \<and> s_saved s l' = s_saved s l \<and>
     s_iter s l' = (s_iter s l)(it := c)"

definition sem_opened :: "'l lib_sem \<Rightarrow> (bytes \<Rightarrow> bytes option) \<Rightarrow> tdb_rc \<Rightarrow> iter option \<Rightarrow> 'l \<Rightarrow> 'l \<Rightarrow> bool" where
  "sem_opened s m rc out l l' \<longleftrightarrow>
     (case out of
        None \<Rightarrow> sem_same s l l'
      | Some it \<Rightarrow> \<exists>es. es_sorted es \<and> map_of es = m \<and> sem_iter_set s it (Some (es, -1)) l l')"

definition lib_iterates :: "'l tdb_lib \<Rightarrow> 'l lib_sem \<Rightarrow> bool" where
  "lib_iterates lib s \<longleftrightarrow>
     (\<forall>h c l rc out l'. iter_new lib h c l = (rc, out, l') \<longrightarrow>
        sem_opened s (\<lambda>k. fst (s_txn s l h) (c, k)) rc out l l') \<and>
     (\<forall>h c a b l rc out l'. iter_new_range lib h c a b l = (rc, out, l') \<longrightarrow>
        sem_opened s (\<lambda>k. if in_range c a b (c, k) then fst (s_txn s l h) (c, k) else None) rc out l l') \<and>
     (\<forall>it l. sem_iter_set s it None l (iter_free lib it l)) \<and>
     (\<forall>it l. sem_iter_set s it (map_option it_first (s_iter s l it)) l (iter_seek_to_first lib it l)) \<and>
     (\<forall>it l. sem_iter_set s it (map_option it_last (s_iter s l it)) l (iter_seek_to_last lib it l)) \<and>
     (\<forall>it k l. sem_iter_set s it (map_option (it_seek k) (s_iter s l it)) l (iter_seek lib it k l)) \<and>
     (\<forall>it k l. sem_iter_set s it (map_option (it_seek_for_prev k) (s_iter s l it)) l (iter_seek_for_prev lib it k l)) \<and>
     (\<forall>it c l. s_iter s l it = Some c \<and> it_valid c \<longrightarrow>
        sem_iter_set s it (Some (it_move 1 c)) l (iter_next lib it l)) \<and>
     (\<forall>it c l. s_iter s l it = Some c \<and> it_valid c \<longrightarrow>
        sem_iter_set s it (Some (it_move (-1) c)) l (iter_prev lib it l)) \<and>
     (\<forall>it c l. s_iter s l it = Some c \<longrightarrow>
        iter_valid lib it l = it_valid c \<and>
        (it_valid c \<longrightarrow> iter_key lib it l = (TDB_SUCCESS, fst (fst c ! nat (snd c))) \<and>
                       iter_value lib it l = (TDB_SUCCESS, snd (fst c ! nat (snd c))))) \<and>
     (\<forall>h c a b l rc l'. txn_delete_range lib h c a b l = (rc, l') \<longrightarrow>
        (if rc = TDB_SUCCESS
         then sem_frame s h l l' \<and> s_saved s l' h = s_saved s l h \<and>
              fst (s_txn s l' h) = (\<lambda>p. if in_range c a b p then None else fst (s_txn s l h) p)
         else sem_same s l l'))"

section \<open>A library in memory\<close>

text \<open>
  One library that meets the contracts: everything is an association list. The list of faults lets
  the operations that can fail do so, in order; a call through a handle that does not exist is
  remembered in \<open>m_bad\<close>. The in-doubt transactions \<open>R\<close> are a parameter.
\<close>

type_synonym astore = "(place \<times> bytes) list"
type_synonym acontent = "astore \<times> (place \<times> bytes option) list"

record mtxn =
  mt_content :: acontent
  mt_saved :: "(string \<times> acontent) list"
  mt_state :: tdb_txn_state

record mem =
  m_db :: astore
  m_next :: nat
  m_txns :: "(txn \<times> mtxn) list"
  m_iters :: "(iter \<times> ((bytes \<times> bytes) list \<times> int)) list"
  m_cfs :: "(string \<times> cf) list"
  m_faults :: "tdb_rc list"
  m_bad :: bool

definition mem_init :: mem where
  "mem_init = \<lparr>m_db = [], m_next = 100, m_txns = [], m_iters = [], m_cfs = [], m_faults = [], m_bad = False\<rparr>"

definition a_write :: "place \<Rightarrow> bytes option \<Rightarrow> acontent \<Rightarrow> acontent" where
  "a_write p v c =
     ((case v of None \<Rightarrow> AList.delete p (fst c) | Some x \<Rightarrow> AList.update p x (fst c)), AList.update p v (snd c))"

definition a_apply :: "(place \<times> bytes option) list \<Rightarrow> astore \<Rightarrow> astore" where
  "a_apply w d = foldr (\<lambda>(p, v) d. case v of None \<Rightarrow> AList.delete p d | Some x \<Rightarrow> AList.update p x d) w d"

definition m_faulty :: "mem \<Rightarrow> (mem \<Rightarrow> tdb_rc \<times> mem) \<Rightarrow> tdb_rc \<times> mem" where
  "m_faulty m f =
     (case m_faults m of
        [] \<Rightarrow> f m
      | r # rs \<Rightarrow> if r = TDB_SUCCESS then f (m\<lparr>m_faults := rs\<rparr>) else (r, m\<lparr>m_faults := rs\<rparr>))"

definition m_on :: "txn \<Rightarrow> (mtxn \<Rightarrow> mem \<Rightarrow> tdb_rc \<times> mem) \<Rightarrow> mem \<Rightarrow> tdb_rc \<times> mem" where
  "m_on h f m =
     (case map_of (m_txns m) h of
        None \<Rightarrow> (TDB_ERR_INVALID_ARGS, m\<lparr>m_bad := True\<rparr>)
      | Some t \<Rightarrow> f t m)"

definition m_set :: "txn \<Rightarrow> mtxn \<Rightarrow> mem \<Rightarrow> mem" where
  "m_set h t m = m\<lparr>m_txns := AList.update h t (m_txns m)\<rparr>"

definition m_fresh :: "mem \<Rightarrow> mtxn" where
  "m_fresh m = \<lparr>mt_content = (m_db m, []), mt_saved = [], mt_state = TDB_TXN_STATE_ACTIVE\<rparr>"

definition m_ids :: "mem \<Rightarrow> nat set" where
  "m_ids m = fst ` set (m_txns m)"

definition m_new_id :: "mem \<Rightarrow> nat" where
  "m_new_id m = foldr max (map (Suc \<circ> fst) (m_txns m)) (m_next m)"

definition m_begin :: "mem \<Rightarrow> tdb_rc \<times> txn option \<times> mem" where
  "m_begin m =
     (case m_faulty m (\<lambda>m. (TDB_SUCCESS, m)) of
        (rc, m') \<Rightarrow>
          if rc = TDB_SUCCESS
          then (TDB_SUCCESS, Some (m_new_id m'), m_set (m_new_id m') (m_fresh m') m')
          else (rc, None, m'))"

definition m_reset :: "txn \<Rightarrow> tdb_iso \<Rightarrow> mem \<Rightarrow> tdb_rc \<times> mem" where
  "m_reset h lv = m_on h (\<lambda>t m. m_faulty m (\<lambda>m. (TDB_SUCCESS, m_set h (m_fresh m) m)))"

definition m_free :: "txn \<Rightarrow> mem \<Rightarrow> mem" where
  "m_free h m = snd (m_on h (\<lambda>t m. (TDB_SUCCESS, m\<lparr>m_txns := AList.delete h (m_txns m)\<rparr>)) m)"

definition m_finish :: "txn \<Rightarrow> mtxn \<Rightarrow> mem \<Rightarrow> tdb_rc \<times> mem" where
  "m_finish h t m =
     (TDB_SUCCESS,
      m_set h (t\<lparr>mt_state := TDB_TXN_STATE_DONE\<rparr>) (m\<lparr>m_db := a_apply (snd (mt_content t)) (m_db m)\<rparr>))"

definition m_commit :: "txn \<Rightarrow> mem \<Rightarrow> tdb_rc \<times> mem" where
  "m_commit h = m_on h (\<lambda>t m. m_faulty m (m_finish h t))"

definition m_drop :: "txn \<Rightarrow> mem \<Rightarrow> tdb_rc \<times> mem" where
  "m_drop h m = (TDB_SUCCESS, m_set h ((m_fresh m)\<lparr>mt_state := TDB_TXN_STATE_DONE\<rparr>) m)"

definition m_rollback :: "txn \<Rightarrow> mem \<Rightarrow> tdb_rc \<times> mem" where
  "m_rollback h = m_on h (\<lambda>t m. m_drop h m)"

definition m_prepared :: "mtxn \<Rightarrow> (mem \<Rightarrow> tdb_rc \<times> mem) \<Rightarrow> mem \<Rightarrow> tdb_rc \<times> mem" where
  "m_prepared t f m = (if mt_state t = TDB_TXN_STATE_PREPARED then f m else (TDB_ERR_INVALID_ARGS, m))"

definition m_commit_prepared :: "txn \<Rightarrow> mem \<Rightarrow> tdb_rc \<times> mem" where
  "m_commit_prepared h = m_on h (\<lambda>t m. m_faulty m (m_prepared t (m_finish h t)))"

definition m_rollback_prepared :: "txn \<Rightarrow> mem \<Rightarrow> tdb_rc \<times> mem" where
  "m_rollback_prepared h = m_on h (\<lambda>t m. m_faulty m (m_prepared t (m_drop h)))"

definition m_prepare :: "txn \<Rightarrow> bytes \<Rightarrow> mem \<Rightarrow> tdb_rc \<times> mem" where
  "m_prepare h x =
     m_on h (\<lambda>t m. m_faulty m (\<lambda>m. (TDB_SUCCESS, m_set h (t\<lparr>mt_state := TDB_TXN_STATE_PREPARED\<rparr>) m)))"

definition m_savepoint :: "txn \<Rightarrow> string \<Rightarrow> mem \<Rightarrow> tdb_rc \<times> mem" where
  "m_savepoint h n =
     m_on h (\<lambda>t m. (TDB_SUCCESS, m_set h (t\<lparr>mt_saved := AList.update n (mt_content t) (mt_saved t)\<rparr>) m))"

definition m_rollback_to :: "txn \<Rightarrow> string \<Rightarrow> mem \<Rightarrow> tdb_rc \<times> mem" where
  "m_rollback_to h n =
     m_on h (\<lambda>t m. case map_of (mt_saved t) n of
        None \<Rightarrow> (TDB_ERR_NOT_FOUND, m)
      | Some c \<Rightarrow> (TDB_SUCCESS, m_set h (t\<lparr>mt_content := c\<rparr>) m))"

definition m_release :: "txn \<Rightarrow> string \<Rightarrow> mem \<Rightarrow> tdb_rc \<times> mem" where
  "m_release h n =
     m_on h (\<lambda>t m. case map_of (mt_saved t) n of
        None \<Rightarrow> (TDB_ERR_NOT_FOUND, m)
      | Some c \<Rightarrow> (TDB_SUCCESS, m_set h (t\<lparr>mt_saved := AList.delete n (mt_saved t)\<rparr>) m))"

definition m_get :: "txn \<Rightarrow> cf \<Rightarrow> bytes \<Rightarrow> mem \<Rightarrow> tdb_rc \<times> bytes option \<times> mem" where
  "m_get h c k m =
     (case map_of (m_txns m) h of
        None \<Rightarrow> (TDB_ERR_INVALID_ARGS, None, m\<lparr>m_bad := True\<rparr>)
      | Some t \<Rightarrow>
          (case map_of (fst (mt_content t)) (c, k) of
             None \<Rightarrow> (TDB_ERR_NOT_FOUND, None, m)
           | Some v \<Rightarrow> (TDB_SUCCESS, Some v, m)))"

definition m_write :: "txn \<Rightarrow> place \<Rightarrow> bytes option \<Rightarrow> mem \<Rightarrow> tdb_rc \<times> mem" where
  "m_write h p v =
     m_on h (\<lambda>t m. m_faulty m (\<lambda>m. (TDB_SUCCESS, m_set h (t\<lparr>mt_content := a_write p v (mt_content t)\<rparr>) m)))"

definition m_delete_range :: "txn \<Rightarrow> cf \<Rightarrow> bytes \<Rightarrow> bytes \<Rightarrow> mem \<Rightarrow> tdb_rc \<times> mem" where
  "m_delete_range h c a b =
     m_on h (\<lambda>t m.
       let inr = filter (\<lambda>e. in_range c a b (fst e)) (fst (mt_content t))
       in (TDB_SUCCESS, m_set h (t\<lparr>mt_content := (filter (\<lambda>e. \<not> in_range c a b (fst e)) (fst (mt_content t)),
              map (\<lambda>e. (fst e, None)) inr @ snd (mt_content t))\<rparr>) m))"

definition a_entries :: "cf \<Rightarrow> (bytes \<Rightarrow> bool) \<Rightarrow> astore \<Rightarrow> (bytes \<times> bytes) list" where
  "a_entries c q d =
     sort_key fst (AList.clearjunk (map (\<lambda>e. (snd (fst e), snd e)) (filter (\<lambda>e. fst (fst e) = c \<and> q (snd (fst e))) d)))"

definition m_iter_id :: "mem \<Rightarrow> nat" where
  "m_iter_id m = foldr max (map (Suc \<circ> fst) (m_iters m)) 0"

definition m_iter_open :: "txn \<Rightarrow> cf \<Rightarrow> (bytes \<Rightarrow> bool) \<Rightarrow> mem \<Rightarrow> tdb_rc \<times> iter option \<times> mem" where
  "m_iter_open h c q m =
     (case map_of (m_txns m) h of
        None \<Rightarrow> (TDB_ERR_INVALID_ARGS, None, m\<lparr>m_bad := True\<rparr>)
      | Some t \<Rightarrow> (TDB_SUCCESS, Some (m_iter_id m),
          m\<lparr>m_iters := (m_iter_id m, (a_entries c q (fst (mt_content t)), -1)) # m_iters m\<rparr>))"

definition m_iter_map :: "iter \<Rightarrow> ((bytes \<times> bytes) list \<times> int \<Rightarrow> (bytes \<times> bytes) list \<times> int) \<Rightarrow> mem \<Rightarrow> mem" where
  "m_iter_map it f m =
     (case map_of (m_iters m) it of
        None \<Rightarrow> m\<lparr>m_bad := True\<rparr>
      | Some c \<Rightarrow> m\<lparr>m_iters := AList.update it (f c) (m_iters m)\<rparr>)"

definition m_iter_free :: "iter \<Rightarrow> mem \<Rightarrow> mem" where
  "m_iter_free it m =
     (case map_of (m_iters m) it of
        None \<Rightarrow> m\<lparr>m_bad := True\<rparr>
      | Some c \<Rightarrow> m\<lparr>m_iters := AList.delete it (m_iters m)\<rparr>)"

definition m_iter_read :: "(bytes \<times> bytes \<Rightarrow> bytes) \<Rightarrow> iter \<Rightarrow> mem \<Rightarrow> tdb_rc \<times> bytes" where
  "m_iter_read f it m =
     (case map_of (m_iters m) it of
        None \<Rightarrow> (TDB_ERR_INVALID_ARGS, [])
      | Some c \<Rightarrow> if it_valid c then (TDB_SUCCESS, f (fst c ! nat (snd c))) else (TDB_ERR_INVALID_ARGS, []))"

definition m_create_cf :: "string \<Rightarrow> mem \<Rightarrow> tdb_rc \<times> mem" where
  "m_create_cf n m =
     (if map_of (m_cfs m) n \<noteq> None then (TDB_ERR_EXISTS, m)
      else (TDB_SUCCESS, m\<lparr>m_cfs := (n, foldr max (map (Suc \<circ> snd) (m_cfs m)) 0) # m_cfs m\<rparr>))"

definition m_drop_cf :: "string \<Rightarrow> mem \<Rightarrow> tdb_rc \<times> mem" where
  "m_drop_cf n m =
     (case map_of (m_cfs m) n of
        None \<Rightarrow> (TDB_ERR_NOT_FOUND, m)
      | Some c \<Rightarrow> (TDB_SUCCESS, m\<lparr>m_cfs := AList.delete n (m_cfs m), m_db := filter (\<lambda>e. fst (fst e) \<noteq> c) (m_db m)\<rparr>))"

definition m_rename_cf :: "string \<Rightarrow> string \<Rightarrow> mem \<Rightarrow> tdb_rc \<times> mem" where
  "m_rename_cf a b m =
     (case map_of (m_cfs m) a of
        None \<Rightarrow> (TDB_ERR_NOT_FOUND, m)
      | Some c \<Rightarrow>
          if map_of (m_cfs m) b \<noteq> None then (TDB_ERR_EXISTS, m)
          else (TDB_SUCCESS, m\<lparr>m_cfs := (b, c) # AList.delete a (m_cfs m)\<rparr>))"

definition mem_lib :: "(bytes \<times> txn) list \<Rightarrow> mem tdb_lib" where
  "mem_lib R =
     \<lparr>txn_begin = m_begin, txn_begin_iso = (\<lambda>lv. m_begin), txn_reset = m_reset, txn_free = m_free,
      txn_state = (\<lambda>h m. map_option mt_state (map_of (m_txns m) h)),
      txn_commit = m_commit, txn_rollback = m_rollback,
      txn_commit_prepared = m_commit_prepared, txn_rollback_prepared = m_rollback_prepared,
      txn_prepare = m_prepare, txn_savepoint = m_savepoint, txn_rollback_to_savepoint = m_rollback_to,
      txn_release_savepoint = m_release, txn_get = m_get, txn_contains = (\<lambda>h c k m. case m_get h c k m of (rc, _, m') \<Rightarrow> (rc, m')),
      txn_put = (\<lambda>h c k v t. m_write h (c, k) (Some v)),
      txn_delete = (\<lambda>h c k. m_write h (c, k) None), txn_single_delete = (\<lambda>h c k. m_write h (c, k) None),
      txn_delete_range = m_delete_range,
      recover_count = (\<lambda>m. (TDB_SUCCESS, int (length R), m)),
      recover_prepared = (\<lambda>n m. (TDB_SUCCESS, take (nat n) R, m)),
      get_column_family = (\<lambda>n m. map_of (m_cfs m) n), create_column_family = m_create_cf,
      drop_column_family = m_drop_cf, rename_column_family = m_rename_cf,
      list_column_families = (\<lambda>m. (TDB_SUCCESS, map fst (m_cfs m))),
      compact_range = (\<lambda>c a b m. (TDB_SUCCESS, m)),
      iter_new = (\<lambda>h c. m_iter_open h c (\<lambda>_. True)),
      iter_new_range = (\<lambda>h c a b. m_iter_open h c (\<lambda>k. a \<le> k \<and> k < b)),
      iter_free = m_iter_free,
      iter_seek_to_first = (\<lambda>it. m_iter_map it it_first), iter_seek_to_last = (\<lambda>it. m_iter_map it it_last),
      iter_seek = (\<lambda>it k. m_iter_map it (it_seek k)),
      iter_seek_for_prev = (\<lambda>it k. m_iter_map it (it_seek_for_prev k)),
      iter_next = (\<lambda>it. m_iter_map it (it_move 1)), iter_prev = (\<lambda>it. m_iter_map it (it_move (-1))),
      iter_valid = (\<lambda>it m. case map_of (m_iters m) it of None \<Rightarrow> False | Some c \<Rightarrow> it_valid c),
      iter_key = m_iter_read fst, iter_value = m_iter_read snd\<rparr>"

subsection \<open>It meets the contracts\<close>

definition mem_ghost :: "mem lib_ghost" where
  "mem_ghost = \<lparr>g_live = m_ids, g_iters = (\<lambda>m. fst ` set (m_iters m)), g_ok = (\<lambda>m. \<not> m_bad m)\<rparr>"

definition c_abs :: "acontent \<Rightarrow> content" where
  "c_abs c = (map_of (fst c), map_of (snd c))"

definition mem_sem :: "mem lib_sem" where
  "mem_sem =
     \<lparr>s_db = (\<lambda>m. map_of (m_db m)),
      s_txn = (\<lambda>m h. case map_of (m_txns m) h of None \<Rightarrow> (Map.empty, Map.empty) | Some t \<Rightarrow> c_abs (mt_content t)),
      s_saved = (\<lambda>m h n. case map_of (m_txns m) h of None \<Rightarrow> None | Some t \<Rightarrow> map_option c_abs (map_of (mt_saved t) n)),
      s_iter = (\<lambda>m. map_of (m_iters m))\<rparr>"

lemma foldr_max_new: "foldr max (map (Suc \<circ> fst) xs) n \<notin> fst ` set (xs :: (nat \<times> 'a) list)"
proof -
  have "x \<in> set xs \<Longrightarrow> fst x < foldr max (map (Suc \<circ> fst) xs) n" for x
    by (induction xs) (auto simp: less_max_iff_disj)
  then show ?thesis
    by force
qed

lemma m_set_fields [simp]:
  "m_ids (m_set h t m) = insert h (m_ids m)" "m_iters (m_set h t m) = m_iters m" "m_bad (m_set h t m) = m_bad m"
  "m_db (m_set h t m) = m_db m" "m_cfs (m_set h t m) = m_cfs m" "m_faults (m_set h t m) = m_faults m"
  "map_of (m_txns (m_set h t m)) = (map_of (m_txns m))(h \<mapsto> t)"
  by (simp_all add: m_ids_def m_set_def dom_update update_conv')

lemma m_ids_fields [simp]:
  "m_ids (m\<lparr>m_faults := rs\<rparr>) = m_ids m" "m_ids (m\<lparr>m_db := d\<rparr>) = m_ids m" "m_ids (m\<lparr>m_bad := x\<rparr>) = m_ids m"
  "m_ids (m\<lparr>m_iters := i\<rparr>) = m_ids m" "m_ids (m\<lparr>m_cfs := c\<rparr>) = m_ids m"
  by (simp_all add: m_ids_def)

lemma m_ids_iff: "h \<in> m_ids m \<longleftrightarrow> map_of (m_txns m) h \<noteq> None"
  by (simp add: m_ids_def map_of_eq_None_iff)

definition m_own :: "txn \<Rightarrow> mem \<Rightarrow> mem \<Rightarrow> bool" where
  "m_own h m m' \<longleftrightarrow> m_ids m' = insert h (m_ids m) \<and> m_iters m' = m_iters m \<and> m_bad m' = m_bad m"

lemma m_own_refl: "h \<in> m_ids m \<Longrightarrow> m_own h m m"
  by (simp add: m_own_def insert_absorb)

lemma m_on_own:
  assumes "\<And>t. h \<in> m_ids m \<Longrightarrow> map_of (m_txns m) h = Some t \<Longrightarrow> m_own h m (snd (f t m))"
  shows "own_txn mem_ghost h m (snd (m_on h f m))"
proof (cases "map_of (m_txns m) h")
  case None
  then show ?thesis
    using m_ids_iff [of h m] by (simp add: own_txn_def same_handles_def mem_ghost_def m_on_def)
next
  case (Some t)
  then have "h \<in> m_ids m"
    by (simp add: m_ids_iff)
  then show ?thesis
    using assms [of t] Some by (simp add: own_txn_def same_handles_def mem_ghost_def m_on_def m_own_def insert_absorb)
qed

lemma m_faulty_own:
  assumes "\<And>m. h \<in> m_ids m \<Longrightarrow> m_own h m (snd (f m))" and "h \<in> m_ids m"
  shows "m_own h m (snd (m_faulty m f))"
proof (cases "m_faults m")
  case Nil
  then show ?thesis
    using assms by (simp add: m_faulty_def)
next
  case (Cons r rs)
  then show ?thesis
    using assms(1) [of "m\<lparr>m_faults := rs\<rparr>"] assms(2) by (simp add: m_faulty_def m_own_def insert_absorb)
qed

lemma m_set_own [simp]: "m_own h m (m_set h t m)" "m_own h m (m_set h t (m\<lparr>m_db := d\<rparr>))"
  by (simp_all add: m_own_def)

lemma m_prepared_own: "m_own h m (snd (f m)) \<Longrightarrow> h \<in> m_ids m \<Longrightarrow> m_own h m (snd (m_prepared t f m))"
  by (simp add: m_prepared_def m_own_refl)

lemmas mem_op_defs = m_reset_def m_commit_def m_rollback_def m_commit_prepared_def m_rollback_prepared_def
  m_prepare_def m_savepoint_def m_rollback_to_def m_release_def m_write_def m_delete_range_def

lemma mem_txn_own:
  "own_txn mem_ghost h m (snd (m_reset h lv m))" "own_txn mem_ghost h m (snd (m_commit h m))"
  "own_txn mem_ghost h m (snd (m_rollback h m))" "own_txn mem_ghost h m (snd (m_commit_prepared h m))"
  "own_txn mem_ghost h m (snd (m_rollback_prepared h m))" "own_txn mem_ghost h m (snd (m_prepare h x m))"
  "own_txn mem_ghost h m (snd (m_savepoint h n m))" "own_txn mem_ghost h m (snd (m_rollback_to h n m))"
  "own_txn mem_ghost h m (snd (m_release h n m))" "own_txn mem_ghost h m (snd (m_write h p v m))"
  "own_txn mem_ghost h m (snd (m_delete_range h c a b m))"
  unfolding mem_op_defs
  by (rule m_on_own, auto intro!: m_faulty_own m_prepared_own simp: m_finish_def m_drop_def m_own_refl Let_def
      split: option.split)+

lemma mem_begin_own:
  assumes "m_begin m = (rc, out, m')"
  shows "own_begin mem_ghost m rc out m'"
proof -
  have new: "m_new_id m \<notin> m_ids m" for m
    unfolding m_new_id_def m_ids_def by (rule foldr_max_new)
  show ?thesis
    using assms new [of m] new [of "m\<lparr>m_faults := tl (m_faults m)\<rparr>"]
    by (cases "m_faults m") (auto simp: m_begin_def m_faulty_def own_begin_def mem_ghost_def split: if_splits)
qed

lemma m_ids_dom: "m_ids m = dom (map_of (m_txns m))"
  by (simp add: m_ids_def dom_map_of_conv_image_fst)

lemma m_iters_dom: "fst ` set (m_iters m) = dom (map_of (m_iters m))"
  by (simp add: dom_map_of_conv_image_fst)

lemma mem_free_own: "own_free mem_ghost h m (m_free h m)"
  by (cases "map_of (m_txns m) h") (auto simp: m_free_def m_on_def own_free_def mem_ghost_def m_ids_dom delete_conv')

lemma mem_iter_own:
  "own_iter mem_ghost it m (m_iter_map it f m)" "own_iter_free mem_ghost it m (m_iter_free it m)"
  by (cases "map_of (m_iters m) it";
      auto simp: m_iter_map_def m_iter_free_def own_iter_def own_iter_free_def same_handles_def mem_ghost_def m_iters_dom
        update_conv' delete_conv')+

lemma mem_iter_open_own:
  assumes "m_iter_open h c q m = (rc, out, m')"
  shows "own_iter_new mem_ghost h m rc out m'"
  using assms foldr_max_new [of "m_iters m" 0]
  by (cases "map_of (m_txns m) h") (auto simp: m_iter_open_def own_iter_new_def mem_ghost_def m_iter_id_def m_ids_iff)

lemma mem_get_own: "own_txn mem_ghost h m (snd (snd (m_get h c k m)))"
  by (cases "map_of (m_txns m) h")
    (auto simp: m_get_def own_txn_def same_handles_def mem_ghost_def m_ids_iff split: option.split)

lemma mem_contains_own: "own_txn mem_ghost h m (snd (case m_get h c k m of (rc, _, m') \<Rightarrow> (rc, m')))"
  using mem_get_own [of h m c k] by (simp add: split_beta)

lemma mem_lib_owns:
  assumes "distinct (map snd R)"
  shows "lib_owns (mem_lib R) mem_ghost (snd ` set R)"
proof -
  have r: "distinct (map snd (take (nat n) R))" "snd ` set (take (nat n) R) \<subseteq> snd ` set R" for n
    using assms by (auto simp: take_map [symmetric] dest: in_set_takeD)
  have p: "own_plain mem_ghost m m" "own_plain mem_ghost m (snd (m_create_cf x m))" for m x
    by (simp_all add: own_plain_def same_handles_def mem_ghost_def m_create_cf_def)
  show ?thesis
    unfolding lib_owns_def mem_lib_def
    using r p mem_txn_own mem_begin_own mem_free_own mem_iter_own mem_iter_open_own mem_get_own mem_contains_own
    by (auto simp del: distinct_map)
qed

lemma c_abs_write: "c_abs (a_write p v c) = c_write p v (c_abs c)"
  by (cases v) (auto simp: c_abs_def a_write_def c_write_def update_conv' delete_conv')

lemma map_of_a_apply: "map_of (a_apply w d) = apply_writes (map_of w) (map_of d)"
proof (induction w)
  case Nil
  then show ?case
    by (simp add: a_apply_def apply_writes_def)
next
  case (Cons e w)
  obtain p v where e: "e = (p, v)"
    by (cases e)
  have "map_of (a_apply (e # w) d) = (map_of (a_apply w d))(p := v)"
    by (cases v) (simp_all add: a_apply_def e update_conv' delete_conv')
  then show ?case
    by (auto simp: Cons apply_writes_def e)
qed

lemma s_mem [simp]:
  "s_db mem_sem m = map_of (m_db m)" "s_iter mem_sem m = map_of (m_iters m)"
  "s_txn mem_sem m h = (case map_of (m_txns m) h of None \<Rightarrow> (Map.empty, Map.empty) | Some t \<Rightarrow> c_abs (mt_content t))"
  "s_saved mem_sem m h n =
     (case map_of (m_txns m) h of None \<Rightarrow> None | Some t \<Rightarrow> map_option c_abs (map_of (mt_saved t) n))"
  by (simp_all add: mem_sem_def)

lemma sem_same_bad [simp]: "sem_same mem_sem m (m\<lparr>m_bad := b\<rparr>)" "sem_same mem_sem m (m\<lparr>m_faults := rs\<rparr>)" "sem_same mem_sem m m"
  by (simp_all add: sem_same_def fun_eq_iff)

text \<open>The two wrappers: a call on a missing handle or with a fault changes nothing that the contracts see.\<close>

lemma m_on_cases:
  assumes "m_on h f m = (rc, m')"
  obtains (dead) "map_of (m_txns m) h = None" "rc \<noteq> TDB_SUCCESS" "sem_same mem_sem m m'"
    | (alive) t where "map_of (m_txns m) h = Some t" "f t m = (rc, m')"
  using assms by (cases "map_of (m_txns m) h") (auto simp: m_on_def)

lemma m_faulty_cases:
  assumes "m_faulty m f = (rc, m')"
  obtains (fault) "rc \<noteq> TDB_SUCCESS" "sem_same mem_sem m m'"
    | (run) rs where "f (m\<lparr>m_faults := rs\<rparr>) = (rc, m')"
proof (cases "m_faults m")
  case Nil
  have "m\<lparr>m_faults := m_faults m\<rparr> = m"
    by simp
  with Nil have "f (m\<lparr>m_faults := m_faults m\<rparr>) = (rc, m')"
    using assms by (simp only: m_faulty_def list.case)
  then show ?thesis
    by (rule run)
next
  case (Cons r rs)
  then show ?thesis
    using assms that by (auto simp: m_faulty_def split: if_splits)
qed

lemma m_write_sem:
  assumes "m_write h p v m = (rc, m')"
  shows "sem_write mem_sem h p v rc m m'"
  using assms unfolding m_write_def
proof (cases rule: m_on_cases)
  case (alive t)
  from alive(2) show ?thesis
    by (cases rule: m_faulty_cases) (use alive(1) in \<open>auto simp: sem_write_def sem_content_def c_abs_write fun_eq_iff\<close>)
qed (simp add: sem_write_def)

lemma m_finish_sem:
  assumes "m_faulty m f = (rc, m')" "map_of (m_txns m) h = Some t"
    and f: "\<And>m. f m = m_finish h t m \<or> f m = (TDB_ERR_INVALID_ARGS, m)"
  shows "sem_commit mem_sem h rc m m'"
  using assms(1)
proof (cases rule: m_faulty_cases)
  case fault
  then show ?thesis
    by (simp add: sem_commit_def sem_same_def)
next
  case (run rs)
  have "f (m\<lparr>m_faults := rs\<rparr>) = m_finish h t (m\<lparr>m_faults := rs\<rparr>) \<or> f (m\<lparr>m_faults := rs\<rparr>) = (TDB_ERR_INVALID_ARGS, m\<lparr>m_faults := rs\<rparr>)"
    by (rule f)
  then show ?thesis
    using run assms(2) by (auto simp: sem_commit_def m_finish_def map_of_a_apply c_abs_def fun_eq_iff)
qed

lemma mem_commit_sem:
  "m_commit h m = (rc, m') \<Longrightarrow> sem_commit mem_sem h rc m m'"
  "m_commit_prepared h m = (rc, m') \<Longrightarrow> sem_commit mem_sem h rc m m'"
  unfolding m_commit_def m_commit_prepared_def
  by (erule m_on_cases, simp add: sem_commit_def sem_same_def, erule m_finish_sem, assumption,
      simp add: m_prepared_def)+

lemma m_begin_sem:
  "m_begin m = (TDB_SUCCESS, Some h, m') \<Longrightarrow> sem_fresh mem_sem h m m'"
  "m_begin m = (rc, out, m') \<Longrightarrow> rc \<noteq> TDB_SUCCESS \<Longrightarrow> sem_same mem_sem m m'"
  by (cases "m_faults m"; auto simp: m_begin_def m_faulty_def sem_fresh_def sem_frame_def m_fresh_def c_abs_def fun_eq_iff
      split: if_splits)+

lemma m_reset_sem: "m_reset h lv m = (TDB_SUCCESS, m') \<Longrightarrow> sem_fresh mem_sem h m m'"
  unfolding m_reset_def
  by (erule m_on_cases, simp, erule m_faulty_cases, simp)
    (auto simp: sem_fresh_def sem_frame_def m_fresh_def c_abs_def fun_eq_iff)

lemma m_rollback_sem:
  "sem_frame mem_sem h m (snd (m_rollback h m))" "sem_frame mem_sem h m (snd (m_rollback_prepared h m))"
  "sem_frame mem_sem h m (m_free h m)"
  by (cases "map_of (m_txns m) h"; cases "m_faults m";
      auto simp: m_rollback_def m_rollback_prepared_def m_free_def m_on_def m_faulty_def m_prepared_def m_drop_def
        sem_frame_def fun_eq_iff delete_conv')+

lemma m_prepare_sem: "sem_same mem_sem m (snd (m_prepare h x m))"
  by (cases "map_of (m_txns m) h"; cases "m_faults m")
    (auto simp: m_prepare_def m_on_def m_faulty_def sem_same_def fun_eq_iff)

lemma m_get_sem:
  "m_get h c k m = (rc, v, m') \<Longrightarrow>
     sem_same mem_sem m m' \<and> (rc = TDB_SUCCESS \<longrightarrow> v \<noteq> None \<and> v = fst (s_txn mem_sem m h) (c, k)) \<and>
     (rc = TDB_ERR_NOT_FOUND \<longrightarrow> fst (s_txn mem_sem m h) (c, k) = None)"
  by (cases "map_of (m_txns m) h"; cases "map_of (fst (mt_content (the (map_of (m_txns m) h)))) (c, k)")
    (auto simp: m_get_def c_abs_def dest: sym)

lemma m_contains_sem:
  "(case m_get h c k m of (rc, _, m') \<Rightarrow> (rc, m')) = (rc, m') \<Longrightarrow>
     sem_same mem_sem m m' \<and> (rc = TDB_SUCCESS \<longrightarrow> fst (s_txn mem_sem m h) (c, k) \<noteq> None) \<and>
     (rc = TDB_ERR_NOT_FOUND \<longrightarrow> fst (s_txn mem_sem m h) (c, k) = None)"
  by (cases "m_get h c k m") (use m_get_sem [of h c k m] in auto)

lemma mem_lib_stores: "lib_stores (mem_lib R) mem_sem"
  unfolding lib_stores_def mem_lib_def
  using m_begin_sem m_reset_sem m_rollback_sem mem_commit_sem m_prepare_sem m_get_sem m_contains_sem m_write_sem
  by (simp del: s_mem)

lemma mem_lib_savepoints: "lib_savepoints (mem_lib R) mem_sem"
  unfolding lib_savepoints_def mem_lib_def
  by (auto simp: m_savepoint_def m_rollback_to_def m_release_def m_on_def sem_same_def sem_frame_def fun_eq_iff
      map_le_def update_conv' delete_conv' split: option.splits)

lemma map_of_sort_key:
  assumes "distinct (map fst es)"
  shows "map_of (sort_key f es) = map_of es"
proof -
  have "distinct (map fst (sort_key f es))"
    using assms by (simp add: distinct_map)
  then show ?thesis
    using assms by (intro map_of_inject_set [THEN iffD2]) simp_all
qed

lemma a_entries_ok: "es_sorted (a_entries c q d) \<and> map_of (a_entries c q d) = (\<lambda>k. if q k then map_of d (c, k) else None)"
proof -
  define raw where "raw = map (\<lambda>e. (snd (fst e), snd e)) (filter (\<lambda>e. fst (fst e) = c \<and> q (snd (fst e))) d)"
  have dist: "distinct (map fst (AList.clearjunk raw))"
    by (rule distinct_clearjunk)
  have "sorted (map fst (sort_key fst (AList.clearjunk raw)))"
    by simp
  moreover have "distinct (map fst (sort_key fst (AList.clearjunk raw)))"
    using dist by (simp add: distinct_map)
  moreover have "map_of raw k = (if q k then map_of d (c, k) else None)" for k
    unfolding raw_def by (induction d) auto
  ultimately show ?thesis
    unfolding es_sorted_def a_entries_def raw_def [symmetric]
    by (auto simp: strict_sorted_iff map_of_sort_key [OF dist] map_of_clearjunk fun_eq_iff)
qed

lemma m_iter_open_sem:
  assumes "m_iter_open h c q m = (rc, out, m')" "\<And>k. f k = (if q k then fst (s_txn mem_sem m h) (c, k) else None)"
  shows "sem_opened mem_sem f rc out m m'"
proof (cases "map_of (m_txns m) h")
  case None
  then show ?thesis
    using assms(1) by (auto simp: m_iter_open_def sem_opened_def)
next
  case (Some t)
  then have "map_of (a_entries c q (fst (mt_content t))) = f"
    using assms(2) by (simp add: a_entries_ok c_abs_def fun_eq_iff)
  then show ?thesis
    using assms(1) Some a_entries_ok [of c q "fst (mt_content t)"]
    by (auto simp: m_iter_open_def sem_opened_def sem_iter_set_def fun_eq_iff)
qed

lemma m_iter_map_sem: "sem_iter_set mem_sem it (map_option f (s_iter mem_sem m it)) m (m_iter_map it f m)"
  by (cases "map_of (m_iters m) it") (auto simp: m_iter_map_def sem_iter_set_def update_conv' fun_eq_iff)

lemma m_iter_free_sem: "sem_iter_set mem_sem it None m (m_iter_free it m)"
  by (cases "map_of (m_iters m) it") (auto simp: m_iter_free_def sem_iter_set_def delete_conv' fun_eq_iff)

lemma m_delete_range_sem:
  assumes "m_delete_range h c a b m = (rc, m')"
  shows "if rc = TDB_SUCCESS
     then sem_frame mem_sem h m m' \<and> s_saved mem_sem m' h = s_saved mem_sem m h \<and>
          fst (s_txn mem_sem m' h) = (\<lambda>p. if in_range c a b p then None else fst (s_txn mem_sem m h) p)
     else sem_same mem_sem m m'"
proof -
  have f: "map_of (filter (\<lambda>e. \<not> in_range c a b (fst e)) d) p = (if in_range c a b p then None else map_of d p)" for d p
    by (induction d) auto
  show ?thesis
    using assms by (cases "map_of (m_txns m) h")
      (auto simp: m_delete_range_def m_on_def Let_def sem_frame_def c_abs_def f fun_eq_iff)
qed

lemma mem_lib_iterates: "lib_iterates (mem_lib R) mem_sem"
proof -
  have next_sem: "sem_iter_set mem_sem it (Some (f x)) m (m_iter_map it f m)" if "s_iter mem_sem m it = Some x" for it f x m
    using m_iter_map_sem [of it f m] that by simp
  have range: "sem_opened mem_sem (\<lambda>k. if in_range c a b (c, k) then fst (s_txn mem_sem m h) (c, k) else None) rc out m m'"
    if "m_iter_open h c (\<lambda>k. a \<le> k \<and> k < b) m = (rc, out, m')" for h c a b m rc out m'
    by (rule m_iter_open_sem [OF that]) (simp add: in_range_def)
  have all: "sem_opened mem_sem (\<lambda>k. fst (s_txn mem_sem m h) (c, k)) rc out m m'"
    if "m_iter_open h c (\<lambda>_. True) m = (rc, out, m')" for h c m rc out m'
    by (rule m_iter_open_sem [OF that]) simp
  have read: "(case map_of (m_iters m) it of None \<Rightarrow> False | Some c \<Rightarrow> it_valid c) = it_valid c \<and>
      (it_valid c \<longrightarrow> m_iter_read fst it m = (TDB_SUCCESS, fst (fst c ! nat (snd c))) \<and>
         m_iter_read snd it m = (TDB_SUCCESS, snd (fst c ! nat (snd c))))"
    if "s_iter mem_sem m it = Some c" for m it c
    using that by (simp add: m_iter_read_def)
  show ?thesis
    unfolding lib_iterates_def mem_lib_def tdb_lib.simps
    by (intro conjI allI impI; (elim conjE)?)
      (rule all range m_iter_free_sem m_iter_map_sem next_sem m_delete_range_sem read [THEN conjunct1]
         read [THEN conjunct2, rule_format, THEN conjunct1] read [THEN conjunct2, rule_format, THEN conjunct2]; assumption)+
qed

section \<open>The contracts as rules\<close>

lemma lib_owns_begin:
  assumes "lib_owns lib g D"
  shows "txn_begin lib l = (rc, out, l') \<Longrightarrow> own_begin g l rc out l'"
    and "txn_begin_iso lib lv l = (rc, out, l') \<Longrightarrow> own_begin g l rc out l'"
  using assms by (simp_all add: lib_owns_def)

lemma lib_owns_txn:
  assumes "lib_owns lib g D"
  shows "own_free g h l (txn_free lib h l)"
    and "txn_reset lib h lv l = (rc, l') \<Longrightarrow> own_txn g h l l'"
    and "txn_commit lib h l = (rc, l') \<Longrightarrow> own_txn g h l l'"
    and "txn_rollback lib h l = (rc, l') \<Longrightarrow> own_txn g h l l'"
    and "txn_commit_prepared lib h l = (rc, l') \<Longrightarrow> own_txn g h l l'"
    and "txn_rollback_prepared lib h l = (rc, l') \<Longrightarrow> own_txn g h l l'"
    and "txn_prepare lib h x l = (rc, l') \<Longrightarrow> own_txn g h l l'"
    and "txn_savepoint lib h n l = (rc, l') \<Longrightarrow> own_txn g h l l'"
    and "txn_rollback_to_savepoint lib h n l = (rc, l') \<Longrightarrow> own_txn g h l l'"
    and "txn_release_savepoint lib h n l = (rc, l') \<Longrightarrow> own_txn g h l l'"
    and "txn_get lib h c k l = (rc, v, l') \<Longrightarrow> own_txn g h l l'"
    and "txn_put lib h c k w t l = (rc, l') \<Longrightarrow> own_txn g h l l'"
    and "txn_delete lib h c k l = (rc, l') \<Longrightarrow> own_txn g h l l'"
    and "txn_single_delete lib h c k l = (rc, l') \<Longrightarrow> own_txn g h l l'"
    and "txn_delete_range lib h c a b l = (rc, l') \<Longrightarrow> own_txn g h l l'"
    and "txn_contains lib h c k l = (rc, l') \<Longrightarrow> own_txn g h l l'"
  using assms unfolding lib_owns_def by (metis snd_conv)+

lemma lib_owns_plain:
  assumes "lib_owns lib g D"
  shows "recover_count lib l = (rc, n, l') \<Longrightarrow> own_plain g l l'"
    and "recover_prepared lib m l = (rc, xs, l') \<Longrightarrow> own_plain g l l'"
    and "recover_prepared lib m l = (TDB_SUCCESS, xs, l') \<Longrightarrow> distinct (map snd xs) \<and> set (map snd xs) \<subseteq> D"
    and "create_column_family lib nm l = (rc, l') \<Longrightarrow> own_plain g l l'"
    and "compact_range lib c a b l = (rc, l') \<Longrightarrow> own_plain g l l'"
  using assms unfolding lib_owns_def by (metis snd_conv)+

lemma lib_owns_iter:
  assumes "lib_owns lib g D"
  shows "iter_new lib h c l = (rc, out, l') \<Longrightarrow> own_iter_new g h l rc out l'"
    and "iter_new_range lib h c a b l = (rc, out, l') \<Longrightarrow> own_iter_new g h l rc out l'"
    and "own_iter_free g it l (iter_free lib it l)"
    and "own_iter g it l (iter_seek_to_first lib it l)"
    and "own_iter g it l (iter_seek lib it k l)"
    and "own_iter g it l (iter_next lib it l)"
    and "own_iter g it l (iter_prev lib it l)"
  using assms by (simp_all add: lib_owns_def)

lemma lib_stores_txn:
  assumes "lib_stores lib s"
  shows "txn_begin lib l = (TDB_SUCCESS, Some h, l') \<Longrightarrow> sem_fresh s h l l'"
    and "txn_begin lib l = (rc, out, l') \<Longrightarrow> rc \<noteq> TDB_SUCCESS \<Longrightarrow> sem_same s l l'"
    and "txn_begin_iso lib lv l = (TDB_SUCCESS, Some h, l') \<Longrightarrow> sem_fresh s h l l'"
    and "txn_begin_iso lib lv l = (rc, out, l') \<Longrightarrow> rc \<noteq> TDB_SUCCESS \<Longrightarrow> sem_same s l l'"
    and "txn_reset lib h lv l = (TDB_SUCCESS, l') \<Longrightarrow> sem_fresh s h l l'"
    and "sem_frame s h l (txn_free lib h l)"
    and "txn_rollback lib h l = (rc, l') \<Longrightarrow> sem_frame s h l l'"
    and "txn_rollback_prepared lib h l = (rc, l') \<Longrightarrow> sem_frame s h l l'"
    and "txn_commit lib h l = (rc, l') \<Longrightarrow> sem_commit s h rc l l'"
    and "txn_commit_prepared lib h l = (rc, l') \<Longrightarrow> sem_commit s h rc l l'"
    and "txn_prepare lib h x l = (rc, l') \<Longrightarrow> sem_same s l l'"
    and "txn_get lib h c k l = (rc, v, l') \<Longrightarrow> sem_same s l l'"
    and "txn_get lib h c k l = (TDB_SUCCESS, v, l') \<Longrightarrow> v \<noteq> None \<and> v = fst (s_txn s l h) (c, k)"
    and "txn_get lib h c k l = (TDB_ERR_NOT_FOUND, v, l') \<Longrightarrow> fst (s_txn s l h) (c, k) = None"
    and "txn_put lib h c k w t l = (rc, l') \<Longrightarrow> sem_write s h (c, k) (Some w) rc l l'"
    and "txn_delete lib h c k l = (rc, l') \<Longrightarrow> sem_write s h (c, k) None rc l l'"
    and "txn_single_delete lib h c k l = (rc, l') \<Longrightarrow> sem_write s h (c, k) None rc l l'"
    and "txn_contains lib h c k l = (rc, l') \<Longrightarrow> sem_same s l l'"
    and "txn_contains lib h c k l = (TDB_SUCCESS, l') \<Longrightarrow> fst (s_txn s l h) (c, k) \<noteq> None"
    and "txn_contains lib h c k l = (TDB_ERR_NOT_FOUND, l') \<Longrightarrow> fst (s_txn s l h) (c, k) = None"
  using assms unfolding lib_stores_def by (metis snd_conv)+

end
