(* ===== verification/Fts_Meta.thy ===== *)
theory Fts_Meta
  imports Tdb_Lib Xa_Codec Fts_Text Row_Format
begin

text \<open>
  The connection's transaction record (\<^verbatim>\<open>ha_tidesdb.h\<close>, \<open>fts_meta_delta_t\<close> and \<open>tidesdb_trx_t\<close>) and the
  full-text totals it accumulates (\<^verbatim>\<open>src/tidesdb/src/handler/ha_tidesdb_fts.cc\<close>, first part): reading and
  updating the stored totals of an index, folding a row's counts into the connection, and the flush
  that applies them inside the transaction. The signed counters are 64-bit words and wrap. The
  property shows that the totals are exact.
\<close>

section \<open>The connection's transaction\<close>

record fts_meta_delta_t =
  data_cf :: cf
  keynr :: nat
  doc_delta :: u64
  word_delta :: u64

record tidesdb_trx_t =
  trx_txn :: "txn option"
  dirty :: bool
  stmt_savepoint_active :: bool
  needs_reset :: bool
  isolation_level :: tdb_iso
  txn_generation :: u64
  fts_meta_pending :: "fts_meta_delta_t list"
  fts_meta_dirty :: bool
  stmt_fts_snapshot :: "fts_meta_delta_t list"
  stmt_fts_dirty_snapshot :: bool
  prepared_xid :: bytes
  mod_tables :: table_names
  mod_tables_generation :: u64
  prepared_mod_tables :: table_names

definition new_trx :: tidesdb_trx_t where
  "new_trx =
     \<lparr>trx_txn = None, dirty = False, stmt_savepoint_active = False, needs_reset = False,
      isolation_level = TDB_ISOLATION_REPEATABLE_READ, txn_generation = 0, fts_meta_pending = [],
      fts_meta_dirty = False, stmt_fts_snapshot = [], stmt_fts_dirty_snapshot = False,
      prepared_xid = [], mod_tables = [], mod_tables_generation = 0, prepared_mod_tables = []\<rparr>"

section \<open>Counters\<close>

definition FTS_META_KEY_TAG :: bytes where "FTS_META_KEY_TAG = [0x46, 0x54, 0x53, 0]"

definition TIDESDB_TTL_NONE :: int where "TIDESDB_TTL_NONE = -1"

definition fts_meta_key :: "nat \<Rightarrow> bytes" where
  "fts_meta_key nr = KEY_NS_META # FTS_META_KEY_TAG @ [of_nat nr]"

text \<open>The code, and the two totals the out parameters hold.\<close>

definition fts_load_meta :: "'l tdb_lib \<Rightarrow> txn \<Rightarrow> cf \<Rightarrow> nat \<Rightarrow> 'l \<Rightarrow> tdb_rc \<times> (u64 \<times> u64) \<times> 'l" where
  "fts_load_meta lib h cf nr l =
     (case txn_get lib h cf (fts_meta_key nr) l of
        (rc, val, l') \<Rightarrow>
          (case (if rc = TDB_SUCCESS then Option.bind val decode_meta_value else None) of
             Some totals \<Rightarrow> (TDB_SUCCESS, totals, l')
           | None \<Rightarrow> (rc, (0, 0), l')))"

definition clamp_total :: "u64 \<Rightarrow> u64" where
  "clamp_total t = (if sint t < 0 then 0 else t)"

definition fts_update_meta :: "'l tdb_lib \<Rightarrow> txn \<Rightarrow> cf \<Rightarrow> nat \<Rightarrow> u64 \<Rightarrow> u64 \<Rightarrow> 'l \<Rightarrow> tdb_rc \<times> 'l" where
  "fts_update_meta lib h cf nr delta_docs delta_words l =
     (case fts_load_meta lib h cf nr l of
        (rrc, (total_docs, total_words), l') \<Rightarrow>
          if rrc \<noteq> TDB_SUCCESS \<and> rrc \<noteq> TDB_ERR_NOT_FOUND then (rrc, l')
          else txn_put lib h cf (fts_meta_key nr)
                 (encode_meta_value (clamp_total (total_docs + delta_docs)) (clamp_total (total_words + delta_words)))
                 TIDESDB_TTL_NONE l')"

fun add_delta :: "fts_meta_delta_t list \<Rightarrow> cf \<Rightarrow> nat \<Rightarrow> u64 \<Rightarrow> u64 \<Rightarrow> fts_meta_delta_t list" where
  "add_delta [] cf nr dd wd = [\<lparr>data_cf = cf, keynr = nr, doc_delta = dd, word_delta = wd\<rparr>]"
| "add_delta (e # es) cf nr dd wd =
     (if data_cf e = cf \<and> keynr e = nr
      then e\<lparr>doc_delta := doc_delta e + dd, word_delta := word_delta e + wd\<rparr> # es
      else e # add_delta es cf nr dd wd)"

definition trx_fts_meta_accumulate ::
  "tidesdb_trx_t option \<Rightarrow> cf \<Rightarrow> nat \<Rightarrow> u64 \<Rightarrow> u64 \<Rightarrow> tidesdb_trx_t option" where
  "trx_fts_meta_accumulate trx cf nr dd wd =
     map_option (\<lambda>t. t\<lparr>fts_meta_pending := add_delta (fts_meta_pending t) cf nr dd wd, fts_meta_dirty := True\<rparr>) trx"

fun flush_deltas :: "'l tdb_lib \<Rightarrow> txn \<Rightarrow> fts_meta_delta_t list \<Rightarrow> 'l \<Rightarrow> tdb_rc \<times> 'l" where
  "flush_deltas lib h [] l = (TDB_SUCCESS, l)"
| "flush_deltas lib h (e # es) l =
     (case fts_update_meta lib h (data_cf e) (keynr e) (doc_delta e) (word_delta e) l of
        (rc, l') \<Rightarrow> if rc \<noteq> TDB_SUCCESS then (rc, l') else flush_deltas lib h es l')"

definition clear_fts_meta :: "tidesdb_trx_t \<Rightarrow> tidesdb_trx_t" where
  "clear_fts_meta t = t\<lparr>fts_meta_pending := [], fts_meta_dirty := False\<rparr>"

definition flush_trx_fts_meta_pending ::
  "'l tdb_lib \<Rightarrow> tidesdb_trx_t \<Rightarrow> 'l \<Rightarrow> tdb_rc \<times> tidesdb_trx_t \<times> 'l" where
  "flush_trx_fts_meta_pending lib t l =
     (case trx_txn t of
        None \<Rightarrow> (TDB_SUCCESS, clear_fts_meta t, l)
      | Some h \<Rightarrow>
          if \<not> fts_meta_dirty t \<or> fts_meta_pending t = [] then (TDB_SUCCESS, clear_fts_meta t, l)
          else case flush_deltas lib h (fts_meta_pending t) l of
                 (rc, l') \<Rightarrow> (rc, clear_fts_meta t, l'))"

section \<open>Lemmas\<close>

subsection \<open>Handles\<close>

lemma own_txn_trans:
  "own_txn g h a b \<Longrightarrow> own_txn g h b c \<Longrightarrow> own_txn g h a c"
  by (auto simp: own_txn_def same_handles_def)

lemma own_txn_refl: "own_txn g h a a"
  by (simp add: own_txn_def same_handles_def)

lemma load_meta_own:
  "lib_owns lib g D \<Longrightarrow> fts_load_meta lib h cf nr l = (rc, t, l') \<Longrightarrow> own_txn g h l l'"
  by (auto simp: fts_load_meta_def split: prod.splits option.splits dest: lib_owns_txn)

lemma update_meta_own:
  assumes "lib_owns lib g D" "fts_update_meta lib h cf nr dd wd l = (rc, l')"
  shows "own_txn g h l l'"
proof -
  obtain rrc td tw l1 where ld: "fts_load_meta lib h cf nr l = (rrc, (td, tw), l1)"
    by (metis prod.exhaust)
  note load_meta_own [OF assms(1) ld]
  moreover have "own_txn g h l1 l'"
    using assms by (auto simp: fts_update_meta_def ld own_txn_refl split: if_splits dest: lib_owns_txn)
  ultimately show ?thesis
    by (rule own_txn_trans)
qed

lemma flush_deltas_own:
  "lib_owns lib g D \<Longrightarrow> flush_deltas lib h es l = (rc, l') \<Longrightarrow> own_txn g h l l'"
proof (induction es arbitrary: l)
  case (Cons e es)
  obtain r l1 where u: "fts_update_meta lib h (data_cf e) (keynr e) (doc_delta e) (word_delta e) l = (r, l1)"
    by fastforce
  show ?case
    using Cons.prems Cons.IH [of l1] update_meta_own [OF Cons.prems(1) u]
    by (auto simp: u intro: own_txn_trans split: if_splits)
qed (simp add: own_txn_refl)

lemma flush_own:
  assumes "lib_owns lib g D" "flush_trx_fts_meta_pending lib t l = (rc, t', l')"
  shows "t' = clear_fts_meta t \<and> (case trx_txn t of None \<Rightarrow> l' = l | Some h \<Rightarrow> own_txn g h l l')"
  using assms flush_deltas_own [OF assms(1)]
  by (auto simp: flush_trx_fts_meta_pending_def own_txn_refl split: option.splits if_splits prod.splits)

subsection \<open>Totals\<close>

definition meta_at :: "store \<Rightarrow> cf \<Rightarrow> nat \<Rightarrow> u64 \<times> u64" where
  "meta_at st cf nr =
     (case st (cf, fts_meta_key nr) of
        None \<Rightarrow> (0, 0)
      | Some v \<Rightarrow> (case decode_meta_value v of None \<Rightarrow> (0, 0) | Some t \<Rightarrow> t))"

definition bump :: "u64 \<times> u64 \<Rightarrow> u64 \<Rightarrow> u64 \<Rightarrow> u64 \<times> u64" where
  "bump t dd wd = (clamp_total (fst t + dd), clamp_total (snd t + wd))"

definition set_meta :: "cf \<Rightarrow> nat \<Rightarrow> u64 \<times> u64 \<Rightarrow> content \<Rightarrow> content" where
  "set_meta cf nr t = c_write (cf, fts_meta_key nr) (Some (encode_meta_value (fst t) (snd t)))"

lemma decode_encode_meta [simp]: "decode_meta_value (encode_meta_value a b) = Some (a, b)"
proof -
  have "drop META_VALUE_DOCS_LEN (encode_meta_value a b) = store_u64le b"
    by (simp add: encode_meta_value_def META_VALUE_DOCS_LEN_def fts64.enc_length)
  then show ?thesis
    using load_store_u64le_append [of a "store_u64le b"] load_store_u64le_append [of b "[]"]
    by (simp add: decode_meta_value_def encode_meta_value_def META_VALUE_LEN_def META_VALUE_DOCS_LEN_def
        META_VALUE_WORDS_LEN_def fts64.enc_length)
qed

lemma fts_meta_key_eq: "nr < 256 \<Longrightarrow> nr' < 256 \<Longrightarrow> fts_meta_key nr = fts_meta_key nr' \<longleftrightarrow> nr = nr'"
  by (auto simp: fts_meta_key_def of_nat_eq_iff word_of_nat_eq_iff take_bit_eq_mod)

lemma meta_at_set:
  "meta_at (fst (set_meta cf nr t c)) cf' nr' =
     (if (cf', fts_meta_key nr') = (cf, fts_meta_key nr) then t else meta_at (fst c) cf' nr')"
  by (simp add: meta_at_def set_meta_def c_write_def)

lemma load_meta_sem:
  assumes "lib_stores lib s" "fts_load_meta lib h cf nr l = (rc, t, l')"
  shows "sem_same s l l'" and "rc = TDB_SUCCESS \<or> rc = TDB_ERR_NOT_FOUND \<Longrightarrow> t = meta_at (fst (s_txn s l h)) cf nr"
proof -
  obtain r v l1 where g: "txn_get lib h cf (fts_meta_key nr) l = (r, v, l1)"
    by (metis prod.exhaust)
  note st = lib_stores_txn(12) [OF assms(1) g]
  have l1: "l1 = l'"
    using assms(2) by (auto simp: fts_load_meta_def g split: option.splits)
  then show "sem_same s l l'"
    using st by simp
  assume rc: "rc = TDB_SUCCESS \<or> rc = TDB_ERR_NOT_FOUND"
  have rr: "r = rc"
    using assms(2) by (auto simp: fts_load_meta_def g split: option.splits if_splits)
  show "t = meta_at (fst (s_txn s l h)) cf nr"
  proof (cases "rc = TDB_SUCCESS")
    case True
    then have "v \<noteq> None \<and> v = fst (s_txn s l h) (cf, fts_meta_key nr)"
      using lib_stores_txn(13) [OF assms(1)] g rr by blast
    then show ?thesis
      using assms(2) True rr by (auto simp: fts_load_meta_def g meta_at_def split: option.splits)
  next
    case False
    then have "fst (s_txn s l h) (cf, fts_meta_key nr) = None"
      using lib_stores_txn(14) [OF assms(1)] g rr rc by blast
    then show ?thesis
      using assms(2) False rr by (auto simp: fts_load_meta_def g meta_at_def)
  qed
qed

lemma update_meta_sem:
  assumes "lib_stores lib s" "fts_update_meta lib h cf nr dd wd l = (TDB_SUCCESS, l')"
  shows "sem_content s h (set_meta cf nr (bump (meta_at (fst (s_txn s l h)) cf nr) dd wd) (s_txn s l h)) l l'"
proof -
  obtain rrc td tw l1 where ld: "fts_load_meta lib h cf nr l = (rrc, (td, tw), l1)"
    by (metis prod.exhaust)
  have ok: "rrc = TDB_SUCCESS \<or> rrc = TDB_ERR_NOT_FOUND"
    using assms(2) by (auto simp: fts_update_meta_def ld split: if_splits)
  note same = load_meta_sem(1) [OF assms(1) ld] and tot = load_meta_sem(2) [OF assms(1) ld ok]
  have "txn_put lib h cf (fts_meta_key nr)
      (encode_meta_value (clamp_total (td + dd)) (clamp_total (tw + wd))) TIDESDB_TTL_NONE l1 = (TDB_SUCCESS, l')"
    using assms(2) ok by (auto simp: fts_update_meta_def ld)
  from lib_stores_txn(15) [OF assms(1) this] same tot show ?thesis
    by (simp add: sem_write_def sem_content_def sem_same_def set_meta_def bump_def flip: tot)
qed

fun flush_content :: "fts_meta_delta_t list \<Rightarrow> content \<Rightarrow> content" where
  "flush_content [] c = c"
| "flush_content (e # es) c =
     flush_content es (set_meta (data_cf e) (keynr e)
       (bump (meta_at (fst c) (data_cf e) (keynr e)) (doc_delta e) (word_delta e)) c)"

lemma flush_deltas_sem:
  "lib_stores lib s \<Longrightarrow> flush_deltas lib h es l = (TDB_SUCCESS, l') \<Longrightarrow>
     sem_content s h (flush_content es (s_txn s l h)) l l'"
proof (induction es arbitrary: l)
  case Nil
  then show ?case
    by (simp add: sem_content_def)
next
  case (Cons e es)
  obtain r l1 where u: "fts_update_meta lib h (data_cf e) (keynr e) (doc_delta e) (word_delta e) l = (r, l1)"
    by fastforce
  have r: "r = TDB_SUCCESS" "flush_deltas lib h es l1 = (TDB_SUCCESS, l')"
    using Cons.prems(2) by (auto simp: u split: if_splits)
  from update_meta_sem [OF Cons.prems(1) u [unfolded r(1)]] Cons.IH [OF Cons.prems(1) r(2)] show ?case
    by (simp add: sem_content_def)
qed

definition delta_ids :: "fts_meta_delta_t list \<Rightarrow> (cf \<times> nat) list" where
  "delta_ids es = map (\<lambda>e. (data_cf e, keynr e)) es"

lemma flush_content_at:
  assumes "distinct (delta_ids es)" "\<forall>e\<in>set es. keynr e < 256" "nr < 256"
  shows "meta_at (fst (flush_content es c)) cf nr =
    (case find (\<lambda>e. data_cf e = cf \<and> keynr e = nr) es of
       None \<Rightarrow> meta_at (fst c) cf nr
     | Some e \<Rightarrow> bump (meta_at (fst c) cf nr) (doc_delta e) (word_delta e))"
  using assms
proof (induction es arbitrary: c)
  case (Cons e es)
  have no: "find (\<lambda>x. data_cf x = cf \<and> keynr x = nr) es = None" if "data_cf e = cf" "keynr e = nr"
    using Cons.prems(1) that by (auto simp: find_None_iff delta_ids_def intro: rev_image_eqI)
  define c1 where "c1 = set_meta (data_cf e) (keynr e)
    (bump (meta_at (fst c) (data_cf e) (keynr e)) (doc_delta e) (word_delta e)) c"
  have c1: "meta_at (fst c1) cf nr =
      (if data_cf e = cf \<and> keynr e = nr then bump (meta_at (fst c) cf nr) (doc_delta e) (word_delta e)
       else meta_at (fst c) cf nr)"
    using Cons.prems(2,3) by (auto simp: c1_def meta_at_set fts_meta_key_eq)
  show ?case
    using Cons.IH [of c1] Cons.prems no by (auto simp: c1 delta_ids_def simp flip: c1_def split: option.splits)
qed simp

lemma flush_content_other:
  "p \<notin> (\<lambda>e. (data_cf e, fts_meta_key (keynr e))) ` set es \<Longrightarrow> fst (flush_content es c) p = fst c p"
  by (induction es arbitrary: c) (auto simp: set_meta_def c_write_def)

definition pend_sum :: "fts_meta_delta_t list \<Rightarrow> cf \<Rightarrow> nat \<Rightarrow> u64 \<times> u64" where
  "pend_sum es cf nr =
     (case find (\<lambda>e. data_cf e = cf \<and> keynr e = nr) es of None \<Rightarrow> (0, 0) | Some e \<Rightarrow> (doc_delta e, word_delta e))"

lemma pend_sum_add:
  "pend_sum (add_delta es c n dd wd) cf nr =
     (if (cf, nr) = (c, n) then (fst (pend_sum es cf nr) + dd, snd (pend_sum es cf nr) + wd) else pend_sum es cf nr)"
  by (induction es) (auto simp: pend_sum_def)

lemma delta_ids_add: "set (delta_ids (add_delta es c n dd wd)) = insert (c, n) (set (delta_ids es))"
  by (induction es) (auto simp: delta_ids_def)

lemma distinct_ids_add: "distinct (delta_ids es) \<Longrightarrow> distinct (delta_ids (add_delta es c n dd wd))"
proof (induction es)
  case (Cons e es)
  then have "(data_cf e, keynr e) \<notin> set (delta_ids (add_delta es c n dd wd))" if "\<not> (data_cf e = c \<and> keynr e = n)"
    using that by (auto simp: delta_ids_add) (auto simp: delta_ids_def)
  with Cons show ?case
    by (auto simp: delta_ids_def)
qed (simp add: delta_ids_def)

type_synonym row_delta = "cf \<times> nat \<times> u64 \<times> u64"

definition row_step :: "tidesdb_trx_t option \<Rightarrow> row_delta \<Rightarrow> tidesdb_trx_t option" where
  "row_step t r = (case r of (cf, nr, dd, wd) \<Rightarrow> trx_fts_meta_accumulate t cf nr dd wd)"

definition row_total :: "(u64 \<times> u64 \<Rightarrow> u64) \<Rightarrow> row_delta list \<Rightarrow> cf \<Rightarrow> nat \<Rightarrow> u64" where
  "row_total f rows cf nr = sum_list (map (\<lambda>(c, n, d). f d) (filter (\<lambda>(c, n, d). c = cf \<and> n = nr) rows))"

definition row_ids :: "row_delta list \<Rightarrow> (cf \<times> nat) set" where
  "row_ids rows = (\<lambda>(c, n, d). (c, n)) ` set rows"

lemma row_steps_pending:
  assumes "foldl row_step (Some t) rows = Some t'" "distinct (delta_ids (fts_meta_pending t))"
  shows "distinct (delta_ids (fts_meta_pending t')) \<and>
     set (delta_ids (fts_meta_pending t')) = set (delta_ids (fts_meta_pending t)) \<union> row_ids rows \<and>
     pend_sum (fts_meta_pending t') cf nr =
       (fst (pend_sum (fts_meta_pending t) cf nr) + row_total fst rows cf nr,
        snd (pend_sum (fts_meta_pending t) cf nr) + row_total snd rows cf nr) \<and>
     trx_txn t' = trx_txn t \<and> (rows \<noteq> [] \<longrightarrow> fts_meta_dirty t')"
  using assms
proof (induction rows arbitrary: t)
  case Nil
  then show ?case
    by (simp add: row_ids_def row_total_def)
next
  case (Cons r rows)
  obtain c n dd wd where r: "r = (c, n, dd, wd)"
    by (metis prod.exhaust)
  define t1 where "t1 = t\<lparr>fts_meta_pending := add_delta (fts_meta_pending t) c n dd wd, fts_meta_dirty := True\<rparr>"
  have t1: "row_step (Some t) r = Some t1"
    by (simp add: row_step_def r trx_fts_meta_accumulate_def t1_def)
  have "foldl row_step (Some t1) rows = Some t'" "distinct (delta_ids (fts_meta_pending t1))"
    using Cons.prems by (simp_all add: t1) (simp add: t1_def distinct_ids_add)
  note IH = Cons.IH [OF this]
  have dirty: "fts_meta_dirty t'"
    using IH Cons.prems(1) by (cases rows) (auto simp: t1 t1_def)
  show ?case
    using IH dirty by (auto simp: t1_def delta_ids_add pend_sum_add row_ids_def row_total_def r add.assoc)
qed

section \<open>Properties\<close>

text \<open>C4: The full-text totals are exact. Whatever rows a transaction indexed or removed, in any order and
  over any number of indexes, folding their counts into the connection and flushing once leaves each
  touched index with its old totals plus the sum of the rows' counts, held at zero from below, every
  other stored value of the transaction as it was, and nothing pending.\<close>

theorem fts_totals_exact:
  assumes "lib_stores lib s" and "fts_meta_pending t = []" and "trx_txn t = Some h"
    and "foldl row_step (Some t) rows = Some t'"
    and "flush_trx_fts_meta_pending lib t' l = (TDB_SUCCESS, t'', l')"
    and "\<forall>(c, n, d) \<in> set rows. n < 256" and "nr < 256"
  shows "meta_at (fst (s_txn s l' h)) cf nr =
       (if (cf, nr) \<in> row_ids rows
        then bump (meta_at (fst (s_txn s l h)) cf nr) (row_total fst rows cf nr) (row_total snd rows cf nr)
        else meta_at (fst (s_txn s l h)) cf nr) \<and>
     (p \<notin> (\<lambda>(c, n). (c, fts_meta_key n)) ` row_ids rows \<longrightarrow> fst (s_txn s l' h) p = fst (s_txn s l h) p) \<and>
     fts_meta_pending t'' = [] \<and> s_db s l' = s_db s l"
proof -
  define es where "es = fts_meta_pending t'"
  have pend: "distinct (delta_ids es)" "set (delta_ids es) = row_ids rows" "trx_txn t' = Some h"
    "pend_sum es cf nr = (row_total fst rows cf nr, row_total snd rows cf nr)" "rows \<noteq> [] \<longrightarrow> fts_meta_dirty t'"
    using row_steps_pending [OF assms(4), of cf nr] assms(2,3) by (simp_all add: es_def delta_ids_def pend_sum_def)
  have nr: "\<forall>e\<in>set es. keynr e < 256"
  proof
    fix e assume "e \<in> set es"
    then have "(data_cf e, keynr e) \<in> row_ids rows"
      unfolding pend(2) [symmetric] by (force simp: delta_ids_def)
    then show "keynr e < 256"
      using assms(6) by (auto simp: row_ids_def)
  qed
  have fc: "sem_content s h (flush_content es (s_txn s l h)) l l' \<and> t'' = clear_fts_meta t'"
  proof (cases "rows = []")
    case True
    then have "es = []"
      using pend(2) by (simp add: row_ids_def delta_ids_def)
    then show ?thesis
      using assms(5) pend(3) by (auto simp: flush_trx_fts_meta_pending_def es_def sem_content_def)
  next
    case False
    then show ?thesis
      using assms(5) pend(3,5) flush_deltas_sem [OF assms(1)]
      by (auto simp: flush_trx_fts_meta_pending_def es_def sem_content_def split: if_splits prod.splits)
  qed
  have find: "(find (\<lambda>e. data_cf e = cf \<and> keynr e = nr) es = None) = ((cf, nr) \<notin> row_ids rows)"
    unfolding pend(2) [symmetric] by (auto simp: find_None_iff delta_ids_def)
  have "meta_at (fst (flush_content es (s_txn s l h))) cf nr =
      (if (cf, nr) \<in> row_ids rows
       then bump (meta_at (fst (s_txn s l h)) cf nr) (row_total fst rows cf nr) (row_total snd rows cf nr)
       else meta_at (fst (s_txn s l h)) cf nr)"
    using flush_content_at [OF pend(1) nr assms(7), of "s_txn s l h" cf] find pend(4)
    by (auto simp: pend_sum_def split: option.splits)
  moreover have "(\<lambda>e. (data_cf e, fts_meta_key (keynr e))) ` set es = (\<lambda>(c, n). (c, fts_meta_key n)) ` row_ids rows"
    unfolding pend(2) [symmetric] by (force simp: delta_ids_def)
  ultimately show ?thesis
    using fc flush_content_other [of p es "s_txn s l h"] by (simp add: sem_content_def clear_fts_meta_def)
qed

definition two_rows :: "row_delta list" where
  "two_rows = [(0, 3, 1, 5), (0, 3, 1, 7)]"

definition two_rows_run :: "tdb_rc \<times> tidesdb_trx_t \<times> mem" where
  "two_rows_run =
     flush_trx_fts_meta_pending (mem_lib []) (the (foldl row_step (Some (new_trx\<lparr>trx_txn := Some 100\<rparr>)) two_rows))
       (snd (snd (m_begin mem_init)))"

theorem fts_totals_exact_witness:
  "fst two_rows_run = TDB_SUCCESS \<and> meta_at (fst (s_txn mem_sem (snd (snd two_rows_run)) 100)) 0 3 = (2, 12)"
proof -
  define t where "t = new_trx\<lparr>trx_txn := Some 100\<rparr>"
  have t': "foldl row_step (Some t) two_rows = Some (the (foldl row_step (Some t) two_rows))"
    by (simp add: two_rows_def row_step_def trx_fts_meta_accumulate_def t_def)
  have rc: "fst two_rows_run = TDB_SUCCESS"
    by code_simp
  then have run: "flush_trx_fts_meta_pending (mem_lib []) (the (foldl row_step (Some t) two_rows))
      (snd (snd (m_begin mem_init))) = (TDB_SUCCESS, fst (snd two_rows_run), snd (snd two_rows_run))"
    by (simp add: two_rows_run_def t_def prod_eq_iff)
  have start: "meta_at (fst (s_txn mem_sem (snd (snd (m_begin mem_init))) 100)) 0 3 = (0, 0)"
    by code_simp
  have "meta_at (fst (s_txn mem_sem (snd (snd two_rows_run)) 100)) 0 3 =
      bump (0, 0) (row_total fst two_rows 0 3) (row_total snd two_rows 0 3)"
    using fts_totals_exact [OF mem_lib_stores _ _ t' run, of 100 3 0 "(0, [])"] start
    by (simp add: t_def new_trx_def two_rows_def row_ids_def)
  also have "\<dots> = (2, 12)"
    by code_simp
  finally show ?thesis
    using rc by simp
qed
end
