(* ===== verification/Txn.thy ===== *)
theory Txn
  imports Fts_Meta
begin

text \<open>
  The transaction callbacks, \<^verbatim>\<open>src/tidesdb/src/handler/ha_tidesdb_txn.cc\<close>, with the isolation rule of
  \<^verbatim>\<open>src/tidesdb/src/engine/ha_tidesdb_config.cc\<close>. The engine's globals are the record \<open>engine\<close>: the
  library's state, the registry of prepared transactions, the recovery cursor and the recovered table
  lists. A connection is its transaction record, if it has one, and a handler object is the record
  \<open>ha_tidesdb\<close> of its fields that take part. Every callback takes the library's operations and returns
  its result with the states it changed. Log messages are not modelled.
\<close>

section \<open>State\<close>

record 'l engine =
  e_lib :: 'l
  e_prepared :: "bytes \<rightharpoonup> txn"
  e_rec_xids :: "bytes list"
  e_rec_pos :: nat
  e_rec_loaded :: bool
  e_rec_tables :: "bytes \<rightharpoonup> table_names"

datatype session_iso =
  ISO_READ_UNCOMMITTED | ISO_READ_COMMITTED | ISO_REPEATABLE_READ | ISO_SERIALIZABLE | ISO_OTHER nat

datatype sql_command =
    SQLCOM_ALTER_TABLE | SQLCOM_CREATE_INDEX | SQLCOM_DROP_INDEX | SQLCOM_TRUNCATE | SQLCOM_OPTIMIZE
  | SQLCOM_CREATE_TABLE | SQLCOM_DROP_TABLE | SQLCOM_XA_PREPARE | SQLCOM_OTHER nat

text \<open>What the server says of the thread: the two option bits as one flag, the statement, the
  isolation level, the XID.\<close>

record thd =
  thd_multi_stmt :: bool
  thd_sql_command :: sql_command
  thd_tx_isolation :: session_iso
  thd_xid :: xid

text \<open>The engine's slot in the thread, and the two levels it can be registered at.\<close>

record conn =
  c_trx :: "tidesdb_trx_t option"
  c_reg_stmt :: bool
  c_reg_all :: bool

definition set_lib :: "'l \<Rightarrow> 'l engine \<Rightarrow> 'l engine" where
  "set_lib l e = e\<lparr>e_lib := l\<rparr>"

definition call_lib :: "('l \<Rightarrow> tdb_rc \<times> 'l) \<Rightarrow> 'l engine \<Rightarrow> tdb_rc \<times> 'l engine" where
  "call_lib f e = (case f (e_lib e) of (rc, l) \<Rightarrow> (rc, set_lib l e))"

definition do_lib :: "('l \<Rightarrow> tdb_rc \<times> 'l) \<Rightarrow> 'l engine \<Rightarrow> 'l engine" where
  "do_lib f e = snd (call_lib f e)"

definition free_txn :: "'l tdb_lib \<Rightarrow> txn \<Rightarrow> 'l engine \<Rightarrow> 'l engine" where
  "free_txn lib h e = set_lib (txn_free lib h (e_lib e)) e"

section \<open>Isolation\<close>

fun resolve_effective_isolation :: "session_iso \<Rightarrow> tdb_iso \<Rightarrow> tdb_iso" where
  "resolve_effective_isolation ISO_READ_UNCOMMITTED table_iso = TDB_ISOLATION_READ_UNCOMMITTED"
| "resolve_effective_isolation ISO_READ_COMMITTED table_iso = TDB_ISOLATION_READ_COMMITTED"
| "resolve_effective_isolation ISO_REPEATABLE_READ table_iso =
     (if table_iso = TDB_ISOLATION_REPEATABLE_READ then TDB_ISOLATION_SNAPSHOT else table_iso)"
| "resolve_effective_isolation ISO_SERIALIZABLE table_iso = TDB_ISOLATION_SERIALIZABLE"
| "resolve_effective_isolation (ISO_OTHER _) table_iso = TDB_ISOLATION_READ_COMMITTED"

fun iso_rank :: "tdb_iso \<Rightarrow> nat" where
  "iso_rank TDB_ISOLATION_READ_UNCOMMITTED = 0"
| "iso_rank TDB_ISOLATION_READ_COMMITTED = 1"
| "iso_rank TDB_ISOLATION_REPEATABLE_READ = 2"
| "iso_rank TDB_ISOLATION_SNAPSHOT = 3"
| "iso_rank TDB_ISOLATION_SERIALIZABLE = 4"

section \<open>Helpers\<close>

definition tdb_txn_commit_stateful :: "'l tdb_lib \<Rightarrow> txn \<Rightarrow> 'l engine \<Rightarrow> tdb_rc \<times> 'l engine" where
  "tdb_txn_commit_stateful lib h e =
     (case txn_state lib h (e_lib e) of
        Some TDB_TXN_STATE_PREPARED \<Rightarrow> call_lib (txn_commit_prepared lib h) e
      | _ \<Rightarrow> call_lib (txn_commit lib h) e)"

definition tdb_txn_rollback_stateful :: "'l tdb_lib \<Rightarrow> txn \<Rightarrow> 'l engine \<Rightarrow> 'l engine" where
  "tdb_txn_rollback_stateful lib h e =
     (case txn_state lib h (e_lib e) of
        Some TDB_TXN_STATE_PREPARED \<Rightarrow> do_lib (txn_rollback_prepared lib h) e
      | _ \<Rightarrow> do_lib (txn_rollback lib h) e)"

text \<open>The handler's mark and the list; the names are empty where the server has no string.\<close>

definition note_modified_table ::
  "(bytes \<times> bytes) option \<Rightarrow> u64 \<Rightarrow> tidesdb_trx_t option \<Rightarrow> u64 \<times> tidesdb_trx_t option" where
  "note_modified_table table noted trx =
     (case trx of
        None \<Rightarrow> (noted, None)
      | Some t \<Rightarrow>
          if noted = txn_generation t then (noted, Some t)
          else let t1 = (if mod_tables_generation t \<noteq> txn_generation t
                         then t\<lparr>mod_tables := [], mod_tables_generation := txn_generation t\<rparr> else t)
            in (txn_generation t,
                case table of
                  None \<Rightarrow> Some t1
                | Some name \<Rightarrow>
                    if fst name = [] \<or> snd name = [] then Some t1
                    else if name \<in> set (mod_tables t1) then Some t1
                    else Some (t1\<lparr>mod_tables := mod_tables t1 @ [name]\<rparr>)))"

definition tdb_drop_prepared_entry :: "tidesdb_trx_t \<Rightarrow> 'l engine \<Rightarrow> tidesdb_trx_t \<times> 'l engine" where
  "tdb_drop_prepared_entry t e =
     (if prepared_xid t = [] then (t, e)
      else (t\<lparr>prepared_xid := []\<rparr>, e\<lparr>e_prepared := (e_prepared e)(prepared_xid t := None)\<rparr>))"

definition TIDESDB_STMT_SAVEPOINT :: string where "TIDESDB_STMT_SAVEPOINT = ''stmt''"

text \<open>The three statement savepoint helpers are called with a transaction present.\<close>

definition stmt_savepoint_arm :: "'l tdb_lib \<Rightarrow> txn \<Rightarrow> tidesdb_trx_t \<Rightarrow> 'l engine \<Rightarrow> tidesdb_trx_t \<times> 'l engine" where
  "stmt_savepoint_arm lib h t e =
     (let e1 = do_lib (txn_release_savepoint lib h TIDESDB_STMT_SAVEPOINT) e
      in case call_lib (txn_savepoint lib h TIDESDB_STMT_SAVEPOINT) e1 of
           (rc, e2) \<Rightarrow>
             if rc \<noteq> TDB_SUCCESS then (t, e2)
             else (t\<lparr>stmt_savepoint_active := True, stmt_fts_snapshot := fts_meta_pending t,
                     stmt_fts_dirty_snapshot := fts_meta_dirty t\<rparr>, e2))"

definition stmt_savepoint_disarm :: "'l tdb_lib \<Rightarrow> txn \<Rightarrow> tidesdb_trx_t \<Rightarrow> 'l engine \<Rightarrow> tidesdb_trx_t \<times> 'l engine" where
  "stmt_savepoint_disarm lib h t e =
     (if \<not> stmt_savepoint_active t then (t, e)
      else (t\<lparr>stmt_savepoint_active := False, stmt_fts_snapshot := []\<rparr>,
            do_lib (txn_release_savepoint lib h TIDESDB_STMT_SAVEPOINT) e))"

definition stmt_savepoint_rollback ::
  "'l tdb_lib \<Rightarrow> txn \<Rightarrow> tidesdb_trx_t \<Rightarrow> 'l engine \<Rightarrow> bool \<times> tidesdb_trx_t \<times> 'l engine" where
  "stmt_savepoint_rollback lib h t e =
     (if \<not> stmt_savepoint_active t then (False, t, e)
      else case call_lib (txn_rollback_to_savepoint lib h TIDESDB_STMT_SAVEPOINT) e of
             (rc, e1) \<Rightarrow>
               if rc \<noteq> TDB_SUCCESS
               then (False, t\<lparr>stmt_savepoint_active := False, stmt_fts_snapshot := []\<rparr>, e1)
               else (True, t\<lparr>fts_meta_pending := stmt_fts_snapshot t, fts_meta_dirty := stmt_fts_dirty_snapshot t,
                             stmt_fts_snapshot := [], txn_generation := txn_generation t + 1,
                             stmt_savepoint_active := False\<rparr>, e1))"

definition begin_iso :: "'l tdb_lib \<Rightarrow> tdb_iso \<Rightarrow> 'l engine \<Rightarrow> tdb_rc \<times> txn option \<times> 'l engine" where
  "begin_iso lib lv e = (case txn_begin_iso lib lv (e_lib e) of (rc, out, l) \<Rightarrow> (rc, out, set_lib l e))"

text \<open>Whether a transaction record came back, the connection's slot afterwards, and the engine.\<close>

definition get_or_create_trx ::
  "'l tdb_lib \<Rightarrow> tdb_iso \<Rightarrow> tidesdb_trx_t option \<Rightarrow> 'l engine \<Rightarrow> bool \<times> tidesdb_trx_t option \<times> 'l engine" where
  "get_or_create_trx lib lv trx e =
     (case trx of
        Some t \<Rightarrow>
          (case trx_txn t of
             None \<Rightarrow>
               (case begin_iso lib lv e of
                  (rc, out, e1) \<Rightarrow>
                    if rc \<noteq> TDB_SUCCESS then (False, Some (t\<lparr>trx_txn := out\<rparr>), e1)
                    else (True, Some (t\<lparr>trx_txn := out, dirty := False, isolation_level := lv,
                                        txn_generation := txn_generation t + 1\<rparr>), e1))
           | Some h \<Rightarrow>
               if needs_reset t
               then (case call_lib (txn_reset lib h lv) e of
                       (rrc, e1) \<Rightarrow>
                         if rrc \<noteq> TDB_SUCCESS
                         then (case begin_iso lib lv (free_txn lib h e1) of
                                 (rc, out, e2) \<Rightarrow>
                                   if rc \<noteq> TDB_SUCCESS then (False, Some (t\<lparr>trx_txn := out\<rparr>), e2)
                                   else (True, Some (t\<lparr>trx_txn := out, needs_reset := False, isolation_level := lv,
                                                       txn_generation := txn_generation t + 1\<rparr>), e2))
                         else (True, Some (t\<lparr>needs_reset := False, isolation_level := lv,
                                             txn_generation := txn_generation t + 1\<rparr>), e1))
               else (True, Some t, e))
      | None \<Rightarrow>
          (case begin_iso lib lv e of
             (rc, out, e1) \<Rightarrow>
               if rc \<noteq> TDB_SUCCESS then (False, None, e1)
               else (True, Some (new_trx\<lparr>trx_txn := out, isolation_level := lv, txn_generation := 1\<rparr>), e1)))"

section \<open>Savepoint callbacks\<close>

text \<open>The server's savepoint area: its address and the name kept in it. The name is the address as
  the C library prints a pointer.\<close>

record tidesdb_savepoint_t =
  sv_addr :: nat
  sv_name :: string

definition hex_digit :: "nat \<Rightarrow> char" where
  "hex_digit d = ''0123456789abcdef'' ! (d mod 16)"

fun hex_of :: "nat \<Rightarrow> string" where
  "hex_of n = (if n < 16 then [hex_digit n] else hex_of (n div 16) @ [hex_digit n])"

definition savepoint_name :: "nat \<Rightarrow> string" where
  "savepoint_name a = take 31 (''sv_'' @ ''0x'' @ hex_of a)"

definition tidesdb_savepoint_set ::
  "'l tdb_lib \<Rightarrow> tidesdb_trx_t option \<Rightarrow> tidesdb_savepoint_t option \<Rightarrow> 'l engine
     \<Rightarrow> ha_rc \<times> tidesdb_savepoint_t option \<times> 'l engine" where
  "tidesdb_savepoint_set lib trx sv e =
     (case (Option.bind trx trx_txn, sv) of
        (Some h, Some sp) \<Rightarrow>
          let sp' = sp\<lparr>sv_name := savepoint_name (sv_addr sp)\<rparr>
          in (case call_lib (txn_savepoint lib h (sv_name sp')) e of
                (rc, e1) \<Rightarrow> (if rc = TDB_SUCCESS then HA_OK else tdb_rc_to_ha rc, Some sp', e1))
      | _ \<Rightarrow> (HA_OK, sv, e))"

definition named :: "tidesdb_savepoint_t \<Rightarrow> tidesdb_savepoint_t" where
  "named sp = (if sv_name sp = [] then sp\<lparr>sv_name := savepoint_name (sv_addr sp)\<rparr> else sp)"

definition tidesdb_savepoint_rollback ::
  "'l tdb_lib \<Rightarrow> tidesdb_trx_t option \<Rightarrow> tidesdb_savepoint_t option \<Rightarrow> 'l engine
     \<Rightarrow> ha_rc \<times> tidesdb_savepoint_t option \<times> 'l engine" where
  "tidesdb_savepoint_rollback lib trx sv e =
     (case (Option.bind trx trx_txn, sv) of
        (Some h, Some sp) \<Rightarrow>
          let sp' = named sp
          in (case call_lib (txn_rollback_to_savepoint lib h (sv_name sp')) e of
                (rc, e1) \<Rightarrow>
                  if rc = TDB_SUCCESS then (HA_OK, Some sp', do_lib (txn_savepoint lib h (sv_name sp')) e1)
                  else if rc = TDB_ERR_NOT_FOUND then (HA_ERR_NO_SAVEPOINT, Some sp', e1)
                  else (tdb_rc_to_ha rc, Some sp', e1))
      | _ \<Rightarrow> (HA_OK, sv, e))"

definition tidesdb_savepoint_release ::
  "'l tdb_lib \<Rightarrow> tidesdb_trx_t option \<Rightarrow> tidesdb_savepoint_t option \<Rightarrow> 'l engine
     \<Rightarrow> ha_rc \<times> tidesdb_savepoint_t option \<times> 'l engine" where
  "tidesdb_savepoint_release lib trx sv e =
     (case (Option.bind trx trx_txn, sv) of
        (Some h, Some sp) \<Rightarrow>
          let sp' = named sp
          in (case call_lib (txn_release_savepoint lib h (sv_name sp')) e of
                (rc, e1) \<Rightarrow>
                  if rc = TDB_SUCCESS then (HA_OK, Some sp', e1)
                  else if rc = TDB_ERR_NOT_FOUND then (HA_ERR_NO_SAVEPOINT, Some sp', e1)
                  else (tdb_rc_to_ha rc, Some sp', e1))
      | _ \<Rightarrow> (HA_OK, sv, e))"

section \<open>Commit and rollback\<close>

text \<open>What every failure path of commit and prepare does: the transaction is gone.\<close>

definition abandon :: "tidesdb_trx_t \<Rightarrow> tidesdb_trx_t" where
  "abandon t = t\<lparr>trx_txn := None, txn_generation := txn_generation t + 1, dirty := False\<rparr>"

definition tdb_finalize_commit ::
  "'l tdb_lib \<Rightarrow> txn \<Rightarrow> tidesdb_trx_t \<Rightarrow> 'l engine \<Rightarrow> ha_rc \<times> tidesdb_trx_t \<times> 'l engine" where
  "tdb_finalize_commit lib h t0 e0 =
     (case stmt_savepoint_disarm lib h t0 e0 of
        (t1, e1) \<Rightarrow>
          (case tdb_drop_prepared_entry t1 e1 of
             (t, e) \<Rightarrow>
               if dirty t
               then (case flush_trx_fts_meta_pending lib t (e_lib e) of
                       (frc, t2, l2) \<Rightarrow>
                         let e2 = set_lib l2 e
                         in if frc \<noteq> TDB_SUCCESS
                            then (tdb_rc_to_ha frc, (abandon t2)\<lparr>stmt_savepoint_active := False\<rparr>,
                                  free_txn lib h (do_lib (txn_rollback lib h) e2))
                            else (case tdb_txn_commit_stateful lib h e2 of
                                    (rc, e3) \<Rightarrow>
                                      if rc \<noteq> TDB_SUCCESS
                                      then (tdb_rc_to_ha rc, (abandon t2)\<lparr>stmt_savepoint_active := False\<rparr>,
                                            free_txn lib h (tdb_txn_rollback_stateful lib h e3))
                                      else (HA_OK,
                                            t2\<lparr>txn_generation := txn_generation t2 + 1, needs_reset := True,
                                               dirty := False, stmt_savepoint_active := False\<rparr>, e3)))
               else (HA_OK,
                     (clear_fts_meta t)\<lparr>txn_generation := txn_generation t + 1, needs_reset := True,
                        dirty := False, stmt_savepoint_active := False\<rparr>,
                     do_lib (txn_rollback lib h) e)))"

definition is_real :: "bool \<Rightarrow> thd \<Rightarrow> bool" where
  "is_real all thd \<longleftrightarrow> all \<or> \<not> thd_multi_stmt thd"

definition tidesdb_commit ::
  "'l tdb_lib \<Rightarrow> thd \<Rightarrow> bool \<Rightarrow> tidesdb_trx_t option \<Rightarrow> 'l engine \<Rightarrow> ha_rc \<times> tidesdb_trx_t option \<times> 'l engine" where
  "tidesdb_commit lib thd all trx e =
     (case trx of
        None \<Rightarrow> (HA_OK, trx, e)
      | Some t \<Rightarrow>
          (case trx_txn t of
             None \<Rightarrow> (HA_OK, trx, e)
           | Some h \<Rightarrow>
               if \<not> is_real all thd
               then (case stmt_savepoint_disarm lib h t e of (t1, e1) \<Rightarrow> (HA_OK, Some t1, e1))
               else (case tdb_finalize_commit lib h t e of (rc, t1, e1) \<Rightarrow> (rc, Some t1, e1))))"

text \<open>The full rollback after the statement-level one was not possible or not wanted.\<close>

definition rollback_all :: "'l tdb_lib \<Rightarrow> txn \<Rightarrow> tidesdb_trx_t \<Rightarrow> 'l engine \<Rightarrow> tidesdb_trx_t \<times> 'l engine" where
  "rollback_all lib h t0 e0 =
     (let (t1, e1) = (if stmt_savepoint_active t0
                      then (t0\<lparr>stmt_savepoint_active := False\<rparr>,
                            do_lib (txn_release_savepoint lib h TIDESDB_STMT_SAVEPOINT) e0)
                      else (t0, e0));
          (t2, e2) = tdb_drop_prepared_entry t1 e1;
          t3 = (clear_fts_meta t2)\<lparr>stmt_fts_snapshot := []\<rparr>
      in (t3\<lparr>txn_generation := txn_generation t3 + 1, needs_reset := True, dirty := False,
             stmt_savepoint_active := False\<rparr>,
          tdb_txn_rollback_stateful lib h e2))"

definition tidesdb_rollback ::
  "'l tdb_lib \<Rightarrow> thd \<Rightarrow> bool \<Rightarrow> tidesdb_trx_t option \<Rightarrow> 'l engine \<Rightarrow> ha_rc \<times> tidesdb_trx_t option \<times> 'l engine" where
  "tidesdb_rollback lib thd all trx e =
     (case trx of
        None \<Rightarrow> (HA_OK, trx, e)
      | Some t \<Rightarrow>
          (case trx_txn t of
             None \<Rightarrow> (HA_OK, trx, e)
           | Some h \<Rightarrow>
               (case (if is_real all thd then (False, t, e) else stmt_savepoint_rollback lib h t e) of
                  (done, t1, e1) \<Rightarrow>
                    if done then (HA_OK, Some t1, e1)
                    else (case rollback_all lib h t1 e1 of (t2, e2) \<Rightarrow> (HA_OK, Some t2, e2)))))"

definition tidesdb_close_connection ::
  "'l tdb_lib \<Rightarrow> tidesdb_trx_t option \<Rightarrow> 'l engine \<Rightarrow> ha_rc \<times> tidesdb_trx_t option \<times> 'l engine" where
  "tidesdb_close_connection lib trx e =
     (case trx of
        None \<Rightarrow> (HA_OK, None, e)
      | Some t \<Rightarrow>
          if prepared_xid t \<noteq> [] then (HA_OK, None, e)
          else (case trx_txn t of
                  None \<Rightarrow> (HA_OK, None, e)
                | Some h \<Rightarrow> (HA_OK, None, free_txn lib h (do_lib (txn_rollback lib h) e))))"

section \<open>Starting a transaction\<close>

definition tidesdb_start_consistent_snapshot ::
  "'l tdb_lib \<Rightarrow> thd \<Rightarrow> conn \<Rightarrow> 'l engine \<Rightarrow> bool \<times> conn \<times> 'l engine" where
  "tidesdb_start_consistent_snapshot lib thd c e =
     (let lv0 = resolve_effective_isolation (thd_tx_isolation thd) TDB_ISOLATION_REPEATABLE_READ;
          lv = (if iso_rank lv0 < iso_rank TDB_ISOLATION_SNAPSHOT then TDB_ISOLATION_SNAPSHOT else lv0)
      in case get_or_create_trx lib lv (c_trx c) e of
           (ok, trx, e1) \<Rightarrow>
             if \<not> ok then (False, c\<lparr>c_trx := trx\<rparr>, e1)
             else (True, c\<lparr>c_trx := trx, c_reg_stmt := True, c_reg_all := True\<rparr>, e1))"

definition tdb_stmt_txn_for_ddl ::
  "'l tdb_lib \<Rightarrow> thd \<Rightarrow> conn \<Rightarrow> 'l engine \<Rightarrow> txn option \<times> conn \<times> 'l engine" where
  "tdb_stmt_txn_for_ddl lib thd c e =
     (case get_or_create_trx lib (resolve_effective_isolation (thd_tx_isolation thd) TDB_ISOLATION_READ_COMMITTED)
             (c_trx c) e of
        (ok, trx, e1) \<Rightarrow>
          (case trx of
             None \<Rightarrow> (None, c\<lparr>c_trx := None\<rparr>, e1)
           | Some t \<Rightarrow>
               if \<not> ok \<or> trx_txn t = None then (None, c\<lparr>c_trx := Some t\<rparr>, e1)
               else (trx_txn t, c\<lparr>c_trx := Some (t\<lparr>dirty := True\<rparr>), c_reg_stmt := True, c_reg_all := True\<rparr>, e1)))"

text \<open>The part of a handler object that deals with transactions. \<open>share_iso\<close> is the level of the
  shared table definition where there is one; the two cached pointers are flags.\<close>

record ha_tidesdb =
  share_iso :: "tdb_iso option"
  stmt_txn :: "txn option"
  stmt_txn_dirty :: bool
  cached_thd :: bool
  cached_trx :: bool
  cached_sql_cmd :: sql_command
  cached_is_autocommit :: bool
  cached_stmt_shape_valid :: bool
  scan_iter :: "iter option"
  scan_iter_txn :: "txn option"
  scan_txn :: "txn option"
  share_update_time :: int
  cached_time :: int
  cached_time_valid :: bool
  enc_key_ver_valid :: bool
  cached_thdvars_valid :: bool
  mod_table_noted_generation :: u64

fun is_ddl :: "sql_command \<Rightarrow> bool" where
  "is_ddl SQLCOM_XA_PREPARE = False"
| "is_ddl (SQLCOM_OTHER _) = False"
| "is_ddl _ = True"

definition effective_iso :: "sql_command \<Rightarrow> thd \<Rightarrow> ha_tidesdb \<Rightarrow> tdb_iso" where
  "effective_iso cmd thd ha =
     (if is_ddl cmd then TDB_ISOLATION_READ_COMMITTED
      else resolve_effective_isolation (thd_tx_isolation thd)
             (case share_iso ha of None \<Rightarrow> TDB_ISOLATION_SNAPSHOT | Some lv \<Rightarrow> lv))"

definition ensure_stmt_txn ::
  "'l tdb_lib \<Rightarrow> thd \<Rightarrow> ha_tidesdb \<Rightarrow> conn \<Rightarrow> 'l engine \<Rightarrow> ha_rc \<times> ha_tidesdb \<times> conn \<times> 'l engine" where
  "ensure_stmt_txn lib thd ha c e =
     (if stmt_txn ha \<noteq> None then (HA_OK, ha, c, e)
      else let cmd = (if cached_stmt_shape_valid ha then cached_sql_cmd ha else thd_sql_command thd)
        in case get_or_create_trx lib (effective_iso cmd thd ha) (c_trx c) e of
             (ok, trx, e1) \<Rightarrow>
               if \<not> ok then (HA_ERR_OUT_OF_MEM, ha, c\<lparr>c_trx := trx\<rparr>, e1)
               else (HA_OK, ha\<lparr>stmt_txn := Option.bind trx trx_txn\<rparr>, c\<lparr>c_trx := trx\<rparr>, e1))"

definition external_lock_acquire ::
  "'l tdb_lib \<Rightarrow> thd \<Rightarrow> ha_tidesdb \<Rightarrow> conn \<Rightarrow> 'l engine \<Rightarrow> ha_rc \<times> ha_tidesdb \<times> conn \<times> 'l engine" where
  "external_lock_acquire lib thd ha0 c e =
     (let cmd = thd_sql_command thd;
          ac = (\<not> thd_multi_stmt thd);
          ha = ha0\<lparr>cached_sql_cmd := cmd, cached_is_autocommit := ac, cached_stmt_shape_valid := True\<rparr>
      in case get_or_create_trx lib (effective_iso cmd thd ha) (c_trx c) e of
           (ok, trx, e1) \<Rightarrow>
             (case trx of
                None \<Rightarrow> (HA_ERR_OUT_OF_MEM, ha, c\<lparr>c_trx := None\<rparr>, e1)
              | Some t \<Rightarrow>
                  if \<not> ok then (HA_ERR_OUT_OF_MEM, ha, c\<lparr>c_trx := Some t\<rparr>, e1)
                  else let ha1 = ha\<lparr>stmt_txn := trx_txn t, stmt_txn_dirty := False, cached_thd := True, cached_trx := True\<rparr>;
                           c1 = c\<lparr>c_trx := Some t, c_reg_stmt := True, c_reg_all := c_reg_all c \<or> \<not> ac\<rparr>
                    in (case trx_txn t of
                          Some h \<Rightarrow>
                            if \<not> ac \<and> \<not> is_ddl cmd \<and> \<not> stmt_savepoint_active t
                            then (case stmt_savepoint_arm lib h t e1 of
                                    (t1, e2) \<Rightarrow> (HA_OK, ha1, c1\<lparr>c_trx := Some t1\<rparr>, e2))
                            else (HA_OK, ha1, c1, e1)
                        | None \<Rightarrow> (HA_OK, ha1, c1, e1))))"

definition start_stmt ::
  "'l tdb_lib \<Rightarrow> thd \<Rightarrow> ha_tidesdb \<Rightarrow> conn \<Rightarrow> 'l engine \<Rightarrow> ha_rc \<times> ha_tidesdb \<times> conn \<times> 'l engine" where
  "start_stmt lib thd ha c e = external_lock_acquire lib thd ha c e"

definition external_lock_release ::
  "'l tdb_lib \<Rightarrow> thd \<Rightarrow> int \<Rightarrow> ha_tidesdb \<Rightarrow> 'l engine \<Rightarrow> ha_tidesdb \<times> 'l engine" where
  "external_lock_release lib thd now ha0 e0 =
     (let multi = (if cached_stmt_shape_valid ha0 then \<not> cached_is_autocommit ha0 else thd_multi_stmt thd);
          (ha1, e1) =
            (if \<not> multi \<or> stmt_txn_dirty ha0
             then (case scan_iter ha0 of
                     Some it \<Rightarrow> (ha0\<lparr>scan_iter := None, scan_iter_txn := None\<rparr>, set_lib (iter_free lib it (e_lib e0)) e0)
                   | None \<Rightarrow> (ha0, e0))
             else (ha0, e0));
          ha2 = (if stmt_txn_dirty ha1 \<and> share_iso ha1 \<noteq> None
                 then ha1\<lparr>share_update_time := (if cached_time_valid ha1 then cached_time ha1 else now)\<rparr> else ha1)
      in (ha2\<lparr>enc_key_ver_valid := False, cached_time_valid := False, cached_thdvars_valid := False,
              stmt_txn := None, stmt_txn_dirty := False, cached_thd := False, cached_trx := False,
              cached_stmt_shape_valid := False\<rparr>, e1))"

datatype lock_type = F_UNLCK | F_RDLCK | F_WRLCK

definition external_lock ::
  "'l tdb_lib \<Rightarrow> thd \<Rightarrow> int \<Rightarrow> lock_type \<Rightarrow> ha_tidesdb \<Rightarrow> conn \<Rightarrow> 'l engine \<Rightarrow> ha_rc \<times> ha_tidesdb \<times> conn \<times> 'l engine" where
  "external_lock lib thd now lt ha c e =
     (if lt \<noteq> F_UNLCK then external_lock_acquire lib thd ha c e
      else case external_lock_release lib thd now ha e of (ha', e') \<Rightarrow> (HA_OK, ha', c, e'))"

section \<open>Two-phase commit\<close>

definition TDB_XA_PREPARE_DETACHES :: bool where "TDB_XA_PREPARE_DETACHES = True"

text \<open>Publishing a prepared transaction, and letting go of it where the server detaches.\<close>

definition publish_prepared :: "bytes \<Rightarrow> txn \<Rightarrow> tidesdb_trx_t \<Rightarrow> 'l engine \<Rightarrow> tidesdb_trx_t \<times> 'l engine" where
  "publish_prepared key h t e =
     (let t1 = t\<lparr>prepared_xid := key, prepared_mod_tables := mod_tables t, mod_tables := []\<rparr>;
          t2 = (if TDB_XA_PREPARE_DETACHES
                then (clear_fts_meta t1)\<lparr>trx_txn := None, dirty := False, txn_generation := txn_generation t1 + 1,
                                         prepared_xid := []\<rparr>
                else t1\<lparr>prepared_xid := key\<rparr>)
      in (t2, e\<lparr>e_prepared := (e_prepared e)(key \<mapsto> h)\<rparr>))"

definition give_up :: "'l tdb_lib \<Rightarrow> txn \<Rightarrow> tdb_rc \<Rightarrow> tidesdb_trx_t \<Rightarrow> 'l engine \<Rightarrow> ha_rc \<times> tidesdb_trx_t option \<times> 'l engine" where
  "give_up lib h rc t e = (tdb_rc_to_ha rc, Some (abandon t), free_txn lib h (tdb_txn_rollback_stateful lib h e))"

definition tidesdb_prepare ::
  "'l tdb_lib \<Rightarrow> thd \<Rightarrow> bool \<Rightarrow> tidesdb_trx_t option \<Rightarrow> 'l engine \<Rightarrow> ha_rc \<times> tidesdb_trx_t option \<times> 'l engine" where
  "tidesdb_prepare lib thd all trx e0 =
     (case trx of
        None \<Rightarrow> (HA_OK, trx, e0)
      | Some t0 \<Rightarrow>
          (case trx_txn t0 of
             None \<Rightarrow> (HA_OK, trx, e0)
           | Some h \<Rightarrow>
               if \<not> all then (HA_OK, trx, e0)
               else (case stmt_savepoint_disarm lib h t0 e0 of
                 (t, e) \<Rightarrow>
                   let is_external = (thd_sql_command thd = SQLCOM_XA_PREPARE)
                   in if \<not> dirty t \<and> \<not> is_external then (HA_OK, Some t, e)
                      else (case (if dirty t then flush_trx_fts_meta_pending lib t (e_lib e)
                                  else (TDB_SUCCESS, t, e_lib e)) of
                        (frc, t1, l1) \<Rightarrow>
                          let e1 = set_lib l1 e
                          in if frc \<noteq> TDB_SUCCESS then give_up lib h frc t1 e1
                             else let key = tdb_xid_key (thd_xid thd)
                               in (case call_lib (txn_prepare lib h key) e1 of
                                     (rc, e2) \<Rightarrow>
                                       if rc \<noteq> TDB_SUCCESS then give_up lib h rc t1 e2
                                       else if is_external
                                         then (case publish_prepared key h t1 e2 of
                                                 (t3, e3) \<Rightarrow> (HA_OK, Some t3, e3))
                                         else (HA_OK, Some t1, e2))))))"

definition TDB_XA_TC_CF_NAME :: string where "TDB_XA_TC_CF_NAME = ''__tidesql_xa_tc''"

definition tdb_xa_tc_cf :: "'l tdb_lib \<Rightarrow> 'l \<Rightarrow> cf option \<times> 'l" where
  "tdb_xa_tc_cf lib l =
     (case get_column_family lib TDB_XA_TC_CF_NAME l of
        Some c \<Rightarrow> (Some c, l)
      | None \<Rightarrow>
          (case create_column_family lib TDB_XA_TC_CF_NAME l of
             (rc, l1) \<Rightarrow> (if rc = TDB_SUCCESS then get_column_family lib TDB_XA_TC_CF_NAME l1 else None, l1)))"

text \<open>A transaction of its own for one write, as both marker operations use it.\<close>

definition tdb_xa_tc_mark :: "'l tdb_lib \<Rightarrow> bytes \<Rightarrow> table_names \<Rightarrow> 'l \<Rightarrow> bool \<times> 'l" where
  "tdb_xa_tc_mark lib key tables l0 =
     (case tdb_xa_tc_cf lib l0 of
        (None, l) \<Rightarrow> (False, l)
      | (Some c, l) \<Rightarrow>
          (case txn_begin lib l of
             (rc, out, l1) \<Rightarrow>
               (case out of
                  Some h \<Rightarrow>
                    if rc \<noteq> TDB_SUCCESS then (False, l1)
                    else (case txn_put lib h c key (tdb_xa_tc_encode tables) TIDESDB_TTL_NONE l1 of
                            (prc, l2) \<Rightarrow>
                              if prc = TDB_SUCCESS
                              then (case txn_commit lib h l2 of
                                      (crc, l3) \<Rightarrow> (crc = TDB_SUCCESS, txn_free lib h l3))
                              else (False, txn_free lib h (snd (txn_rollback lib h l2))))
                | None \<Rightarrow> (False, l1))))"

definition tdb_xa_tc_clear :: "'l tdb_lib \<Rightarrow> bytes \<Rightarrow> 'l \<Rightarrow> 'l" where
  "tdb_xa_tc_clear lib key l0 =
     (case tdb_xa_tc_cf lib l0 of
        (None, l) \<Rightarrow> l
      | (Some c, l) \<Rightarrow>
          if key = [] then l
          else (case txn_begin lib l of
             (rc, out, l1) \<Rightarrow>
               (case out of
                  Some h \<Rightarrow>
                    if rc \<noteq> TDB_SUCCESS then l1
                    else (case txn_delete lib h c key l1 of
                            (drc, l2) \<Rightarrow>
                              if drc = TDB_SUCCESS then txn_free lib h (snd (txn_commit lib h l2))
                              else txn_free lib h (snd (txn_rollback lib h l2)))
                | None \<Rightarrow> l1)))"

datatype xa_rc = XA_OK | XAER_RMERR

text \<open>
  Resolving by XID. The registry is locked for the look-up and again for putting the transaction
  back, but not in between, so the two are separate steps: \<open>by_xid_take\<close> removes the entry and
  \<open>by_xid_finish\<close> carries the decision out.
\<close>

definition by_xid_take :: "bytes \<Rightarrow> 'l engine \<Rightarrow> txn option \<times> 'l engine" where
  "by_xid_take key e =
     (case e_prepared e key of
        None \<Rightarrow> (None, e)
      | Some h \<Rightarrow> (Some h, e\<lparr>e_prepared := (e_prepared e)(key := None)\<rparr>))"

definition by_xid_finish ::
  "(txn \<Rightarrow> 'l \<Rightarrow> tdb_rc \<times> 'l) \<Rightarrow> 'l tdb_lib \<Rightarrow> bytes \<Rightarrow> txn \<Rightarrow> 'l engine \<Rightarrow> xa_rc \<times> 'l engine" where
  "by_xid_finish resolve lib key h e =
     (case call_lib (resolve h) e of
        (rc, e1) \<Rightarrow>
          if rc \<noteq> TDB_SUCCESS then (XAER_RMERR, e1\<lparr>e_prepared := (e_prepared e1)(key \<mapsto> h)\<rparr>)
          else let e2 = free_txn lib h e1
            in (XA_OK, set_lib (tdb_xa_tc_clear lib key (e_lib e2)) e2))"

definition resolve_by_xid ::
  "(txn \<Rightarrow> 'l \<Rightarrow> tdb_rc \<times> 'l) \<Rightarrow> 'l tdb_lib \<Rightarrow> xid \<Rightarrow> 'l engine \<Rightarrow> xa_rc \<times> 'l engine" where
  "resolve_by_xid resolve lib x e =
     (case by_xid_take (tdb_xid_key x) e of
        (None, e1) \<Rightarrow> (XA_OK, e1)
      | (Some h, e1) \<Rightarrow> by_xid_finish resolve lib (tdb_xid_key x) h e1)"

definition tidesdb_commit_by_xid :: "'l tdb_lib \<Rightarrow> xid \<Rightarrow> 'l engine \<Rightarrow> xa_rc \<times> 'l engine" where
  "tidesdb_commit_by_xid lib = resolve_by_xid (txn_commit_prepared lib) lib"

definition tidesdb_rollback_by_xid :: "'l tdb_lib \<Rightarrow> xid \<Rightarrow> 'l engine \<Rightarrow> xa_rc \<times> 'l engine" where
  "tidesdb_rollback_by_xid lib = resolve_by_xid (txn_rollback_prepared lib) lib"

section \<open>Recovery\<close>

definition register_txn :: "(bytes \<rightharpoonup> txn) \<Rightarrow> bytes \<times> txn \<Rightarrow> (bytes \<rightharpoonup> txn)" where
  "register_txn m r = m(fst r \<mapsto> snd r)"

definition tdb_load_recovered_prepared :: "'l tdb_lib \<Rightarrow> 'l engine \<Rightarrow> 'l engine" where
  "tdb_load_recovered_prepared lib e0 =
     (if e_rec_loaded e0 then e0
      else let e = e0\<lparr>e_rec_loaded := True\<rparr>
        in (case recover_count lib (e_lib e) of
              (rc, count, l1) \<Rightarrow>
                if rc \<noteq> TDB_SUCCESS \<or> count \<le> 0 then set_lib l1 e
                else (case recover_prepared lib count l1 of
                        (rc2, buf, l2) \<Rightarrow>
                          if rc2 \<noteq> TDB_SUCCESS then set_lib l2 e
                          else (set_lib l2 e)\<lparr>
                            e_prepared := foldl register_txn (e_prepared e) buf,
                            e_rec_xids := e_rec_xids e @ map fst buf\<rparr>)))"

text \<open>One batch: the keys not handed out yet, the room in the caller's array, what was filled in, and
  how many keys were passed over.\<close>

fun recover_batch :: "(bytes \<rightharpoonup> table_names) \<Rightarrow> bytes list \<Rightarrow> nat \<Rightarrow> (xid \<times> table_names) list \<times> nat" where
  "recover_batch tabs [] room = ([], 0)"
| "recover_batch tabs (k # ks) 0 = ([], 0)"
| "recover_batch tabs (k # ks) (Suc room) =
     (case tdb_xid_from_key (Some k) True of
        None \<Rightarrow> (case recover_batch tabs ks (Suc room) of (out, n) \<Rightarrow> (out, Suc n))
      | Some x \<Rightarrow>
          (case recover_batch tabs ks room of
             (out, n) \<Rightarrow> ((x, case tabs k of None \<Rightarrow> [] | Some t \<Rightarrow> t) # out, Suc n)))"

definition tidesdb_recover :: "'l tdb_lib \<Rightarrow> nat \<Rightarrow> 'l engine \<Rightarrow> (xid \<times> table_names) list \<times> 'l engine" where
  "tidesdb_recover lib len e0 =
     (if len = 0 then ([], e0)
      else let e = tdb_load_recovered_prepared lib e0
        in (case recover_batch (e_rec_tables e) (drop (e_rec_pos e) (e_rec_xids e)) len of
              (out, n) \<Rightarrow> (out, e\<lparr>e_rec_pos := e_rec_pos e + n\<rparr>)))"

definition tidesdb_set_prepared_in_tc ::
  "'l tdb_lib \<Rightarrow> thd \<Rightarrow> tidesdb_trx_t option \<Rightarrow> 'l engine \<Rightarrow> ha_rc \<times> tidesdb_trx_t option \<times> 'l engine" where
  "tidesdb_set_prepared_in_tc lib thd trx e =
     (let tables = (case trx of None \<Rightarrow> [] | Some t \<Rightarrow> prepared_mod_tables t);
          trx1 = map_option (\<lambda>t. t\<lparr>prepared_mod_tables := []\<rparr>) trx
      in case tdb_xa_tc_mark lib (tdb_xid_key (thd_xid thd)) tables (e_lib e) of
           (ok, l) \<Rightarrow> (if ok then HA_OK else HA_ERR_INTERNAL_ERROR, trx1, set_lib l e))"

text \<open>The scan of the marker family: the library's state, the XIDs reported so far, the table lists.\<close>

partial_function (option) tc_scan ::
  "'l tdb_lib \<Rightarrow> iter \<Rightarrow> 'l \<Rightarrow> xid list \<Rightarrow> (bytes \<rightharpoonup> table_names) \<Rightarrow> ('l \<times> xid list \<times> (bytes \<rightharpoonup> table_names)) option" where
  "tc_scan lib it l xs tabs =
     (if \<not> iter_valid lib it l then Some (l, xs, tabs)
      else case iter_key lib it l of
        (krc, k) \<Rightarrow>
          (case (if krc = TDB_SUCCESS then tdb_xid_from_key (Some k) True else None) of
             None \<Rightarrow> tc_scan lib it (iter_next lib it l) xs tabs
           | Some x \<Rightarrow>
               (case iter_value lib it l of
                  (vrc, v) \<Rightarrow>
                    tc_scan lib it (iter_next lib it l) (xs @ [x])
                      (tabs(k \<mapsto> if vrc = TDB_SUCCESS then snd (tdb_xa_tc_decode (Some v)) else [])))))"

definition tidesdb_recover_prepared_in_tc :: "'l tdb_lib \<Rightarrow> 'l engine \<Rightarrow> (xid list \<times> 'l engine) option" where
  "tidesdb_recover_prepared_in_tc lib e =
     (case tdb_xa_tc_cf lib (e_lib e) of
        (None, l) \<Rightarrow> Some ([], set_lib l e)
      | (Some c, l) \<Rightarrow>
          (case txn_begin lib l of
             (rc, out, l1) \<Rightarrow>
               (case out of
                  None \<Rightarrow> Some ([], set_lib l1 e)
                | Some h \<Rightarrow>
                    if rc \<noteq> TDB_SUCCESS then Some ([], set_lib l1 e)
                    else (case iter_new lib h c l1 of
                            (irc, io, l2) \<Rightarrow>
                              (case (if irc = TDB_SUCCESS then io else None) of
                                 None \<Rightarrow> Some ([], set_lib (txn_free lib h (snd (txn_rollback lib h l2))) e)
                               | Some it \<Rightarrow>
                                   map_option
                                     (\<lambda>(l3, xs, tabs).
                                        (xs, (set_lib (txn_free lib h (snd (txn_rollback lib h (iter_free lib it l3)))) e)
                                               \<lparr>e_rec_tables := tabs\<rparr>))
                                     (tc_scan lib it (iter_seek_to_first lib it l2) [] (e_rec_tables e)))))))"

definition tidesdb_set_prepared_in_tc_by_xid :: "'l tdb_lib \<Rightarrow> xid option \<Rightarrow> 'l engine \<Rightarrow> xa_rc \<times> 'l engine" where
  "tidesdb_set_prepared_in_tc_by_xid lib xo e =
     (case xo of
        None \<Rightarrow> (XA_OK, e)
      | Some x \<Rightarrow>
          let key = tdb_xid_key x;
              tables = (case e_rec_tables e key of None \<Rightarrow> [] | Some t \<Rightarrow> t)
          in (case tdb_xa_tc_mark lib key tables (e_lib e) of
                (ok, l) \<Rightarrow> (if ok then XA_OK else XAER_RMERR, set_lib l e)))"
end
