(* ===== verification/Txn_Own.thy ===== *)
theory Txn_Own
  imports Txn
begin

text \<open>
  Who owns a library transaction. The callbacks of \<open>Txn\<close> are shown to be traces of a few actions on the
  one transaction their runner holds; the step relation \<open>sys_step\<close> puts any number of connections and
  by-XID resolvers over one engine, with one rule per callback; and rule induction gives the property
  that no handle leaks, is shared, or is used after it was freed.
\<close>

section \<open>Traces of one owner\<close>

text \<open>
  Whoever runs a callback holds at most one transaction. \<open>own_run g D K\<close> relates what the runner holds
  and the engine before and after; each rule is one thing a callback may do. \<open>K\<close> holds the keys under
  which it may publish a transaction.
\<close>

inductive own_run ::
  "'l lib_ghost \<Rightarrow> txn set \<Rightarrow> bytes set \<Rightarrow> txn option \<Rightarrow> 'l engine \<Rightarrow> txn option \<Rightarrow> 'l engine \<Rightarrow> bool"
  for g :: "'l lib_ghost" and D :: "txn set" and K :: "bytes set" and o0 :: "txn option" and e0 :: "'l engine" where
  stay: "own_run g D K o0 e0 o0 e0"
| call: "own_run g D K o0 e0 (Some h) e \<Longrightarrow> own_txn g h (e_lib e) l \<Longrightarrow> own_run g D K o0 e0 (Some h) (set_lib l e)"
| plain: "own_run g D K o0 e0 ow e \<Longrightarrow> own_plain g (e_lib e) l \<Longrightarrow> own_run g D K o0 e0 ow (set_lib l e)"
| fresh: "own_run g D K o0 e0 None e \<Longrightarrow> own_begin g (e_lib e) TDB_SUCCESS (Some h) l \<Longrightarrow>
    own_run g D K o0 e0 (Some h) (set_lib l e)"
| free: "own_run g D K o0 e0 (Some h) e \<Longrightarrow> own_free g h (e_lib e) l \<Longrightarrow> own_run g D K o0 e0 None (set_lib l e)"
| publish: "own_run g D K o0 e0 (Some h) e \<Longrightarrow> e_prepared e k = None \<Longrightarrow> k \<in> K \<Longrightarrow>
    own_run g D K o0 e0 None (e\<lparr>e_prepared := (e_prepared e)(k \<mapsto> h)\<rparr>)"
| take: "own_run g D K o0 e0 None e \<Longrightarrow> e_prepared e k = Some h \<Longrightarrow>
    own_run g D K o0 e0 (Some h) (e\<lparr>e_prepared := (e_prepared e)(k := None)\<rparr>)"
| load: "own_run g D K o0 e0 ow e \<Longrightarrow> \<not> e_rec_loaded e \<Longrightarrow> e_prepared e = Map.empty \<Longrightarrow>
    distinct (map snd buf) \<Longrightarrow> set (map snd buf) \<subseteq> D \<Longrightarrow> set (map fst buf) \<subseteq> K \<Longrightarrow>
    own_run g D K o0 e0 ow (e\<lparr>e_prepared := foldl register_txn (e_prepared e) buf,
                           e_rec_loaded := True, e_rec_xids := xs\<rparr>)"
| cursor: "own_run g D K o0 e0 ow e \<Longrightarrow> own_run g D K o0 e0 ow (e\<lparr>e_rec_pos := n\<rparr>)"
| tables: "own_run g D K o0 e0 ow e \<Longrightarrow> own_run g D K o0 e0 ow (e\<lparr>e_rec_tables := tb\<rparr>)"

section \<open>The invariant\<close>

datatype owner = Slot nat | Registry bytes

definition owners :: "(nat \<Rightarrow> txn option) \<Rightarrow> 'l engine \<Rightarrow> owner \<Rightarrow> txn option" where
  "owners slots e w = (case w of Slot i \<Rightarrow> slots i | Registry k \<Rightarrow> e_prepared e k)"

definition owned :: "(nat \<Rightarrow> txn option) \<Rightarrow> 'l engine \<Rightarrow> txn set" where
  "owned slots e = ran (owners slots e)"

definition one_each :: "('a \<rightharpoonup> 'b) \<Rightarrow> bool" where
  "one_each m \<longleftrightarrow> (\<forall>a b x. m a = Some x \<longrightarrow> m b = Some x \<longrightarrow> a = b)"

definition own_inv :: "'l lib_ghost \<Rightarrow> txn set \<Rightarrow> (nat \<Rightarrow> txn option) \<Rightarrow> 'l engine \<Rightarrow> bool" where
  "own_inv g D slots e \<longleftrightarrow>
     g_ok g (e_lib e) \<and>
     one_each (owners slots e) \<and>
     owned slots e \<subseteq> g_live g (e_lib e) \<and>
     g_live g (e_lib e) \<subseteq> owned slots e \<union> D \<and>
     (\<not> e_rec_loaded e \<longrightarrow> D \<subseteq> g_live g (e_lib e) \<and> D \<inter> owned slots e = {})"

lemma owners_set_lib [simp]: "owners slots (set_lib l e) = owners slots e"
  by (rule ext) (simp add: owners_def set_lib_def split: owner.split)

lemma owners_cursor [simp]:
  "owners slots (e\<lparr>e_rec_pos := n\<rparr>) = owners slots e" "owners slots (e\<lparr>e_rec_tables := tb\<rparr>) = owners slots e"
  by (rule ext, simp add: owners_def split: owner.split)+

lemma owned_set_lib [simp]: "owned slots (set_lib l e) = owned slots e"
  by (simp add: owned_def)

lemma set_lib_fields [simp]:
  "e_lib (set_lib l e) = l" "e_prepared (set_lib l e) = e_prepared e" "e_rec_loaded (set_lib l e) = e_rec_loaded e"
  "e_rec_xids (set_lib l e) = e_rec_xids e" "e_rec_pos (set_lib l e) = e_rec_pos e"
  "e_rec_tables (set_lib l e) = e_rec_tables e"
  by (simp_all add: set_lib_def)

lemma own_inv_set_lib:
  "own_inv g D slots e \<Longrightarrow> g_ok g l \<Longrightarrow> g_live g l = g_live g (e_lib e) \<Longrightarrow> own_inv g D slots (set_lib l e)"
  by (simp add: own_inv_def)

lemma owners_upd:
  "owners (slots(i := x)) e = (owners slots e)(Slot i := x)"
  "owners slots (e\<lparr>e_prepared := (e_prepared e)(k := x)\<rparr>) = (owners slots e)(Registry k := x)"
  by (auto simp: owners_def fun_eq_iff split: owner.split)

lemma one_each_drop: "one_each m \<Longrightarrow> one_each (m(a := None))"
  by (auto simp: one_each_def)

lemma one_each_add: "one_each m \<Longrightarrow> x \<notin> ran m \<Longrightarrow> one_each (m(a \<mapsto> x))"
  by (auto simp: one_each_def ran_def)

lemma ran_drop: "one_each m \<Longrightarrow> m a = Some x \<Longrightarrow> ran (m(a := None)) = ran m - {x}"
proof (intro equalityI subsetI)
  fix y assume one: "one_each m" "m a = Some x" and "y \<in> ran m - {x}"
  then obtain b where "m b = Some y"
    by (auto simp: ran_def)
  moreover from this have "b \<noteq> a"
    using one(2) \<open>y \<in> ran m - {x}\<close> by auto
  ultimately show "y \<in> ran (m(a := None))"
    by (intro ranI [of _ b]) simp
qed (auto simp: one_each_def ran_def split: if_splits)

lemma slot_owned: "slots i = Some h \<Longrightarrow> h \<in> owned slots e"
  unfolding owned_def by (rule ranI [of _ "Slot i"]) (simp add: owners_def)

lemma slot_live: "own_inv g D slots e \<Longrightarrow> slots i = Some h \<Longrightarrow> h \<in> g_live g (e_lib e)"
  using slot_owned [of slots i h e] by (auto simp: own_inv_def)

text \<open>Moving a transaction between two owners changes neither who exists nor what is owned.\<close>

lemma own_inv_move:
  assumes inv: "own_inv g D slots e" and "owners slots e w = Some h" and "owners slots e w' = None"
    and ow: "owners slots' e' = (owners slots e)(w := None, w' := Some h)"
    and "e_lib e' = e_lib e" "e_rec_loaded e' = e_rec_loaded e"
  shows "own_inv g D slots' e'"
proof -
  have one: "one_each (owners slots e)"
    using inv by (simp add: own_inv_def)
  have r: "ran ((owners slots e)(w := None)) = owned slots e - {h}"
    unfolding owned_def by (rule ran_drop [OF one assms(2)])
  have "owned slots' e' = owned slots e"
    unfolding owned_def ow using r assms(2,3)
    by (subst ran_map_upd) (auto simp: owned_def intro: ranI)
  moreover have "one_each (owners slots' e')"
    unfolding ow using r by (intro one_each_add one_each_drop one) simp
  ultimately show ?thesis
    using inv assms(5,6) by (simp add: own_inv_def)
qed

lemma own_inv_fresh:
  assumes inv: "own_inv g D slots e" and "slots i = None" "own_begin g (e_lib e) TDB_SUCCESS (Some h) l"
  shows "own_inv g D (slots(i := Some h)) (set_lib l e)"
proof -
  have h: "h \<notin> g_live g (e_lib e)" "g_live g l = insert h (g_live g (e_lib e))" "g_ok g l"
    using assms(1,3) by (auto simp: own_begin_def own_inv_def)
  then have new: "h \<notin> ran (owners slots e)"
    using inv by (auto simp: own_inv_def owned_def)
  have "owners slots e (Slot i) = None"
    using assms(2) by (simp add: owners_def)
  then have "owned (slots(i := Some h)) (set_lib l e) = insert h (owned slots e)"
    unfolding owned_def owners_upd owners_set_lib by (rule ran_map_upd)
  moreover have "one_each ((owners slots e)(Slot i \<mapsto> h))"
    using inv new by (intro one_each_add) (simp_all add: own_inv_def)
  ultimately show ?thesis
    using inv h by (auto simp: own_inv_def owners_upd)
qed

lemma own_inv_free:
  assumes inv: "own_inv g D slots e" and "slots i = Some h" "own_free g h (e_lib e) l"
  shows "own_inv g D (slots(i := None)) (set_lib l e)"
proof -
  have l: "g_live g l = g_live g (e_lib e) - {h}" "g_ok g l"
    using assms slot_live [OF inv assms(2)] by (auto simp: own_inv_def own_free_def)
  have one: "one_each (owners slots e)" and o: "owners slots e (Slot i) = Some h"
    using inv assms(2) by (simp_all add: own_inv_def owners_def)
  have "owned (slots(i := None)) (set_lib l e) = owned slots e - {h}"
    unfolding owned_def owners_upd owners_set_lib by (rule ran_drop [OF one o])
  moreover have "h \<in> owned slots e"
    unfolding owned_def using o by (rule ranI)
  ultimately show ?thesis
    using inv l one_each_drop [OF one, of "Slot i"] by (auto simp: own_inv_def owners_upd)
qed

lemma load_map:
  assumes "distinct (map snd buf)"
  shows "ran (foldl register_txn Map.empty buf) \<subseteq> snd ` set buf \<and>
     one_each (foldl register_txn Map.empty buf)"
  using assms
proof (induction buf rule: rev_induct)
  case (snoc x xs)
  then have "snd x \<notin> ran (foldl register_txn Map.empty xs)"
    by auto
  moreover have "ran (register_txn m x) \<subseteq> insert (snd x) (ran m)" for m
    by (auto simp: register_txn_def ran_def)
  moreover have "snd x \<notin> ran m \<Longrightarrow> one_each m \<Longrightarrow> one_each (register_txn m x)" for m
    unfolding register_txn_def by (rule one_each_add)
  ultimately show ?case
    using snoc by auto blast+
qed (simp add: one_each_def)

lemma own_inv_load:
  assumes inv: "own_inv g D slots e" and "\<not> e_rec_loaded e" "e_prepared e = Map.empty"
    and "distinct (map snd buf)" "set (map snd buf) \<subseteq> D"
  shows "own_inv g D slots (e\<lparr>e_prepared := foldl register_txn (e_prepared e) buf,
           e_rec_loaded := True, e_rec_xids := xs\<rparr>)" (is "own_inv g D slots ?e")
proof -
  define m where "m = foldl register_txn Map.empty buf"
  have m: "ran m \<subseteq> D" "one_each m"
    using load_map [OF assms(4)] assms(5) by (auto simp: m_def)
  have ow: "owners slots ?e w = (case w of Slot i \<Rightarrow> slots i | Registry k \<Rightarrow> m k)" for w
    by (simp add: owners_def m_def assms(3) split: owner.split)
  have old: "owners slots e w = (case w of Slot i \<Rightarrow> slots i | Registry k \<Rightarrow> None)" for w
    by (simp add: owners_def assms(3) split: owner.split)
  have d: "D \<subseteq> g_live g (e_lib e)" "D \<inter> owned slots e = {}" "one_each (owners slots e)"
    using inv assms(2) by (auto simp: own_inv_def)
  have apart: "slots i = Some h \<Longrightarrow> m k \<noteq> Some h" for i h k
    using slot_owned [of slots i h e] m(1) d(2) by (auto intro: ranI)
  have "one_each (owners slots ?e)"
    unfolding one_each_def
  proof (intro allI impI)
    fix w w' h
    assume "owners slots ?e w = Some h" "owners slots ?e w' = Some h"
    then show "w = w'"
      using d(3) [unfolded one_each_def old, rule_format, of w h w'] m(2) [unfolded one_each_def] apart
      unfolding ow by (cases w; cases w') auto
  qed
  moreover have "owned slots ?e \<subseteq> owned slots e \<union> D"
  proof
    fix h assume "h \<in> owned slots ?e"
    then obtain w where "owners slots ?e w = Some h"
      by (auto simp: owned_def ran_def)
    then show "h \<in> owned slots e \<union> D"
      unfolding ow using m(1) slot_owned by (cases w) (auto intro: ranI)
  qed
  moreover have "owned slots e \<subseteq> owned slots ?e"
  proof
    fix h assume "h \<in> owned slots e"
    then obtain w where "owners slots e w = Some h"
      by (auto simp: owned_def ran_def)
    then obtain i where "slots i = Some h"
      unfolding old by (cases w) auto
    then show "h \<in> owned slots ?e"
      by (rule slot_owned)
  qed
  ultimately show ?thesis
    using inv d by (auto simp: own_inv_def)
qed

lemma own_run_inv:
  assumes "own_run g D K o0 e0 ow e" and "own_inv g D slots e0" and "slots i = o0"
  shows "own_inv g D (slots(i := ow)) e"
  using assms(1)
proof (induction rule: own_run.induct)
  case stay
  then show ?case
    using assms(2,3) by (metis fun_upd_triv)
next
  case (call h e l)
  have "h \<in> g_live g (e_lib e)"
    using slot_live [OF call.IH, of i h] by simp
  then show ?case
    using call by (auto simp: own_txn_def same_handles_def own_inv_def intro!: own_inv_set_lib)
next
  case (plain ow e l)
  then show ?case
    by (intro own_inv_set_lib) (auto simp: own_plain_def same_handles_def own_inv_def)
next
  case (fresh e h l)
  from own_inv_fresh [OF fresh.IH fun_upd_same fresh.hyps(2)] show ?case
    by (simp only: fun_upd_upd)
next
  case (free h e l)
  from own_inv_free [OF free.IH fun_upd_same free.hyps(2)] show ?case
    by (simp only: fun_upd_upd)
next
  case (publish h e k)
  have "owners (slots(i := Some h)) e (Slot i) = Some h" "owners (slots(i := Some h)) e (Registry k) = None"
    using publish.hyps by (simp_all add: owners_def)
  then show ?case
    by (rule own_inv_move [OF publish.IH]) (simp_all only: owners_upd fun_upd_upd, simp_all)
next
  case (take e k h)
  have "owners (slots(i := None)) e (Registry k) = Some h" "owners (slots(i := None)) e (Slot i) = None"
    using take.hyps by (simp_all add: owners_def)
  then show ?case
    by (rule own_inv_move [OF take.IH])
      (simp_all only: owners_upd fun_upd_upd fun_upd_twist [of "Slot i" "Registry k"] owner.distinct
        not_False_eq_True, simp_all)
next
  case (load ow e buf xs)
  from own_inv_load [OF load.IH load.hyps(2-5)] show ?case .
next
  case (cursor ow e n)
  then show ?case
    by (simp add: own_inv_def owned_def)
next
  case (tables ow e tb)
  then show ?case
    by (simp add: own_inv_def owned_def)
qed

lemma own_run_trans [trans]:
  assumes "own_run g D K o0 e0 o1 e1" "own_run g D K o1 e1 o2 e2"
  shows "own_run g D K o0 e0 o2 e2"
  using assms(2)
proof (induction rule: own_run.induct)
  case (load ow e buf xs)
  from own_run.load [OF load.IH load.hyps(2-6)] show ?case .
qed (auto intro: assms(1) own_run.intros)

section \<open>The callbacks as traces\<close>

lemma run_call:
  assumes "\<And>rc l. f (e_lib e) = (rc, l) \<Longrightarrow> own_txn g h (e_lib e) l" and "call_lib f e = (rc, e')"
  shows "own_run g D K (Some h) e (Some h) e'"
  using assms by (auto simp: call_lib_def split: prod.splits intro: own_run.call [OF own_run.stay])

lemma run_do:
  assumes "\<And>rc l. f (e_lib e) = (rc, l) \<Longrightarrow> own_txn g h (e_lib e) l"
  shows "own_run g D K (Some h) e (Some h) (do_lib f e)"
  unfolding do_lib_def by (rule run_call [OF assms]) (auto simp: prod_eq_iff)

lemma run_plain: "own_plain g (e_lib e) l \<Longrightarrow> own_run g D K ow e ow (set_lib l e)"
  by (rule own_run.plain [OF own_run.stay])

lemma run_free: "lib_owns lib g D \<Longrightarrow> own_run g D K (Some h) e None (free_txn lib h e)"
  unfolding free_txn_def by (rule own_run.free [OF own_run.stay lib_owns_txn(1)])

lemma own_begin_fail: "own_begin g l rc out l' \<Longrightarrow> rc \<noteq> TDB_SUCCESS \<Longrightarrow> out = None \<and> own_plain g l l'"
  by (simp add: own_begin_def own_plain_def same_handles_def)

lemma run_begin:
  assumes "lib_owns lib g D" "begin_iso lib lv e = (rc, out, e')"
  shows "own_run g D K None e out e' \<and> (rc = TDB_SUCCESS \<longleftrightarrow> out \<noteq> None)"
proof -
  obtain l where b: "txn_begin_iso lib lv (e_lib e) = (rc, out, l)" and e': "e' = set_lib l e"
    using assms(2) by (auto simp: begin_iso_def split: prod.splits)
  note o = lib_owns_begin(2) [OF assms(1) b]
  show ?thesis
  proof (cases "rc = TDB_SUCCESS")
    case True
    then obtain h where "out = Some h"
      using o by (auto simp: own_begin_def)
    then show ?thesis
      using o True e' by (auto intro: own_run.fresh [OF own_run.stay])
  next
    case False
    then show ?thesis
      using own_begin_fail [OF o] e' by (auto intro: run_plain)
  qed
qed

lemma run_disarm:
  assumes "lib_owns lib g D" "stmt_savepoint_disarm lib h t e = (t', e')"
  shows "own_run g D K (Some h) e (Some h) e' \<and> trx_txn t' = trx_txn t \<and> prepared_xid t' = prepared_xid t"
  using assms by (auto simp: stmt_savepoint_disarm_def split: if_splits
      intro: own_run.stay intro!: run_do lib_owns_txn(10))

lemma run_arm:
  assumes "lib_owns lib g D" "stmt_savepoint_arm lib h t e = (t', e')"
  shows "own_run g D K (Some h) e (Some h) e' \<and> trx_txn t' = trx_txn t \<and> prepared_xid t' = prepared_xid t"
proof -
  define e1 where "e1 = do_lib (txn_release_savepoint lib h TIDESDB_STMT_SAVEPOINT) e"
  obtain rc e2 where c: "call_lib (txn_savepoint lib h TIDESDB_STMT_SAVEPOINT) e1 = (rc, e2)"
    by fastforce
  have "own_run g D K (Some h) e (Some h) e1"
    unfolding e1_def by (intro run_do lib_owns_txn(10) [OF assms(1)])
  also have "own_run g D K (Some h) e1 (Some h) e2"
    by (rule run_call [OF lib_owns_txn(8) [OF assms(1)] c])
  finally show ?thesis
    using assms(2) by (auto simp: stmt_savepoint_arm_def Let_def c simp flip: e1_def split: if_splits)
qed

lemma run_stmt_rollback:
  assumes "lib_owns lib g D" "stmt_savepoint_rollback lib h t e = (b, t', e')"
  shows "own_run g D K (Some h) e (Some h) e' \<and> trx_txn t' = trx_txn t \<and> prepared_xid t' = prepared_xid t"
proof (cases "stmt_savepoint_active t")
  case False
  then show ?thesis
    using assms(2) by (auto simp: stmt_savepoint_rollback_def intro: own_run.stay)
next
  case True
  obtain rc e2 where c: "call_lib (txn_rollback_to_savepoint lib h TIDESDB_STMT_SAVEPOINT) e = (rc, e2)"
    by fastforce
  have "own_run g D K (Some h) e (Some h) e2"
    by (rule run_call [OF lib_owns_txn(9) [OF assms(1)] c])
  then show ?thesis
    using assms(2) True by (auto simp: stmt_savepoint_rollback_def c split: if_splits)
qed

lemma run_commit_stateful:
  assumes "lib_owns lib g D" "tdb_txn_commit_stateful lib h e = (rc, e')"
  shows "own_run g D K (Some h) e (Some h) e'"
  using assms(2) unfolding tdb_txn_commit_stateful_def
  by (auto split: option.splits tdb_txn_state.splits
      intro: run_call lib_owns_txn(3) [OF assms(1)] lib_owns_txn(5) [OF assms(1)])

lemma run_rollback_stateful:
  assumes "lib_owns lib g D"
  shows "own_run g D K (Some h) e (Some h) (tdb_txn_rollback_stateful lib h e)"
  unfolding tdb_txn_rollback_stateful_def
  by (auto split: option.splits tdb_txn_state.splits
      intro!: run_do intro: lib_owns_txn(4) [OF assms(1)] lib_owns_txn(6) [OF assms(1)])

lemma run_flush:
  assumes "lib_owns lib g D" "flush_trx_fts_meta_pending lib t (e_lib e) = (rc, t', l')" "trx_txn t = Some h"
  shows "own_run g D K (Some h) e (Some h) (set_lib l' e) \<and> t' = clear_fts_meta t"
  using flush_own [OF assms(1,2)] assms(3) by (auto intro: own_run.call [OF own_run.stay])

definition held :: "tidesdb_trx_t option \<Rightarrow> txn option" where
  "held trx = Option.bind trx trx_txn"

definition unprepared :: "tidesdb_trx_t option \<Rightarrow> bool" where
  "unprepared trx \<longleftrightarrow> (\<forall>t. trx = Some t \<longrightarrow> prepared_xid t = [])"

lemma held_simps [simp]: "held None = None" "held (Some t) = trx_txn t"
  by (simp_all add: held_def)

lemma unprepared_simps [simp]: "unprepared None" "unprepared (Some t) \<longleftrightarrow> prepared_xid t = []"
  by (simp_all add: unprepared_def)

definition runs :: "'l lib_ghost \<Rightarrow> txn set \<Rightarrow> bytes set \<Rightarrow> tidesdb_trx_t option \<Rightarrow> 'l engine \<Rightarrow> tidesdb_trx_t option \<Rightarrow> 'l engine \<Rightarrow> bool" where
  "runs g D K trx e trx' e' \<longleftrightarrow> own_run g D K (held trx) e (held trx') e' \<and> unprepared trx'"

lemma runs_trans:
  "own_run g D K (held trx) e o1 e1 \<Longrightarrow> own_run g D K o1 e1 (held trx') e' \<Longrightarrow> unprepared trx' \<Longrightarrow> runs g D K trx e trx' e'"
  by (auto simp: runs_def intro: own_run_trans)

lemma runs_refl: "unprepared trx \<Longrightarrow> runs g D K trx e trx e"
  by (simp add: runs_def own_run.stay)

lemma run_get_or_create:
  assumes "lib_owns lib g D" "unprepared trx" "get_or_create_trx lib lv trx e = (ok, trx', e')"
  shows "runs g D K trx e trx' e'"
proof (cases "held trx")
  case None
  obtain rc out e1 where b: "begin_iso lib lv e = (rc, out, e1)"
    by (metis prod.exhaust)
  have r: "own_run g D K None e out e1" "rc \<noteq> TDB_SUCCESS \<Longrightarrow> out = None"
    using run_begin [OF assms(1) b] by auto
  then have "own_run g D K None e (held trx') e1 \<and> e' = e1 \<and> unprepared trx'"
    using assms(2,3) None by (cases trx) (auto simp: get_or_create_trx_def b new_trx_def split: if_splits)
  then show ?thesis
    using None by (simp add: runs_def)
next
  case (Some h)
  then obtain t where t: "trx = Some t" "trx_txn t = Some h"
    by (cases trx) auto
  show ?thesis
  proof (cases "needs_reset t")
    case False
    then show ?thesis
      using assms(2,3) t by (auto simp: get_or_create_trx_def intro: runs_refl)
  next
    case True
    obtain rrc e1 where c: "call_lib (txn_reset lib h lv) e = (rrc, e1)"
      by fastforce
    obtain rc out e2 where b: "begin_iso lib lv (free_txn lib h e1) = (rc, out, e2)"
      by (metis prod.exhaust)
    have r1: "own_run g D K (Some h) e (Some h) e1"
      by (rule run_call [OF lib_owns_txn(2) [OF assms(1)] c])
    also have "own_run g D K (Some h) e1 None (free_txn lib h e1)"
      by (rule run_free [OF assms(1)])
    also have "own_run g D K None (free_txn lib h e1) out e2"
      using run_begin [OF assms(1) b] by blast
    finally show ?thesis
      using assms(2,3) t True r1 by (auto simp: get_or_create_trx_def c b runs_def split: if_splits)
  qed
qed

lemma run_abandon:
  assumes "lib_owns lib g D"
  shows "own_run g D K (Some h) e None (free_txn lib h (tdb_txn_rollback_stateful lib h e))"
    and "own_run g D K (Some h) e None (free_txn lib h (do_lib (txn_rollback lib h) e))"
  by (rule own_run_trans [OF run_rollback_stateful [OF assms] run_free [OF assms]])
    (rule own_run_trans [OF _ run_free [OF assms]], intro run_do lib_owns_txn(4) [OF assms])

lemma drop_prepared_none: "prepared_xid t = [] \<Longrightarrow> tdb_drop_prepared_entry t e = (t, e)"
  by (simp add: tdb_drop_prepared_entry_def)

lemma trx_txn_simps [simp]:
  "trx_txn (clear_fts_meta t) = trx_txn t" "prepared_xid (clear_fts_meta t) = prepared_xid t"
  "trx_txn (abandon t) = None" "prepared_xid (abandon t) = prepared_xid t"
  by (simp_all add: clear_fts_meta_def abandon_def)

lemma run_finalize:
  assumes o: "lib_owns lib g D" and "trx_txn t0 = Some h" "prepared_xid t0 = []"
    and f: "tdb_finalize_commit lib h t0 e0 = (rc, t', e')"
  shows "own_run g D K (Some h) e0 (trx_txn t') e' \<and> prepared_xid t' = []"
proof -
  obtain t e where d: "stmt_savepoint_disarm lib h t0 e0 = (t, e)"
    by fastforce
  have r0: "own_run g D K (Some h) e0 (Some h) e" and t: "trx_txn t = Some h" "prepared_xid t = []"
    using run_disarm [OF o d] assms(2,3) by auto
  note drop = drop_prepared_none [OF t(2), of e]
  show ?thesis
  proof (cases "dirty t")
    case False
    have "own_run g D K (Some h) e (Some h) (do_lib (txn_rollback lib h) e)"
      by (intro run_do lib_owns_txn(4) [OF o])
    then show ?thesis
      using f t False own_run_trans [OF r0] by (auto simp: tdb_finalize_commit_def d drop)
  next
    case True
    obtain frc t2 l2 where fl: "flush_trx_fts_meta_pending lib t (e_lib e) = (frc, t2, l2)"
      by (metis prod.exhaust)
    define e2 where "e2 = set_lib l2 e"
    have r2: "own_run g D K (Some h) e0 (Some h) e2" and t2: "trx_txn t2 = Some h" "prepared_xid t2 = []"
      using run_flush [OF o fl t(1)] own_run_trans [OF r0] t by (auto simp: e2_def)
    obtain crc e3 where c: "tdb_txn_commit_stateful lib h e2 = (crc, e3)"
      by fastforce
    have r3: "own_run g D K (Some h) e0 (Some h) e3"
      using own_run_trans [OF r2 run_commit_stateful [OF o c]] .
    show ?thesis
      using f True t2 r3 own_run_trans [OF r2 run_abandon(2) [OF o]] own_run_trans [OF r3 run_abandon(1) [OF o]]
      by (auto simp: tdb_finalize_commit_def d drop fl Let_def c simp flip: e2_def split: if_splits)
  qed
qed

lemma run_commit:
  assumes o: "lib_owns lib g D" and "unprepared trx" and "tidesdb_commit lib thd all trx e = (rc, trx', e')"
  shows "runs g D K trx e trx' e'"
proof (cases "held trx")
  case None
  then show ?thesis
    using assms(2,3) by (cases trx) (auto simp: tidesdb_commit_def intro: runs_refl)
next
  case (Some h)
  then obtain t where t: "trx = Some t" "trx_txn t = Some h"
    by (cases trx) auto
  obtain t1 e1 where d: "stmt_savepoint_disarm lib h t e = (t1, e1)"
    by fastforce
  obtain frc t2 e2 where f: "tdb_finalize_commit lib h t e = (frc, t2, e2)"
    by (metis prod.exhaust)
  have p: "prepared_xid t = []"
    using assms(2) t by simp
  show ?thesis
    using assms(3) p t run_disarm [OF o d] run_finalize [OF o t(2) p f]
    by (cases "is_real all thd") (simp_all add: tidesdb_commit_def runs_def d f, auto)
qed

lemma run_rollback:
  assumes o: "lib_owns lib g D" and "unprepared trx" and "tidesdb_rollback lib thd all trx e = (rc, trx', e')"
  shows "runs g D K trx e trx' e'"
proof (cases "held trx")
  case None
  then show ?thesis
    using assms(2,3) by (cases trx) (auto simp: tidesdb_rollback_def intro: runs_refl)
next
  case (Some h)
  then obtain t where t: "trx = Some t" "trx_txn t = Some h" "prepared_xid t = []"
    using assms(2) by (cases trx) auto
  obtain b t1 e1 where s: "(if is_real all thd then (False, t, e) else stmt_savepoint_rollback lib h t e) = (b, t1, e1)"
    by (metis prod.exhaust)
  have r1: "own_run g D K (Some h) e (Some h) e1" and t1: "trx_txn t1 = Some h" "prepared_xid t1 = []"
    using run_stmt_rollback [OF o, of h t e b t1 e1] s t by (auto intro: own_run.stay split: if_splits)
  have rel: "own_run g D K (Some h) e1 (Some h) (do_lib (txn_release_savepoint lib h TIDESDB_STMT_SAVEPOINT) e1)"
    by (intro run_do lib_owns_txn(10) [OF o])
  have full: "own_run g D K (Some h) e1 (trx_txn t2) e2 \<and> prepared_xid t2 = []"
    if "rollback_all lib h t1 e1 = (t2, e2)" for t2 e2
    using that t1 run_rollback_stateful [OF o] own_run_trans [OF rel run_rollback_stateful [OF o]]
    by (auto simp: rollback_all_def Let_def drop_prepared_none split: if_splits)
  obtain t2 e2 where a: "rollback_all lib h t1 e1 = (t2, e2)"
    by fastforce
  have "trx' = Some (if b then t1 else t2) \<and> e' = (if b then e1 else e2)"
    using assms(3) t s a by (auto simp: tidesdb_rollback_def)
  then show ?thesis
    using t r1 t1 full [OF a] own_run_trans [OF r1] by (simp add: runs_def)
qed

lemma run_close:
  assumes "lib_owns lib g D" "unprepared trx" "tidesdb_close_connection lib trx e = (rc, trx', e')"
  shows "runs g D K trx e trx' e'"
  using assms run_abandon(2) [OF assms(1)]
  by (cases trx) (auto simp: tidesdb_close_connection_def runs_def split: option.splits intro: own_run.stay)

lemma run_give_up:
  assumes "lib_owns lib g D" "prepared_xid t = []" "give_up lib h rc t e = (r, trx', e')"
  shows "own_run g D K (Some h) e (held trx') e' \<and> unprepared trx'"
  using assms run_abandon(1) [OF assms(1)] by (auto simp: give_up_def)

lemma disarm_registry:
  "stmt_savepoint_disarm lib h t e = (t', e') \<Longrightarrow> e_prepared e' = e_prepared e"
  by (auto simp: stmt_savepoint_disarm_def do_lib_def call_lib_def split: if_splits prod.splits)

lemma run_prepare:
  assumes o: "lib_owns lib g D" and "unprepared trx" and "e_prepared e0 (tdb_xid_key (thd_xid thd)) = None"
    and p: "tidesdb_prepare lib thd all trx e0 = (rc, trx', e')" and "tdb_xid_key (thd_xid thd) \<in> K"
  shows "runs g D K trx e0 trx' e'"
proof (cases "held trx = None \<or> \<not> all")
  case True
  then show ?thesis
    using assms(2) p by (cases trx) (auto simp: tidesdb_prepare_def intro: runs_refl split: option.splits)
next
  case False
  then obtain t0 h where t0: "trx = Some t0" "trx_txn t0 = Some h" "prepared_xid t0 = []" and all
    using assms(2) by (cases trx) auto
  define key where "key = tdb_xid_key (thd_xid thd)"
  obtain t e where d: "stmt_savepoint_disarm lib h t0 e0 = (t, e)"
    by fastforce
  have r0: "own_run g D K (Some h) e0 (Some h) e" and t: "trx_txn t = Some h" "prepared_xid t = []"
    using run_disarm [OF o d] t0 by auto
  obtain frc t1 l1 where fl: "(if dirty t then flush_trx_fts_meta_pending lib t (e_lib e) else (TDB_SUCCESS, t, e_lib e)) = (frc, t1, l1)"
    by (metis prod.exhaust)
  define e1 where "e1 = set_lib l1 e"
  have e_id: "set_lib (e_lib e) e = e"
    by (simp add: set_lib_def)
  have r1: "own_run g D K (Some h) e0 (Some h) e1" and t1: "trx_txn t1 = Some h" "prepared_xid t1 = []"
    using run_flush [OF o _ t(1), of e frc t1 l1] own_run_trans [OF r0] r0 fl t
    by (auto simp: e1_def e_id split: if_splits)
  obtain prc e2 where c: "call_lib (txn_prepare lib h key) e1 = (prc, e2)"
    by fastforce
  have r2: "own_run g D K (Some h) e0 (Some h) e2"
    by (rule own_run_trans [OF r1 run_call [OF lib_owns_txn(7) [OF o] c]])
  have reg: "e_prepared e2 key = None"
    using c assms(3) disarm_registry [OF d] by (auto simp: call_lib_def e1_def key_def split: prod.splits)
  have pub: "own_run g D K (Some h) e0 (held (Some t3)) e3 \<and> prepared_xid t3 = []" if "publish_prepared key h t1 e2 = (t3, e3)" for t3 e3
    using that own_run.publish [OF r2 reg] assms(5) by (auto simp: publish_prepared_def TDB_XA_PREPARE_DETACHES_def Let_def key_def)
  obtain t3 e3 where pp: "publish_prepared key h t1 e2 = (t3, e3)"
    by fastforce
  have g1: "own_run g D K (Some h) e0 (held x) y \<and> unprepared x" if "give_up lib h frc t1 e1 = (r, x, y)" for r x y
    using run_give_up [OF o t1(2) that] own_run_trans [OF r1] by blast
  have g2: "own_run g D K (Some h) e0 (held x) y \<and> unprepared x" if "give_up lib h prc t1 e2 = (r, x, y)" for r x y
    using run_give_up [OF o t1(2) that] own_run_trans [OF r2] by blast
  have "own_run g D K (Some h) e0 (held trx') e' \<and> unprepared trx'"
    using p t0(1,2) \<open>all\<close> r0 t r2 t1 pub [OF pp] g1 g2
    by (simp add: tidesdb_prepare_def d Let_def fl c pp flip: e1_def key_def split: if_splits) auto
  then show ?thesis
    using t0 by (simp add: runs_def)
qed

lemma run_snapshot:
  assumes "lib_owns lib g D" "unprepared (c_trx c)" "tidesdb_start_consistent_snapshot lib thd c e = (b, c', e')"
  shows "runs g D K (c_trx c) e (c_trx c') e'"
  using assms(3) run_get_or_create [OF assms(1,2)]
  by (auto simp: tidesdb_start_consistent_snapshot_def Let_def split: prod.splits if_splits)

lemma runs_dirty: "runs g D K trx e (Some t) e' \<Longrightarrow> runs g D K trx e (Some (t\<lparr>dirty := b\<rparr>)) e'"
  by (simp add: runs_def)

lemma run_ddl_txn:
  assumes "lib_owns lib g D" "unprepared (c_trx c)" "tdb_stmt_txn_for_ddl lib thd c e = (b, c', e')"
  shows "runs g D K (c_trx c) e (c_trx c') e'"
proof -
  obtain ok trx e1 where gc: "get_or_create_trx lib
      (resolve_effective_isolation (thd_tx_isolation thd) TDB_ISOLATION_READ_COMMITTED) (c_trx c) e = (ok, trx, e1)"
    by (metis prod.exhaust)
  show ?thesis
    using assms(3) run_get_or_create [OF assms(1,2) gc, of K]
    by (auto simp: tdb_stmt_txn_for_ddl_def gc split: option.splits if_splits intro: runs_dirty)
qed

lemma run_ensure:
  assumes "lib_owns lib g D" "unprepared (c_trx c)" "ensure_stmt_txn lib thd ha c e = (rc, ha', c', e')"
  shows "runs g D K (c_trx c) e (c_trx c') e'"
proof -
  define lv where "lv = effective_iso (if cached_stmt_shape_valid ha then cached_sql_cmd ha else thd_sql_command thd) thd ha"
  obtain ok trx e1 where gc: "get_or_create_trx lib lv (c_trx c) e = (ok, trx, e1)"
    by (metis prod.exhaust)
  show ?thesis
    using assms(2,3) run_get_or_create [OF assms(1,2) gc]
    by (auto simp: ensure_stmt_txn_def Let_def gc simp flip: lv_def split: if_splits intro: runs_refl)
qed

lemma run_lock:
  assumes "lib_owns lib g D" "unprepared (c_trx c)" "external_lock_acquire lib thd ha c e = (rc, ha', c', e')"
  shows "runs g D K (c_trx c) e (c_trx c') e'"
proof -
  define ha1 where "ha1 = ha\<lparr>cached_sql_cmd := thd_sql_command thd, cached_is_autocommit := \<not> thd_multi_stmt thd,
      cached_stmt_shape_valid := True\<rparr>"
  obtain ok trx e1 where gc: "get_or_create_trx lib (effective_iso (thd_sql_command thd) thd ha1) (c_trx c) e = (ok, trx, e1)"
    by (metis prod.exhaust)
  note r = run_get_or_create [OF assms(1,2) gc]
  show ?thesis
  proof (cases trx)
    case None
    then show ?thesis
      using assms(3) r by (auto simp: external_lock_acquire_def Let_def gc simp flip: ha1_def)
  next
    case (Some t)
    have arm: "runs g D K (c_trx c) e (Some t1) e2" if "trx_txn t = Some h" "stmt_savepoint_arm lib h t e1 = (t1, e2)" for h t1 e2
      using run_arm [OF assms(1) that(2)] r Some that(1) by (auto simp: runs_def intro: own_run_trans)
    show ?thesis
      using assms(3) r Some arm
      by (auto simp: external_lock_acquire_def Let_def gc simp flip: ha1_def split: if_splits option.splits prod.splits)
  qed
qed

lemma run_sp:
  assumes o: "lib_owns lib g D"
  shows "tidesdb_savepoint_set lib trx sv e = (rc, sv', e') \<Longrightarrow> own_run g D K (held trx) e (held trx) e'"
    and "tidesdb_savepoint_rollback lib trx sv e = (rc, sv', e') \<Longrightarrow> own_run g D K (held trx) e (held trx) e'"
    and "tidesdb_savepoint_release lib trx sv e = (rc, sv', e') \<Longrightarrow> own_run g D K (held trx) e (held trx) e'"
proof -
  have c: "own_run g D K (Some h) e (Some h) e1" if "call_lib (txn_savepoint lib h n) e = (r, e1)" for h n r e1
    by (rule run_call [OF lib_owns_txn(8) [OF o] that])
  have cr: "own_run g D K (Some h) e (Some h) e1" if "call_lib (txn_rollback_to_savepoint lib h n) e = (r, e1)" for h n r e1
    by (rule run_call [OF lib_owns_txn(9) [OF o] that])
  have cs: "own_run g D K (Some h) e1 (Some h) (do_lib (txn_savepoint lib h n) e1)" for h n e1
    by (intro run_do lib_owns_txn(8) [OF o])
  have cl: "own_run g D K (Some h) e (Some h) e1" if "call_lib (txn_release_savepoint lib h n) e = (r, e1)" for h n r e1
    by (rule run_call [OF lib_owns_txn(10) [OF o] that])
  show "tidesdb_savepoint_set lib trx sv e = (rc, sv', e') \<Longrightarrow> own_run g D K (held trx) e (held trx) e'"
    by (auto simp: tidesdb_savepoint_set_def held_def Let_def split: option.splits prod.splits intro: own_run.stay c)
  show "tidesdb_savepoint_rollback lib trx sv e = (rc, sv', e') \<Longrightarrow> own_run g D K (held trx) e (held trx) e'"
    by (auto simp: tidesdb_savepoint_rollback_def held_def Let_def split: option.splits prod.splits if_splits
        intro: own_run.stay cr own_run_trans [OF cr cs])
  show "tidesdb_savepoint_release lib trx sv e = (rc, sv', e') \<Longrightarrow> own_run g D K (held trx) e (held trx) e'"
    by (auto simp: tidesdb_savepoint_release_def held_def Let_def split: option.splits prod.splits if_splits
        intro: own_run.stay cl)
qed

lemma own_plain_refl: "own_plain g l l"
  by (simp add: own_plain_def same_handles_def)

lemma own_plain_trans: "own_plain g a b \<Longrightarrow> own_plain g b c \<Longrightarrow> own_plain g a c"
  by (simp add: own_plain_def same_handles_def)

lemma tc_cf_own:
  assumes "lib_owns lib g D" "tdb_xa_tc_cf lib l = (c, l')"
  shows "own_plain g l l'"
  using assms lib_owns_plain(4) [OF assms(1)]
  by (auto simp: tdb_xa_tc_cf_def split: option.splits prod.splits intro: own_plain_refl)

text \<open>A transaction that is begun, used and freed leaves no trace.\<close>

lemma own_temp:
  assumes "lib_owns lib g D" "own_begin g l TDB_SUCCESS (Some h) l1" "own_txn g h l1 l2"
  shows "own_plain g l (txn_free lib h l2)"
proof -
  have "own_free g h l2 (txn_free lib h l2)"
    by (rule lib_owns_txn(1) [OF assms(1)])
  then show ?thesis
    using assms(2,3) by (auto simp: own_plain_def own_begin_def own_free_def own_txn_def same_handles_def)
qed

lemma tc_mark_own:
  assumes o: "lib_owns lib g D" and "tdb_xa_tc_mark lib key tables l0 = (ok, l')"
  shows "own_plain g l0 l'"
proof -
  obtain co l where c: "tdb_xa_tc_cf lib l0 = (co, l)"
    by fastforce
  obtain rc out l1 where b: "txn_begin lib l = (rc, out, l1)"
    by (metis prod.exhaust)
  note ob = lib_owns_begin(1) [OF o b]
  have "own_plain g l l' \<or> l' = l"
  proof (cases "co = None \<or> rc \<noteq> TDB_SUCCESS")
    case True
    then show ?thesis
      using assms(2) own_begin_fail [OF ob] by (cases co) (auto simp: tdb_xa_tc_mark_def c b)
  next
    case False
    then obtain cf h where ch: "co = Some cf" "rc = TDB_SUCCESS" "out = Some h"
      using ob by (auto simp: own_begin_def)
    obtain prc l2 crc l3 brc l4 where p: "txn_put lib h cf key (tdb_xa_tc_encode tables) TIDESDB_TTL_NONE l1 = (prc, l2)"
      "txn_commit lib h l2 = (crc, l3)" "txn_rollback lib h l2 = (brc, l4)"
      by (metis prod.exhaust)
    note put = lib_owns_txn(12) [OF o p(1)]
    have "own_txn g h l1 l3" "own_txn g h l1 l4"
      using own_txn_trans [OF put lib_owns_txn(3) [OF o p(2)]] own_txn_trans [OF put lib_owns_txn(4) [OF o p(3)]] .
    then have "own_plain g l (txn_free lib h l3)" "own_plain g l (txn_free lib h l4)"
      using own_temp [OF o] ob ch by blast+
    then show ?thesis
      using assms(2) ch by (auto simp: tdb_xa_tc_mark_def c b p split: if_splits)
  qed
  then show ?thesis
    using tc_cf_own [OF o c] by (auto intro: own_plain_trans)
qed

lemma tc_clear_own:
  assumes o: "lib_owns lib g D"
  shows "own_plain g l0 (tdb_xa_tc_clear lib key l0)"
proof -
  obtain co l where c: "tdb_xa_tc_cf lib l0 = (co, l)"
    by fastforce
  obtain rc out l1 where b: "txn_begin lib l = (rc, out, l1)"
    by (metis prod.exhaust)
  note ob = lib_owns_begin(1) [OF o b]
  have "own_plain g l (tdb_xa_tc_clear lib key l0) \<or> tdb_xa_tc_clear lib key l0 = l"
  proof (cases "co = None \<or> key = [] \<or> rc \<noteq> TDB_SUCCESS")
    case True
    then show ?thesis
      using own_begin_fail [OF ob] by (auto simp: tdb_xa_tc_clear_def c b split: option.split)
  next
    case False
    then obtain cf h where ch: "co = Some cf" "rc = TDB_SUCCESS" "out = Some h" "key \<noteq> []"
      using ob by (auto simp: own_begin_def)
    obtain prc l2 crc l3 brc l4 where p: "txn_delete lib h cf key l1 = (prc, l2)"
      "txn_commit lib h l2 = (crc, l3)" "txn_rollback lib h l2 = (brc, l4)"
      by (metis prod.exhaust)
    note put = lib_owns_txn(13) [OF o p(1)]
    have "own_txn g h l1 l3" "own_txn g h l1 l4"
      using own_txn_trans [OF put lib_owns_txn(3) [OF o p(2)]] own_txn_trans [OF put lib_owns_txn(4) [OF o p(3)]] .
    then have "own_plain g l (txn_free lib h l3)" "own_plain g l (txn_free lib h l4)"
      using own_temp [OF o] ob ch by blast+
    then show ?thesis
      using ch by (simp add: tdb_xa_tc_clear_def c b p)
  qed
  then show ?thesis
    using tc_cf_own [OF o c] by (auto intro: own_plain_trans)
qed

lemma run_take:
  assumes "by_xid_take key e = (ho, e')"
  shows "own_run g D K None e ho e'"
proof (cases "e_prepared e key")
  case None
  then show ?thesis
    using assms by (auto simp: by_xid_take_def intro: own_run.stay)
next
  case (Some h)
  from own_run.take [where g = g and D = D and K = K, OF own_run.stay Some] show ?thesis
    using assms Some by (auto simp: by_xid_take_def)
qed

lemma run_finish:
  assumes o: "lib_owns lib g D" and "resolve = txn_commit_prepared lib \<or> resolve = txn_rollback_prepared lib"
    and "by_xid_finish resolve lib key h e = (rc, e')" and "e_prepared e key = None" and "key \<in> K"
  shows "own_run g D K (Some h) e None e'"
proof -
  obtain r e1 where c: "call_lib (resolve h) e = (r, e1)"
    by fastforce
  have r1: "own_run g D K (Some h) e (Some h) e1"
    using assms(2) c by (auto intro: run_call lib_owns_txn(5) [OF o] lib_owns_txn(6) [OF o])
  have reg: "e_prepared e1 key = None"
    using c assms(4) by (auto simp: call_lib_def split: prod.splits)
  note r2 = own_run_trans [OF r1 run_free [OF o]]
  show ?thesis
    using assms(3) own_run.publish [OF r1 reg assms(5)] own_run_trans [OF r2 run_plain [OF tc_clear_own [OF o]]]
    by (auto simp: by_xid_finish_def c Let_def split: if_splits)
qed

lemma run_load:
  assumes o: "lib_owns lib g D" and "\<not> e_rec_loaded e \<Longrightarrow> e_prepared e = Map.empty"
  shows "own_run g D UNIV ow e ow (tdb_load_recovered_prepared lib e)"
proof (cases "e_rec_loaded e")
  case True
  then show ?thesis
    by (simp add: tdb_load_recovered_prepared_def own_run.stay)
next
  case False
  obtain rc n l1 where c: "recover_count lib (e_lib e) = (rc, n, l1)"
    by (metis prod.exhaust)
  obtain rc2 buf l2 where b: "recover_prepared lib n l1 = (rc2, buf, l2)"
    by (metis prod.exhaust)
  have r1: "own_run g D UNIV ow e ow (set_lib l1 e)" "own_plain g l1 l2"
    using run_plain [OF lib_owns_plain(1) [OF o c]] lib_owns_plain(2) [OF o b] .
  have r2: "own_run g D UNIV ow e ow (set_lib l2 e)"
    using own_run.plain [OF r1(1), of l2] r1(2) by (simp add: set_lib_def)
  have empty: "own_run g D UNIV ow e ow (x\<lparr>e_rec_loaded := True\<rparr>)"
    if "own_run g D UNIV ow e ow x" "\<not> e_rec_loaded x" "e_prepared x = Map.empty" for x
    using own_run.load [OF that, of "[]" "e_rec_xids x"] by (simp flip: that(3))
  have full: "own_run g D UNIV ow e ow ((set_lib l2 e)\<lparr>e_prepared := foldl register_txn (e_prepared e) buf, e_rec_loaded := True,
      e_rec_xids := xs\<rparr>)" if "rc2 = TDB_SUCCESS" for xs
    using own_run.load [OF r2, of buf xs] lib_owns_plain(3) [OF o b [unfolded that]] assms(2) [OF False] False by simp
  have commute: "set_lib l (e\<lparr>e_rec_loaded := True\<rparr>) = (set_lib l e)\<lparr>e_rec_loaded := True\<rparr>" for l
    by (simp add: set_lib_def)
  have order: "x\<lparr>e_rec_loaded := True, e_prepared := m, e_rec_xids := xs\<rparr> = x\<lparr>e_prepared := m, e_rec_loaded := True, e_rec_xids := xs\<rparr>"
    for x :: "'a engine" and m xs
    by simp
  show ?thesis
    using False empty [OF r1(1)] empty [OF r2] full assms(2) [OF False]
    by (simp add: tdb_load_recovered_prepared_def c b Let_def commute order)
qed

lemma own_iter_refl: "own_iter g it l l"
  by (simp add: own_iter_def same_handles_def)

lemma own_iter_trans: "own_iter g it a b \<Longrightarrow> own_iter g it b c \<Longrightarrow> own_iter g it a c"
  by (simp add: own_iter_def same_handles_def)

lemma tc_scan_own_all:
  assumes "tc_scan lib it l xs tabs = Some y"
  shows "lib_owns lib g D \<longrightarrow> own_iter g it l (fst y)"
proof (rule tc_scan.raw_induct [where P = "\<lambda>lib it l xs tabs y. lib_owns lib g D \<longrightarrow> own_iter g it l (fst y)", OF _ assms])
  fix scan lib it l xs tabs y
  assume IH: "\<And>lib it l xs tabs y. scan lib it l xs tabs = Some y \<Longrightarrow> lib_owns lib g D \<longrightarrow> own_iter g it l (fst y)"
    and body: "(if \<not> iter_valid lib it l then Some (l, xs, tabs)
      else case iter_key lib it l of
        (krc, k) \<Rightarrow>
          (case (if krc = TDB_SUCCESS then tdb_xid_from_key (Some k) True else None) of
             None \<Rightarrow> scan lib it (iter_next lib it l) xs tabs
           | Some x \<Rightarrow>
               (case iter_value lib it l of
                  (vrc, v) \<Rightarrow>
                    scan lib it (iter_next lib it l) (xs @ [x])
                      (tabs(k \<mapsto> if vrc = TDB_SUCCESS then snd (tdb_xa_tc_decode (Some v)) else []))))) = Some y"
  show "lib_owns lib g D \<longrightarrow> own_iter g it l (fst y)"
  proof
    assume o: "lib_owns lib g D"
    then have "own_iter g it l (iter_next lib it l)"
      by (rule lib_owns_iter(6))
    from own_iter_trans [OF this] show "own_iter g it l (fst y)"
      using body IH o by (auto simp: own_iter_refl split: if_splits prod.splits option.splits)
  qed
qed

lemmas tc_scan_own = tc_scan_own_all [THEN mp]

lemma recover_tc_own:
  assumes o: "lib_owns lib g D" and "tidesdb_recover_prepared_in_tc lib e = Some (xs, e')"
  shows "own_run g D K ow e ow e'"
proof -
  obtain co l where c: "tdb_xa_tc_cf lib (e_lib e) = (co, l)"
    by fastforce
  obtain rc out l1 where b: "txn_begin lib l = (rc, out, l1)"
    by (metis prod.exhaust)
  note ob = lib_owns_begin(1) [OF o b] and oc = tc_cf_own [OF o c]
  show ?thesis
  proof (cases "co = None \<or> rc \<noteq> TDB_SUCCESS")
    case True
    then have "e' = set_lib l e \<or> e' = set_lib l1 e \<and> own_plain g l l1"
      using assms(2) own_begin_fail [OF ob] by (cases co) (auto simp: tidesdb_recover_prepared_in_tc_def c b)
    then show ?thesis
      using oc by (auto intro: run_plain own_plain_trans)
  next
    case False
    then obtain cf h where ch: "co = Some cf" "rc = TDB_SUCCESS" "out = Some h"
      using ob by (auto simp: own_begin_def)
    obtain irc io l2 where i: "iter_new lib h cf l1 = (irc, io, l2)"
      by (metis prod.exhaust)
    note oi = lib_owns_iter(1) [OF o i]
    show ?thesis
    proof (cases "irc = TDB_SUCCESS \<and> io \<noteq> None")
      case False
      then have "own_txn g h l1 l2"
        using oi by (auto simp: own_iter_new_def own_txn_def same_handles_def split: option.splits)
      then have "own_plain g l (txn_free lib h (snd (txn_rollback lib h l2)))"
        using own_temp [OF o] ob ch own_txn_trans lib_owns_txn(4) [OF o] by (metis prod.collapse)
      moreover have "e' = set_lib (txn_free lib h (snd (txn_rollback lib h l2))) e"
        using assms(2) ch False by (auto simp: tidesdb_recover_prepared_in_tc_def c b i split: if_splits)
      ultimately show ?thesis
        using oc by (auto intro: run_plain own_plain_trans)
    next
      case True
      then obtain it where it: "irc = TDB_SUCCESS" "io = Some it"
        by auto
      obtain l3 xs3 tabs where sc: "tc_scan lib it (iter_seek_to_first lib it l2) [] (e_rec_tables e) = Some (l3, xs3, tabs)"
        and e': "e' = (set_lib (txn_free lib h (snd (txn_rollback lib h (iter_free lib it l3)))) e)\<lparr>e_rec_tables := tabs\<rparr>"
        using assms(2) ch it by (auto simp: tidesdb_recover_prepared_in_tc_def c b i)
      have "own_iter g it l2 l3"
        using own_iter_trans [OF lib_owns_iter(4) [OF o] tc_scan_own [OF sc o]] by simp
      then have "own_txn g h l1 (iter_free lib it l3)"
        using oi it lib_owns_iter(3) [OF o, of it l3]
        by (auto simp: own_iter_new_def own_txn_def same_handles_def own_iter_def own_iter_free_def)
      then have "own_plain g l (txn_free lib h (snd (txn_rollback lib h (iter_free lib it l3))))"
        using own_temp [OF o] ob ch own_txn_trans lib_owns_txn(4) [OF o] by (metis prod.collapse)
      then show ?thesis
        using oc e' by (auto intro: run_plain own_plain_trans own_run.tables)
    qed
  qed
qed

lemma own_run_dom:
  assumes "own_run g D K o0 e0 ow e"
  shows "dom (e_prepared e) \<subseteq> dom (e_prepared e0) \<union> K"
  using assms
proof (induction rule: own_run.induct)
  case (load ow e buf xs)
  have "dom (foldl register_txn m buf) = dom m \<union> fst ` set buf" for m
    by (induction buf arbitrary: m) (auto simp: register_txn_def)
  then show ?case
    using load by auto
next
  case (publish h e k)
  then show ?case
    by (simp del: fun_upd_apply)
next
  case (take e k h)
  then have "dom ((e_prepared e)(k := None)) \<subseteq> dom (e_prepared e0) \<union> K"
    by (simp del: fun_upd_apply) blast
  then show ?case
    by (simp del: fun_upd_apply)
qed simp_all

section \<open>The system\<close>

text \<open>
  Any number of connections and of by-XID resolvers over one engine. A connection's callbacks run one
  at a time; a resolver holds the transaction it took from the registry between its two critical
  sections, and any other step can come in between. The guards are what the server promises: an XID
  is not prepared while one with its key is registered or being resolved, and recovery starts before
  any is.
\<close>

record 'l sys =
  s_conn :: "nat \<Rightarrow> conn"
  s_res :: "nat \<Rightarrow> (bytes \<times> txn) option"
  s_eng :: "'l engine"

definition put_conn :: "nat \<Rightarrow> tidesdb_trx_t option \<Rightarrow> 'l engine \<Rightarrow> 'l sys \<Rightarrow> 'l sys" where
  "put_conn i trx e s = s\<lparr>s_conn := (s_conn s)(i := (s_conn s i)\<lparr>c_trx := trx\<rparr>), s_eng := e\<rparr>"

abbreviation conn_trx :: "'l sys \<Rightarrow> nat \<Rightarrow> tidesdb_trx_t option" where
  "conn_trx s i \<equiv> c_trx (s_conn s i)"

inductive sys_step :: "'l tdb_lib \<Rightarrow> 'l sys \<Rightarrow> 'l sys \<Rightarrow> bool" for lib :: "'l tdb_lib" where
  commit: "tidesdb_commit lib thd all (conn_trx s i) (s_eng s) = (rc, trx, e) \<Longrightarrow> sys_step lib s (put_conn i trx e s)"
| rollback: "tidesdb_rollback lib thd all (conn_trx s i) (s_eng s) = (rc, trx, e) \<Longrightarrow> sys_step lib s (put_conn i trx e s)"
| close: "tidesdb_close_connection lib (conn_trx s i) (s_eng s) = (rc, trx, e) \<Longrightarrow> sys_step lib s (put_conn i trx e s)"
| prepare: "tidesdb_prepare lib thd all (conn_trx s i) (s_eng s) = (rc, trx, e) \<Longrightarrow>
    e_prepared (s_eng s) (tdb_xid_key (thd_xid thd)) = None \<Longrightarrow>
    (\<And>j h. s_res s j \<noteq> Some (tdb_xid_key (thd_xid thd), h)) \<Longrightarrow> sys_step lib s (put_conn i trx e s)"
| in_tc: "tidesdb_set_prepared_in_tc lib thd (conn_trx s i) (s_eng s) = (rc, trx, e) \<Longrightarrow> sys_step lib s (put_conn i trx e s)"
| sp_set: "tidesdb_savepoint_set lib (conn_trx s i) sv (s_eng s) = (rc, sv', e) \<Longrightarrow> sys_step lib s (put_conn i (conn_trx s i) e s)"
| sp_rollback: "tidesdb_savepoint_rollback lib (conn_trx s i) sv (s_eng s) = (rc, sv', e) \<Longrightarrow>
    sys_step lib s (put_conn i (conn_trx s i) e s)"
| sp_release: "tidesdb_savepoint_release lib (conn_trx s i) sv (s_eng s) = (rc, sv', e) \<Longrightarrow>
    sys_step lib s (put_conn i (conn_trx s i) e s)"
| snapshot: "tidesdb_start_consistent_snapshot lib thd (s_conn s i) (s_eng s) = (b, c, e) \<Longrightarrow>
    sys_step lib s (s\<lparr>s_conn := (s_conn s)(i := c), s_eng := e\<rparr>)"
| ddl: "tdb_stmt_txn_for_ddl lib thd (s_conn s i) (s_eng s) = (b, c, e) \<Longrightarrow>
    sys_step lib s (s\<lparr>s_conn := (s_conn s)(i := c), s_eng := e\<rparr>)"
| ensure: "ensure_stmt_txn lib thd ha (s_conn s i) (s_eng s) = (rc, ha', c, e) \<Longrightarrow>
    sys_step lib s (s\<lparr>s_conn := (s_conn s)(i := c), s_eng := e\<rparr>)"
| lock: "external_lock_acquire lib thd ha (s_conn s i) (s_eng s) = (rc, ha', c, e) \<Longrightarrow>
    sys_step lib s (s\<lparr>s_conn := (s_conn s)(i := c), s_eng := e\<rparr>)"
| take: "s_res s j = None \<Longrightarrow> by_xid_take key (s_eng s) = (ho, e) \<Longrightarrow>
    sys_step lib s (s\<lparr>s_res := (s_res s)(j := map_option (Pair key) ho), s_eng := e\<rparr>)"
| finish: "s_res s j = Some (key, h) \<Longrightarrow>
    resolve = txn_commit_prepared lib \<or> resolve = txn_rollback_prepared lib \<Longrightarrow>
    by_xid_finish resolve lib key h (s_eng s) = (rc, e) \<Longrightarrow>
    sys_step lib s (s\<lparr>s_res := (s_res s)(j := None), s_eng := e\<rparr>)"
| recover: "tidesdb_recover lib len (s_eng s) = (out, e) \<Longrightarrow>
    (\<not> e_rec_loaded (s_eng s) \<Longrightarrow> e_prepared (s_eng s) = Map.empty \<and> s_res s = Map.empty) \<Longrightarrow>
    sys_step lib s (s\<lparr>s_eng := e\<rparr>)"
| recover_tc: "tidesdb_recover_prepared_in_tc lib (s_eng s) = Some (xs, e) \<Longrightarrow> sys_step lib s (s\<lparr>s_eng := e\<rparr>)"
| in_tc_by_xid: "tidesdb_set_prepared_in_tc_by_xid lib xo (s_eng s) = (rc, e) \<Longrightarrow> sys_step lib s (s\<lparr>s_eng := e\<rparr>)"

definition slots_of :: "'l sys \<Rightarrow> nat \<Rightarrow> txn option" where
  "slots_of s n = (if even n then held (conn_trx s (n div 2)) else map_option snd (s_res s (n div 2)))"

definition keys_inv :: "'l sys \<Rightarrow> bool" where
  "keys_inv s \<longleftrightarrow>
     (\<forall>j k h. s_res s j = Some (k, h) \<longrightarrow> e_prepared (s_eng s) k = None) \<and>
     (\<forall>i j k h h'. s_res s i = Some (k, h) \<longrightarrow> s_res s j = Some (k, h') \<longrightarrow> i = j)"

definition sys_inv :: "'l lib_ghost \<Rightarrow> txn set \<Rightarrow> 'l sys \<Rightarrow> bool" where
  "sys_inv g D s \<longleftrightarrow>
     own_inv g D (slots_of s) (s_eng s) \<and> (\<forall>i. unprepared (conn_trx s i)) \<and> keys_inv s"

lemma sys_inv_unprepared: "sys_inv g D s \<Longrightarrow> unprepared (conn_trx s i)"
  by (simp add: sys_inv_def)

lemma keys_inv_dom:
  assumes "keys_inv s" "dom (e_prepared e) \<subseteq> dom (e_prepared (s_eng s)) \<union> K" "s_res s' = s_res s" "s_eng s' = e"
    and "\<And>j k h. k \<in> K \<Longrightarrow> s_res s j \<noteq> Some (k, h)"
  shows "keys_inv s'"
  using assms unfolding keys_inv_def by (metis (no_types, lifting) UnE domIff subsetD)

lemma sys_inv_conn:
  assumes "sys_inv g D s" "runs g D K (conn_trx s i) (s_eng s) (c_trx c) e"
    and "\<And>j k h. k \<in> K \<Longrightarrow> s_res s j \<noteq> Some (k, h)"
  shows "sys_inv g D (s\<lparr>s_conn := (s_conn s)(i := c), s_eng := e\<rparr>)"
proof -
  let ?s = "s\<lparr>s_conn := (s_conn s)(i := c), s_eng := e\<rparr>"
  have "slots_of ?s = (slots_of s)(2 * i := held (c_trx c))"
    by (auto simp: slots_of_def fun_eq_iff)
  moreover have "slots_of s (2 * i) = held (conn_trx s i)"
    by (simp add: slots_of_def)
  moreover have run: "own_run g D K (held (conn_trx s i)) (s_eng s) (held (c_trx c)) e" and "unprepared (c_trx c)"
    using assms(2) by (simp_all add: runs_def)
  moreover have "keys_inv ?s"
    by (rule keys_inv_dom [OF _ own_run_dom [OF run] _ _ assms(3)]) (use assms(1) in \<open>simp_all add: sys_inv_def\<close>)
  ultimately show ?thesis
    using own_run_inv [OF run, of "slots_of s" "2 * i"] assms(1) by (simp add: sys_inv_def)
qed

lemma sys_inv_conn_plain:
  "sys_inv g D s \<Longrightarrow> runs g D {} (conn_trx s i) (s_eng s) (c_trx c) e \<Longrightarrow>
     sys_inv g D (s\<lparr>s_conn := (s_conn s)(i := c), s_eng := e\<rparr>)"
  by (rule sys_inv_conn [where K = "{}"]) (assumption | simp)+

lemma sys_inv_put:
  "sys_inv g D s \<Longrightarrow> runs g D {} (conn_trx s i) (s_eng s) trx e \<Longrightarrow> sys_inv g D (put_conn i trx e s)"
  unfolding put_conn_def by (rule sys_inv_conn_plain) simp_all

lemma sys_inv_slot:
  assumes "sys_inv g D s" "own_run g D K (map_option snd (s_res s j)) (s_eng s) (map_option snd x) e"
    and "keys_inv (s\<lparr>s_res := (s_res s)(j := x), s_eng := e\<rparr>)"
  shows "sys_inv g D (s\<lparr>s_res := (s_res s)(j := x), s_eng := e\<rparr>)"
proof -
  let ?s = "s\<lparr>s_res := (s_res s)(j := x), s_eng := e\<rparr>"
  have "slots_of ?s = (slots_of s)(Suc (2 * j) := map_option snd x)"
    by (auto simp: slots_of_def fun_eq_iff elim!: oddE)
  moreover have "slots_of s (Suc (2 * j)) = map_option snd (s_res s j)"
    by (simp add: slots_of_def)
  ultimately show ?thesis
    using own_run_inv [OF assms(2), of "slots_of s" "Suc (2 * j)"] assms(1,3) by (simp add: sys_inv_def)
qed

lemma sys_inv_eng:
  assumes "sys_inv g D s" "\<And>ow. own_run g D K ow (s_eng s) ow e" "\<And>j k h. k \<in> K \<Longrightarrow> s_res s j \<noteq> Some (k, h)"
  shows "sys_inv g D (s\<lparr>s_eng := e\<rparr>)"
  using sys_inv_conn [OF assms(1), of K 0 "s_conn s 0" e] assms by (simp add: runs_def sys_inv_def)

lemma take_keys:
  assumes "keys_inv s" "s_res s j = None" "by_xid_take key (s_eng s) = (ho, e)"
  shows "keys_inv (s\<lparr>s_res := (s_res s)(j := map_option (Pair key) ho), s_eng := e\<rparr>)"
proof (cases "e_prepared (s_eng s) key")
  case None
  then show ?thesis
    using assms by (auto simp: by_xid_take_def keys_inv_def)
next
  case (Some h)
  then have "ho = Some h" "e_prepared e = (e_prepared (s_eng s))(key := None)"
    using assms(3) by (auto simp: by_xid_take_def)
  moreover have "s_res s i \<noteq> Some (key, h')" for i h'
    using assms(1) Some unfolding keys_inv_def by (metis option.distinct(1))
  ultimately show ?thesis
    using assms(1) by (auto simp: keys_inv_def)
qed

lemma finish_keys:
  assumes "keys_inv s" "s_res s j = Some (key, h)" "dom (e_prepared e) \<subseteq> dom (e_prepared (s_eng s)) \<union> {key}"
  shows "keys_inv (s\<lparr>s_res := (s_res s)(j := None), s_eng := e\<rparr>)"
proof -
  have "s_res s i \<noteq> Some (key, h')" if "i \<noteq> j" for i h'
    using assms(1,2) that by (auto simp: keys_inv_def)
  then show ?thesis
    using assms(1,3) unfolding keys_inv_def by (auto split: if_splits) blast
qed

lemma sys_step_inv:
  assumes o: "lib_owns lib g D" and "sys_step lib s s'" and inv: "sys_inv g D s"
  shows "sys_inv g D s'"
  using assms(2) inv
proof (induction rule: sys_step.induct)
  case (prepare thd all s i rc trx e)
  have "runs g D {tdb_xid_key (thd_xid thd)} (conn_trx s i) (s_eng s) trx e"
    using prepare by (intro run_prepare [OF o sys_inv_unprepared [OF prepare(4)]]) auto
  with prepare show ?case
    unfolding put_conn_def by (intro sys_inv_conn) auto
next
  case (in_tc thd s i rc trx e)
  obtain ok l where m: "tdb_xa_tc_mark lib (tdb_xid_key (thd_xid thd))
      (case conn_trx s i of None \<Rightarrow> [] | Some t \<Rightarrow> prepared_mod_tables t) (e_lib (s_eng s)) = (ok, l)"
    by fastforce
  have "runs g D {} (conn_trx s i) (s_eng s) trx e"
    using in_tc m run_plain [OF tc_mark_own [OF o m]]
    by (cases "conn_trx s i") (auto simp: tidesdb_set_prepared_in_tc_def runs_def sys_inv_def unprepared_def)
  with in_tc show ?case
    by (intro sys_inv_put)
next
  case (sp_set s i sv rc sv' e)
  then show ?case
    using run_sp(1) [OF o] by (intro sys_inv_put) (auto simp: runs_def sys_inv_def)
next
  case (sp_rollback s i sv rc sv' e)
  then show ?case
    using run_sp(2) [OF o] by (intro sys_inv_put) (auto simp: runs_def sys_inv_def)
next
  case (sp_release s i sv rc sv' e)
  then show ?case
    using run_sp(3) [OF o] by (intro sys_inv_put) (auto simp: runs_def sys_inv_def)
next
  case (take s j key ho e)
  have "map_option snd (map_option (Pair key) ho) = ho"
    by (cases ho) simp_all
  then show ?case
    using take run_take [where g = g and D = D and K = "{}", OF take(2)] take_keys [OF _ take(1,2)]
    by (intro sys_inv_slot) (simp_all add: sys_inv_def)
next
  case (finish s j key h resolve rc e)
  have "e_prepared (s_eng s) key = None"
    using finish(1,4) by (auto simp: sys_inv_def keys_inv_def)
  note run = run_finish [OF o finish(2,3) this singletonI]
  have "keys_inv (s\<lparr>s_res := (s_res s)(j := None), s_eng := e\<rparr>)"
    by (rule finish_keys [OF _ finish(1) own_run_dom [OF run]]) (use finish(4) in \<open>simp add: sys_inv_def\<close>)
  with run finish show ?case
    by (intro sys_inv_slot [where K = "{key}"]) simp_all
next
  case (recover len s out e)
  define e1 where "e1 = tdb_load_recovered_prepared lib (s_eng s)"
  obtain x n where b: "recover_batch (e_rec_tables e1) (drop (e_rec_pos e1) (e_rec_xids e1)) len = (x, n)"
    by fastforce
  show ?case
  proof (cases "e_rec_loaded (s_eng s)")
    case True
    then have "e1 = s_eng s"
      by (simp add: e1_def tdb_load_recovered_prepared_def)
    then have "own_run g D {} ow (s_eng s) ow e" for ow
      using recover(1) b
      by (auto simp: tidesdb_recover_def Let_def own_run.stay simp flip: e1_def split: if_splits intro: own_run.cursor)
    with recover show ?thesis
      by (intro sys_inv_eng) auto
  next
    case False
    have "own_run g D UNIV ow (s_eng s) ow (e1\<lparr>e_rec_pos := e_rec_pos e1 + n\<rparr>)" for ow
      unfolding e1_def using recover(2) False by (intro own_run.cursor run_load [OF o]) blast
    then have "own_run g D UNIV ow (s_eng s) ow e" for ow
      using recover(1) b by (auto simp: tidesdb_recover_def Let_def own_run.stay simp flip: e1_def split: if_splits)
    with recover False show ?thesis
      by (intro sys_inv_eng) auto
  qed
next
  case (recover_tc s xs e)
  then show ?case
    using recover_tc_own [OF o, where K = "{}"] by (intro sys_inv_eng) auto
next
  case (in_tc_by_xid xo s rc e)
  have "own_run g D {} ow (s_eng s) ow e" for ow
    using in_tc_by_xid(1) run_plain [OF tc_mark_own [OF o]]
    by (auto simp: tidesdb_set_prepared_in_tc_by_xid_def Let_def own_run.stay split: option.splits prod.splits)
  with in_tc_by_xid show ?case
    by (intro sys_inv_eng) auto
qed (auto intro!: sys_inv_put sys_inv_conn_plain dest: sys_inv_unprepared
    intro: run_commit [OF o] run_rollback [OF o] run_close [OF o] run_snapshot [OF o]
      run_ddl_txn [OF o] run_ensure [OF o] run_lock [OF o])

definition sys_start :: "'l engine \<Rightarrow> 'l sys" where
  "sys_start e = \<lparr>s_conn = (\<lambda>_. \<lparr>c_trx = None, c_reg_stmt = False, c_reg_all = False\<rparr>), s_res = (\<lambda>_. None), s_eng = e\<rparr>"

definition engine_start :: "'l \<Rightarrow> 'l engine" where
  "engine_start l =
     \<lparr>e_lib = l, e_prepared = Map.empty, e_rec_xids = [], e_rec_pos = 0, e_rec_loaded = False, e_rec_tables = Map.empty\<rparr>"

section \<open>Properties\<close>


definition demo_thd :: thd where
  "demo_thd = \<lparr>thd_multi_stmt = True, thd_sql_command = SQLCOM_OTHER 0, thd_tx_isolation = ISO_REPEATABLE_READ,
     thd_xid = \<lparr>x_format = 1, x_gtrid_len = 1, x_bqual_len = 0, x_data = [7]\<rparr>\<rparr>"

definition demo_sys :: "mem sys" where
  "demo_sys = (let s = sys_start (engine_start mem_init);
      (b, c, e) = tidesdb_start_consistent_snapshot (mem_lib []) demo_thd (s_conn s 0) (s_eng s)
    in s\<lparr>s_conn := (s_conn s)(0 := c), s_eng := e\<rparr>)"

end
