(* ===== verification/Txn_Stmt.thy ===== *)
theory Txn_Stmt
  imports Txn_Own
begin

text \<open>
  What the transaction callbacks do to the data, over the contracts \<open>lib_stores\<close> and \<open>lib_savepoints\<close>:
  statement atomicity, the outcome of commit, and two runs in which the connection's bookkeeping goes
  wrong. Row operations are the calls the write paths make through the wrappers of
  \<^verbatim>\<open>src/tidesdb/src/handler/ha_tidesdb_internal.h\<close>.
\<close>

lemma lib_savepoint_rules:
  assumes "lib_savepoints lib s"
  shows "txn_savepoint lib h n l = (TDB_SUCCESS, l') \<Longrightarrow>
      s_db s l' = s_db s l \<and> s_txn s l' = s_txn s l \<and> s_iter s l' = s_iter s l \<and>
      s_saved s l' = (s_saved s l)(h := (s_saved s l h)(n \<mapsto> s_txn s l h))"
    and "txn_rollback_to_savepoint lib h n l = (rc, l') \<Longrightarrow> s_saved s l h n = Some c \<Longrightarrow>
      rc = TDB_SUCCESS \<and> sem_frame s h l l' \<and> s_txn s l' h = c"
    and "txn_release_savepoint lib h n l = (rc, l') \<Longrightarrow>
      s_db s l' = s_db s l \<and> s_txn s l' = s_txn s l \<and> s_iter s l' = s_iter s l"
proof -
  note a = assms [unfolded lib_savepoints_def, THEN conjunct1, rule_format]
    and b = assms [unfolded lib_savepoints_def, THEN conjunct2, THEN conjunct1, rule_format]
    and c = assms [unfolded lib_savepoints_def, THEN conjunct2, THEN conjunct2, rule_format]
  show "txn_savepoint lib h n l = (TDB_SUCCESS, l') \<Longrightarrow>
      s_db s l' = s_db s l \<and> s_txn s l' = s_txn s l \<and> s_iter s l' = s_iter s l \<and>
      s_saved s l' = (s_saved s l)(h := (s_saved s l h)(n \<mapsto> s_txn s l h))"
    using a [of h n l TDB_SUCCESS l'] by simp
  show "txn_rollback_to_savepoint lib h n l = (rc, l') \<Longrightarrow> s_saved s l h n = Some c \<Longrightarrow>
      rc = TDB_SUCCESS \<and> sem_frame s h l l' \<and> s_txn s l' h = c"
    using b [of h n l rc l'] by simp
  show "txn_release_savepoint lib h n l = (rc, l') \<Longrightarrow>
      s_db s l' = s_db s l \<and> s_txn s l' = s_txn s l \<and> s_iter s l' = s_iter s l"
    using c [of h n l rc l'] by simp
qed

section \<open>Row operations\<close>

definition tdb_txn_delete_cf :: "'l tdb_lib \<Rightarrow> txn \<Rightarrow> cf \<Rightarrow> bytes \<Rightarrow> bool \<Rightarrow> 'l \<Rightarrow> tdb_rc \<times> 'l" where
  "tdb_txn_delete_cf lib h c k use_single_delete l =
     (if use_single_delete then txn_single_delete lib h c k l else txn_delete lib h c k l)"

text \<open>What the statements between two transaction callbacks do to the connection.\<close>

datatype row_op =
    Row_put cf bytes bytes int
  | Row_delete cf bytes bool
  | Row_get cf bytes
  | Row_fts cf nat u64 u64

fun run_row_op :: "'l tdb_lib \<Rightarrow> txn \<Rightarrow> row_op \<Rightarrow> tidesdb_trx_t \<times> 'l engine \<Rightarrow> tidesdb_trx_t \<times> 'l engine" where
  "run_row_op lib h (Row_put c k v ttl) (t, e) = (t\<lparr>dirty := True\<rparr>, do_lib (txn_put lib h c k v ttl) e)"
| "run_row_op lib h (Row_delete c k sd) (t, e) = (t\<lparr>dirty := True\<rparr>, do_lib (tdb_txn_delete_cf lib h c k sd) e)"
| "run_row_op lib h (Row_get c k) (t, e) = (t, set_lib (snd (snd (txn_get lib h c k (e_lib e)))) e)"
| "run_row_op lib h (Row_fts c nr dd wd) (t, e) = (the (trx_fts_meta_accumulate (Some t) c nr dd wd), e)"

definition row_ops :: "'l tdb_lib \<Rightarrow> txn \<Rightarrow> row_op list \<Rightarrow> tidesdb_trx_t \<times> 'l engine \<Rightarrow> tidesdb_trx_t \<times> 'l engine" where
  "row_ops lib h ops st = foldl (\<lambda>st q. run_row_op lib h q st) st ops"

definition kept :: "'l lib_sem \<Rightarrow> txn \<Rightarrow> tidesdb_trx_t \<times> 'l engine \<Rightarrow> tidesdb_trx_t \<times> 'l engine \<Rightarrow> bool" where
  "kept s h a b \<longleftrightarrow>
     s_saved s (e_lib (snd b)) h = s_saved s (e_lib (snd a)) h \<and> s_db s (e_lib (snd b)) = s_db s (e_lib (snd a)) \<and>
     trx_txn (fst b) = trx_txn (fst a) \<and> stmt_savepoint_active (fst b) = stmt_savepoint_active (fst a) \<and>
     stmt_fts_snapshot (fst b) = stmt_fts_snapshot (fst a) \<and>
     stmt_fts_dirty_snapshot (fst b) = stmt_fts_dirty_snapshot (fst a)"

lemma sem_write_kept: "sem_write s h p v rc l l' \<Longrightarrow> s_saved s l' = s_saved s l \<and> s_db s l' = s_db s l"
  by (auto simp: sem_write_def sem_content_def sem_same_def split: if_splits)

lemma row_op_kept:
  assumes st: "lib_stores lib s"
  shows "kept s h (t, e) (run_row_op lib h q (t, e))"
proof (cases q)
  case (Row_put c k v ttl)
  obtain rc l where p: "txn_put lib h c k v ttl (e_lib e) = (rc, l)"
    by fastforce
  show ?thesis
    using sem_write_kept [OF lib_stores_txn(15) [OF st p]] by (simp add: Row_put kept_def do_lib_def call_lib_def p)
next
  case (Row_delete c k sd)
  obtain rc l where p: "tdb_txn_delete_cf lib h c k sd (e_lib e) = (rc, l)"
    by fastforce
  have "sem_write s h (c, k) None rc (e_lib e) l"
    using p lib_stores_txn(16,17) [OF st] by (auto simp: tdb_txn_delete_cf_def split: if_splits)
  from sem_write_kept [OF this] show ?thesis
    by (simp add: Row_delete kept_def do_lib_def call_lib_def p)
next
  case (Row_get c k)
  obtain rc v l where p: "txn_get lib h c k (e_lib e) = (rc, v, l)"
    by (metis prod.exhaust)
  show ?thesis
    using lib_stores_txn(12) [OF st p] by (simp add: Row_get kept_def p sem_same_def)
next
  case (Row_fts c nr dd wd)
  then show ?thesis
    by (simp add: kept_def trx_fts_meta_accumulate_def)
qed

lemma row_ops_kept: "lib_stores lib s \<Longrightarrow> kept s h st (row_ops lib h ops st)"
proof (induction ops rule: rev_induct)
  case (snoc q ops)
  then show ?case
    using row_op_kept [OF snoc.prems, of h "fst (row_ops lib h ops st)" "snd (row_ops lib h ops st)" q]
    by (simp add: row_ops_def kept_def)
qed (simp add: row_ops_def kept_def)

lemma arm_saved:
  assumes "lib_savepoints lib s" "stmt_savepoint_arm lib h t e = (t', e')" "stmt_savepoint_active t'" "\<not> stmt_savepoint_active t"
  shows "s_saved s (e_lib e') h TIDESDB_STMT_SAVEPOINT = Some (s_txn s (e_lib e') h) \<and>
    stmt_fts_snapshot t' = fts_meta_pending t' \<and> stmt_fts_dirty_snapshot t' = fts_meta_dirty t'"
proof -
  define e1 where "e1 = do_lib (txn_release_savepoint lib h TIDESDB_STMT_SAVEPOINT) e"
  obtain rc l2 where p: "txn_savepoint lib h TIDESDB_STMT_SAVEPOINT (e_lib e1) = (rc, l2)"
    by fastforce
  have ok: "rc = TDB_SUCCESS" "e' = set_lib l2 e1"
    "t' = t\<lparr>stmt_savepoint_active := True, stmt_fts_snapshot := fts_meta_pending t, stmt_fts_dirty_snapshot := fts_meta_dirty t\<rparr>"
    using assms(2-4) by (auto simp: stmt_savepoint_arm_def Let_def call_lib_def p simp flip: e1_def split: if_splits)
  moreover have "s_txn s l2 = s_txn s (e_lib e1) \<and>
      s_saved s l2 = (s_saved s (e_lib e1))(h := (s_saved s (e_lib e1) h)(TIDESDB_STMT_SAVEPOINT \<mapsto> s_txn s (e_lib e1) h))"
    using lib_savepoint_rules(1) [OF assms(1)] p ok(1) by blast
  ultimately show ?thesis
    by simp
qed

lemma create_keeps_savepoint:
  assumes "get_or_create_trx lib lv trx e = (b, Some t', e')"
  shows "stmt_savepoint_active t' = (case trx of None \<Rightarrow> False | Some t \<Rightarrow> stmt_savepoint_active t)"
  using assms
  by (auto simp: get_or_create_trx_def new_trx_def split: option.splits prod.splits if_splits)

section \<open>Properties\<close>


definition demo_ha :: ha_tidesdb where
  "demo_ha = \<lparr>share_iso = None, stmt_txn = None, stmt_txn_dirty = False, cached_thd = False, cached_trx = False,
     cached_sql_cmd = SQLCOM_OTHER 0, cached_is_autocommit = False, cached_stmt_shape_valid = False, scan_iter = None,
     scan_iter_txn = None, scan_txn = None, share_update_time = 0, cached_time = 0, cached_time_valid = False,
     enc_key_ver_valid = False, cached_thdvars_valid = False, mod_table_noted_generation = - 1\<rparr>"

definition demo_conn :: conn where
  "demo_conn = \<lparr>c_trx = None, c_reg_stmt = False, c_reg_all = False\<rparr>"

definition demo_lock :: "ha_rc \<times> ha_tidesdb \<times> conn \<times> mem engine" where
  "demo_lock = external_lock_acquire (mem_lib []) demo_thd demo_ha demo_conn (engine_start mem_init)"

definition demo_rows :: "tidesdb_trx_t \<times> mem engine" where
  "demo_rows = row_ops (mem_lib []) 100 [Row_put 0 [1] [2] (-1), Row_fts 0 3 1 5]
     (the (c_trx (fst (snd (snd demo_lock)))), snd (snd (snd demo_lock)))"

definition demo_undo :: "ha_rc \<times> tidesdb_trx_t option \<times> mem engine" where
  "demo_undo = tidesdb_rollback (mem_lib []) demo_thd False (Some (fst demo_rows)) (snd demo_rows)"


subsection \<open>Commit\<close>

definition flushed :: "tidesdb_trx_t \<Rightarrow> content \<Rightarrow> content" where
  "flushed t c = (if fts_meta_dirty t then flush_content (fts_meta_pending t) c else c)"

lemma update_meta_db:
  assumes "lib_stores lib s" "fts_update_meta lib h cf nr dd wd l = (rc, l')"
  shows "s_db s l' = s_db s l"
proof -
  obtain rrc td tw l1 where ld: "fts_load_meta lib h cf nr l = (rrc, (td, tw), l1)"
    by (metis prod.exhaust)
  have "s_db s l1 = s_db s l"
    using load_meta_sem(1) [OF assms(1) ld] by (simp add: sem_same_def)
  moreover have "s_db s l' = s_db s l1"
    using assms(2) sem_write_kept [OF lib_stores_txn(15) [OF assms(1)]]
    by (auto simp: fts_update_meta_def ld split: if_splits)
  ultimately show ?thesis
    by simp
qed

lemma flush_db:
  assumes "lib_stores lib s" "flush_trx_fts_meta_pending lib t l = (rc, t', l')"
  shows "s_db s l' = s_db s l"
proof -
  have "flush_deltas lib h es l = (rc, l') \<Longrightarrow> s_db s l' = s_db s l" for h es l
  proof (induction es arbitrary: l)
    case (Cons e es)
    obtain r l1 where u: "fts_update_meta lib h (data_cf e) (keynr e) (doc_delta e) (word_delta e) l = (r, l1)"
      by fastforce
    then show ?case
      using Cons update_meta_db [OF assms(1) u] by (auto split: if_splits)
  qed simp
  then show ?thesis
    using assms(2) by (auto simp: flush_trx_fts_meta_pending_def split: option.splits if_splits prod.splits)
qed

lemma flush_sem:
  assumes "lib_stores lib s" "flush_trx_fts_meta_pending lib t l = (TDB_SUCCESS, t', l')" "trx_txn t = Some h"
  shows "s_txn s l' h = flushed t (s_txn s l h)"
  using assms flush_deltas_sem [OF assms(1)]
  by (auto simp: flush_trx_fts_meta_pending_def flushed_def sem_content_def split: if_splits prod.splits)

lemma commit_stateful_sem:
  assumes "lib_stores lib s" "tdb_txn_commit_stateful lib h e = (rc, e')"
  shows "s_db s (e_lib e') = (if rc = TDB_SUCCESS then apply_writes (snd (s_txn s (e_lib e) h)) (s_db s (e_lib e))
     else s_db s (e_lib e))"
  using assms(2) lib_stores_txn(9,10) [OF assms(1)]
  by (auto simp: tdb_txn_commit_stateful_def call_lib_def sem_commit_def split: option.splits tdb_txn_state.splits prod.splits)

lemma rollback_stateful_db:
  assumes "lib_stores lib s"
  shows "s_db s (e_lib (tdb_txn_rollback_stateful lib h e)) = s_db s (e_lib e)"
    and "s_db s (e_lib (do_lib (txn_rollback lib h) e)) = s_db s (e_lib e)"
    and "s_db s (e_lib (free_txn lib h e)) = s_db s (e_lib e)"
  using lib_stores_txn(6,7,8) [OF assms]
  by (auto simp: tdb_txn_rollback_stateful_def do_lib_def call_lib_def free_txn_def sem_frame_def
      split: option.splits tdb_txn_state.splits prod.splits)

lemma disarm_sem:
  assumes "lib_savepoints lib s" "stmt_savepoint_disarm lib h t e = (t', e')"
  shows "s_db s (e_lib e') = s_db s (e_lib e) \<and> s_txn s (e_lib e') = s_txn s (e_lib e) \<and> trx_txn t' = trx_txn t \<and>
    dirty t' = dirty t \<and> fts_meta_dirty t' = fts_meta_dirty t \<and> fts_meta_pending t' = fts_meta_pending t \<and>
    prepared_xid t' = prepared_xid t"
proof -
  obtain r l where rel: "txn_release_savepoint lib h TIDESDB_STMT_SAVEPOINT (e_lib e) = (r, l)"
    by fastforce
  show ?thesis
    using assms(2) lib_savepoint_rules(3) [OF assms(1) rel]
    by (auto simp: stmt_savepoint_disarm_def do_lib_def call_lib_def rel split: if_splits)
qed

text \<open>C3: Commit is all or nothing, and it says which. When the commit of a writing transaction reports success,
  the database is exactly the old one with all of the transaction's writes applied, the flushed full-text
  totals among them; when it reports an error the database is untouched and the transaction is gone. A
  statement-level commit inside a transaction changes nothing durable.\<close>

theorem commit_all_or_nothing:
  assumes "lib_stores lib s" and "lib_savepoints lib s"
    and "trx_txn t = Some h" and "dirty t" and "prepared_xid t = []"
    and "tidesdb_commit lib thd all (Some t) e = (rc, trx', e')"
  shows "if \<not> is_real all thd then rc = HA_OK \<and> s_db s (e_lib e') = s_db s (e_lib e)
     else if rc = HA_OK
     then s_db s (e_lib e') = apply_writes (snd (flushed t (s_txn s (e_lib e) h))) (s_db s (e_lib e)) \<and>
          held trx' = Some h
     else s_db s (e_lib e') = s_db s (e_lib e) \<and> held trx' = None"
proof -
  obtain t1 e1 where d: "stmt_savepoint_disarm lib h t e = (t1, e1)"
    by fastforce
  note dis = disarm_sem [OF assms(2) d]
  have drop: "tdb_drop_prepared_entry t1 e1 = (t1, e1)"
    using dis assms(5) by (intro drop_prepared_none) simp
  obtain frc t2 l2 where fl: "flush_trx_fts_meta_pending lib t1 (e_lib e1) = (frc, t2, l2)"
    by (metis prod.exhaust)
  have t2: "trx_txn t2 = Some h"
    using fl dis assms(3) by (auto simp: flush_trx_fts_meta_pending_def split: option.splits if_splits prod.splits)
  obtain crc e3 where c: "tdb_txn_commit_stateful lib h (set_lib l2 e1) = (crc, e3)"
    by fastforce
  note db2 = flush_db [OF assms(1) fl] and com = commit_stateful_sem [OF assms(1) c]
  have con2: "s_txn s l2 h = flushed t (s_txn s (e_lib e) h)" if "frc = TDB_SUCCESS"
    using flush_sem [OF assms(1) fl [unfolded that]] dis assms(3) by (simp add: flushed_def)
  show ?thesis
  proof (cases "is_real all thd")
    case False
    then show ?thesis
      using assms(3,6) dis by (auto simp: tidesdb_commit_def d)
  next
    case True
    then have fin: "tdb_finalize_commit lib h t e = (rc, the trx', e')" "trx' \<noteq> None"
      using assms(3,6) by (auto simp: tidesdb_commit_def split: prod.splits)
    then have "rc = HA_OK \<longleftrightarrow> frc = TDB_SUCCESS \<and> crc = TDB_SUCCESS"
      and "rc = HA_OK \<Longrightarrow> e' = e3 \<and> trx_txn (the trx') = Some h"
      and "rc \<noteq> HA_OK \<Longrightarrow> s_db s (e_lib e') = s_db s (e_lib e) \<and> trx_txn (the trx') = None"
      using dis assms(4) db2 com t2
      by (auto simp: tdb_finalize_commit_def d drop fl Let_def c rollback_stateful_db [OF assms(1)] split: if_splits)
    then show ?thesis
      using True fin(2) com con2 db2 dis by (cases trx') auto
  qed
qed

definition demo_commit :: "ha_rc \<times> tidesdb_trx_t option \<times> mem engine" where
  "demo_commit = tidesdb_commit (mem_lib []) demo_thd True (Some (fst demo_rows)) (snd demo_rows)"

theorem commit_all_or_nothing_witness:
  "fst demo_commit = HA_OK \<and>
   s_db mem_sem (e_lib (snd (snd demo_commit))) =
     apply_writes (snd (flushed (fst demo_rows) (s_txn mem_sem (e_lib (snd demo_rows)) 100)))
       (s_db mem_sem (e_lib (snd demo_rows))) \<and>
   s_db mem_sem (e_lib (snd (snd demo_commit))) (0, [1]) = Some [2]"
proof -
  have t: "trx_txn (fst demo_rows) = Some 100" "dirty (fst demo_rows)" "prepared_xid (fst demo_rows) = []"
    by code_simp+
  have run: "tidesdb_commit (mem_lib []) demo_thd True (Some (fst demo_rows)) (snd demo_rows) =
      (fst demo_commit, fst (snd demo_commit), snd (snd demo_commit))"
    by (simp add: demo_commit_def)
  have ok: "fst demo_commit = HA_OK"
    by code_simp
  from commit_all_or_nothing [OF mem_lib_stores mem_lib_savepoints t run] ok
  have "s_db mem_sem (e_lib (snd (snd demo_commit))) =
     apply_writes (snd (flushed (fst demo_rows) (s_txn mem_sem (e_lib (snd demo_rows)) 100)))
       (s_db mem_sem (e_lib (snd demo_rows)))"
    by (simp add: is_real_def)
  moreover have "s_db mem_sem (e_lib (snd (snd demo_commit))) (0, [1]) = Some [2]"
    by code_simp
  ultimately show ?thesis
    using ok by blast
qed

subsection \<open>A reset that comes too late\<close>

text \<open>
  A connection that committed once, then a statement that fails because neither the reset nor a new
  transaction was to be had, then two statements that succeed. The faults are the library's answers to
  the failing statement's two calls.
\<close>

definition after_first_commit :: "conn \<times> mem engine" where
  "after_first_commit = (case demo_commit of (rc, trx, e) \<Rightarrow>
     (demo_conn\<lparr>c_trx := trx\<rparr>,
      e\<lparr>e_lib := (e_lib e)\<lparr>m_faults := [TDB_ERR_MEMORY_LIMIT, TDB_ERR_MEMORY_LIMIT]\<rparr>\<rparr>))"

definition failed_lock :: "ha_rc \<times> ha_tidesdb \<times> conn \<times> mem engine" where
  "failed_lock = external_lock_acquire (mem_lib []) demo_thd demo_ha (fst after_first_commit) (snd after_first_commit)"

definition second_lock :: "ha_rc \<times> ha_tidesdb \<times> conn \<times> mem engine" where
  "second_lock = (case failed_lock of (rc, ha, c, e) \<Rightarrow> external_lock_acquire (mem_lib []) demo_thd demo_ha c e)"

definition second_write :: "txn \<times> tidesdb_trx_t \<times> mem engine" where
  "second_write = (case second_lock of (rc, ha, c, e) \<Rightarrow>
     (let h = the (held (c_trx c))
      in (h, row_ops (mem_lib []) h [Row_put 0 [8] [9] (-1)] (the (c_trx c), e))))"

definition second_end :: "ha_rc \<times> tidesdb_trx_t option \<times> mem engine" where
  "second_end = (case second_write of (h, t, e) \<Rightarrow> tidesdb_commit (mem_lib []) demo_thd False (Some t) e)"

definition third_lock :: "ha_rc \<times> ha_tidesdb \<times> conn \<times> mem engine" where
  "third_lock = (case second_end of (rc, trx, e) \<Rightarrow>
     external_lock_acquire (mem_lib []) demo_thd demo_ha (demo_conn\<lparr>c_trx := trx\<rparr>) e)"


subsection \<open>Tables a prepared transaction wrote to\<close>

definition name_a :: "bytes \<times> bytes" where "name_a = ([0x64], [0x61])"
definition name_b :: "bytes \<times> bytes" where "name_b = ([0x64], [0x62])"

text \<open>One transaction: a row into the first table, a statement that fails and is rolled back, a row into
  the second table, then XA PREPARE.\<close>

definition two_table_run :: "ha_rc \<times> tidesdb_trx_t option \<times> mem engine" where
  "two_table_run =
     (case external_lock_acquire (mem_lib []) demo_thd demo_ha demo_conn (engine_start mem_init) of
        (_, _, c1, e1) \<Rightarrow>
          (let t1 = the (snd (note_modified_table (Some name_a) (- 1) (c_trx c1)));
               (t2, e2) = row_ops (mem_lib []) 100 [Row_put 0 [1] [2] (-1)] (t1, e1)
           in (case tidesdb_commit (mem_lib []) demo_thd False (Some t2) e2 of
                 (_, trx3, e3) \<Rightarrow>
                   (case external_lock_acquire (mem_lib []) demo_thd demo_ha (c1\<lparr>c_trx := trx3\<rparr>) e3 of
                      (_, _, c4, e4) \<Rightarrow>
                        (case tidesdb_rollback (mem_lib []) demo_thd False (c_trx c4) e4 of
                           (_, trx5, e5) \<Rightarrow>
                             (case external_lock_acquire (mem_lib []) demo_thd demo_ha (c1\<lparr>c_trx := trx5\<rparr>) e5 of
                                (_, _, c6, e6) \<Rightarrow>
                                  (let t7 = the (snd (note_modified_table (Some name_b) (- 1) (c_trx c6)));
                                       (t8, e8) = row_ops (mem_lib []) 100 [Row_put 1 [3] [4] (-1)] (t7, e6)
                                   in tidesdb_prepare (mem_lib []) (demo_thd\<lparr>thd_sql_command := SQLCOM_XA_PREPARE\<rparr>) True
                                        (Some t8) e8)))))))"

end
