(* ===== verification/Tdb_Scan.thy ===== *)
theory Tdb_Scan
  imports Tdb_Lib
begin

text \<open>
  The loops the handler runs over library iterators, and what the contracts say of them. \<open>scan_entries\<close> is the loop that
  visits every entry, \<open>scan_prefix\<close> the one that stops at the first key with a given prefix. Both end because an
  iterator is a finite list. \<open>lib_reliable\<close> is the contract of a library in which nothing fails: it is what the
  properties that promise a result assume.
\<close>

section \<open>Loops\<close>

partial_function (option) scan_entries ::
  "'l tdb_lib \<Rightarrow> iter \<Rightarrow> (bytes \<Rightarrow> bytes \<Rightarrow> 'a \<Rightarrow> 'a) \<Rightarrow> 'a \<Rightarrow> 'l \<Rightarrow> ('a \<times> 'l) option" where
  "scan_entries lib it f acc l =
     (if \<not> iter_valid lib it l then Some (acc, l)
      else case (iter_key lib it l, iter_value lib it l) of
        ((krc, k), (vrc, v)) \<Rightarrow>
          scan_entries lib it f (if krc = TDB_SUCCESS \<and> vrc = TDB_SUCCESS then f k v acc else acc) (iter_next lib it l))"

partial_function (option) scan_prefix :: "'l tdb_lib \<Rightarrow> iter \<Rightarrow> bytes \<Rightarrow> 'l \<Rightarrow> (bool \<times> 'l) option" where
  "scan_prefix lib it pre l =
     (if \<not> iter_valid lib it l then Some (False, l)
      else case iter_key lib it l of
        (krc, k) \<Rightarrow>
          if krc = TDB_SUCCESS \<and> take (length pre) k = pre then Some (True, l)
          else scan_prefix lib it pre (iter_next lib it l))"

section \<open>What the contracts give\<close>

lemma lib_iterates_rules:
  assumes "lib_iterates lib s"
  shows "iter_new lib h c l = (rc, out, l') \<Longrightarrow> sem_opened s (\<lambda>k. fst (s_txn s l h) (c, k)) rc out l l'"
    and "sem_iter_set s it None l (iter_free lib it l)"
    and "sem_iter_set s it (map_option it_first (s_iter s l it)) l (iter_seek_to_first lib it l)"
    and "s_iter s l it = Some w \<Longrightarrow> it_valid w \<Longrightarrow> sem_iter_set s it (Some (it_move 1 w)) l (iter_next lib it l)"
    and "s_iter s l it = Some w \<Longrightarrow> iter_valid lib it l = it_valid w"
    and "s_iter s l it = Some w \<Longrightarrow> it_valid w \<Longrightarrow> iter_key lib it l = (TDB_SUCCESS, fst (fst w ! nat (snd w)))"
    and "s_iter s l it = Some w \<Longrightarrow> it_valid w \<Longrightarrow> iter_value lib it l = (TDB_SUCCESS, snd (fst w ! nat (snd w)))"
    and "sem_iter_set s it (map_option (it_seek k) (s_iter s l it)) l (iter_seek lib it k l)"
    and "iter_new_range lib h c a b l = (rc, out, l') \<Longrightarrow>
      sem_opened s (\<lambda>k. if in_range c a b (c, k) then fst (s_txn s l h) (c, k) else None) rc out l l'"
    and "sem_iter_set s it (map_option it_last (s_iter s l it)) l (iter_seek_to_last lib it l)"
    and "sem_iter_set s it (map_option (it_seek_for_prev k) (s_iter s l it)) l (iter_seek_for_prev lib it k l)"
    and "s_iter s l it = Some w \<Longrightarrow> it_valid w \<Longrightarrow> sem_iter_set s it (Some (it_move (-1) w)) l (iter_prev lib it l)"
    and "txn_delete_range lib h c a b l = (TDB_SUCCESS, l') \<Longrightarrow>
      fst (s_txn s l' h) = (\<lambda>p. if in_range c a b p then None else fst (s_txn s l h) p)"
    and "txn_delete_range lib h c a b l = (rc, l') \<Longrightarrow> s_db s l' = s_db s l"
proof -
  have "s_iter s l it = Some w \<Longrightarrow>
      iter_valid lib it l = it_valid w \<and>
      (it_valid w \<longrightarrow> iter_key lib it l = (TDB_SUCCESS, fst (fst w ! nat (snd w))) \<and>
                     iter_value lib it l = (TDB_SUCCESS, snd (fst w ! nat (snd w))))"
    using assms unfolding lib_iterates_def by meson
  then show "s_iter s l it = Some w \<Longrightarrow> iter_valid lib it l = it_valid w"
    and "s_iter s l it = Some w \<Longrightarrow> it_valid w \<Longrightarrow> iter_key lib it l = (TDB_SUCCESS, fst (fst w ! nat (snd w)))"
    and "s_iter s l it = Some w \<Longrightarrow> it_valid w \<Longrightarrow> iter_value lib it l = (TDB_SUCCESS, snd (fst w ! nat (snd w)))"
    by blast+
  have "txn_delete_range lib h c a b l = (rc, l') \<Longrightarrow>
      (if rc = TDB_SUCCESS
       then sem_frame s h l l' \<and> s_saved s l' h = s_saved s l h \<and>
            fst (s_txn s l' h) = (\<lambda>p. if in_range c a b p then None else fst (s_txn s l h) p)
       else sem_same s l l')" for rc
    using assms unfolding lib_iterates_def by meson
  then show "txn_delete_range lib h c a b l = (TDB_SUCCESS, l') \<Longrightarrow>
      fst (s_txn s l' h) = (\<lambda>p. if in_range c a b p then None else fst (s_txn s l h) p)"
    and "txn_delete_range lib h c a b l = (rc, l') \<Longrightarrow> s_db s l' = s_db s l"
    by (auto simp: sem_frame_def sem_same_def split: if_splits)
qed (use assms in \<open>unfold lib_iterates_def, meson\<close>)+

lemma sem_iter_set_trans: "sem_iter_set s it c l l1 \<Longrightarrow> sem_iter_set s it c' l1 l' \<Longrightarrow> sem_iter_set s it c' l l'"
  by (auto simp: sem_iter_set_def)

lemma sem_iter_set_refl: "s_iter s l it = c \<Longrightarrow> sem_iter_set s it c l l"
  by (auto simp: sem_iter_set_def)

lemma scan_entries_fold:
  assumes "lib_iterates lib s" "s_iter s l it = Some (es, int i)" "i \<le> length es"
    and "\<And>l. P l \<Longrightarrow> P (iter_next lib it l)" "P l"
  shows "\<exists>l'. scan_entries lib it f acc l = Some (fold (\<lambda>(k, v). f k v) (drop i es) acc, l') \<and>
    sem_iter_set s it (Some (es, int (length es))) l l' \<and> P l'"
  using assms(2,3,5)
proof (induction "length es - i" arbitrary: i l acc)
  case 0
  then have "\<not> iter_valid lib it l"
    using lib_iterates_rules(5) [OF assms(1) 0(2)] by (simp add: it_valid_def)
  then show ?case
    using 0 by (subst scan_entries.simps) (simp add: sem_iter_set_refl)
next
  case (Suc n)
  then have v: "it_valid (es, int i)" and d: "drop i es = es ! i # drop (Suc i) es"
    by (auto simp: it_valid_def Cons_nth_drop_Suc)
  define l1 where "l1 = iter_next lib it l"
  have l1: "s_iter s l1 it = Some (es, int (Suc i))" "sem_iter_set s it (Some (es, int (Suc i))) l l1"
    using lib_iterates_rules(4) [OF assms(1) Suc(3) v] by (auto simp: sem_iter_set_def it_move_def l1_def)
  note now = lib_iterates_rules(5) [OF assms(1) Suc(3)] v lib_iterates_rules(6,7) [OF assms(1) Suc(3) v]
  have "scan_entries lib it f acc l = scan_entries lib it f ((\<lambda>(k, v). f k v) (es ! i) acc) l1"
    by (subst scan_entries.simps) (simp add: now l1_def split: prod.split)
  moreover obtain l' where "scan_entries lib it f ((\<lambda>(k, v). f k v) (es ! i) acc) l1 =
      Some (fold (\<lambda>(k, v). f k v) (drop (Suc i) es) ((\<lambda>(k, v). f k v) (es ! i) acc), l')"
    "sem_iter_set s it (Some (es, int (length es))) l1 l'" "P l'"
    using Suc(1) [OF _ l1(1)] Suc(2,4) assms(4) [OF Suc(5)] by (fastforce simp: l1_def)
  ultimately show ?case
    using sem_iter_set_trans [OF l1(2)] by (simp add: d)
qed

lemma scan_prefix_finds:
  assumes "lib_iterates lib s" "s_iter s l it = Some (es, int i)" "i \<le> length es"
    and "\<And>l. P l \<Longrightarrow> P (iter_next lib it l)" "P l"
  shows "\<exists>l' w. scan_prefix lib it pre l = Some (\<exists>e \<in> set (drop i es). take (length pre) (fst e) = pre, l') \<and>
    sem_iter_set s it (Some w) l l' \<and> P l'"
  using assms(2,3,5)
proof (induction "length es - i" arbitrary: i l)
  case 0
  then have "\<not> iter_valid lib it l"
    using lib_iterates_rules(5) [OF assms(1) 0(2)] by (simp add: it_valid_def)
  then show ?case
    using 0 sem_iter_set_refl [OF 0(2)] by (subst scan_prefix.simps) auto
next
  case (Suc n)
  then have v: "it_valid (es, int i)" and d: "drop i es = es ! i # drop (Suc i) es"
    by (auto simp: it_valid_def Cons_nth_drop_Suc)
  define l1 where "l1 = iter_next lib it l"
  have l1: "s_iter s l1 it = Some (es, int (Suc i))" "sem_iter_set s it (Some (es, int (Suc i))) l l1"
    using lib_iterates_rules(4) [OF assms(1) Suc(3) v] by (auto simp: sem_iter_set_def it_move_def l1_def)
  note now = lib_iterates_rules(5) [OF assms(1) Suc(3)] v lib_iterates_rules(6) [OF assms(1) Suc(3) v]
  show ?case
  proof (cases "take (length pre) (fst (es ! i)) = pre")
    case True
    then have "scan_prefix lib it pre l = Some (True, l)"
      by (subst scan_prefix.simps) (simp add: now split: prod.split)
    then show ?thesis
      using True sem_iter_set_refl [OF Suc(3)] Suc(5) by (auto simp: d)
  next
    case False
    then have "scan_prefix lib it pre l = scan_prefix lib it pre l1"
      by (subst scan_prefix.simps) (simp add: now l1_def split: prod.split)
    moreover obtain l' w where "scan_prefix lib it pre l1 = Some (\<exists>e \<in> set (drop (Suc i) es). take (length pre) (fst e) = pre, l')"
      "sem_iter_set s it (Some w) l1 l'" "P l'"
      using Suc(1) [OF _ l1(1)] Suc(2,4) assms(4) [OF Suc(5)] by (fastforce simp: l1_def)
    ultimately show ?thesis
      using sem_iter_set_trans [OF l1(2), of "Some w" l'] False by (intro exI [of _ l'] exI [of _ w]) (simp add: d)
  qed
qed

text \<open>Positioning, then the whole scan.\<close>

lemma seek_position:
  assumes "lib_iterates lib s" "s_iter s l it = Some (es, p)"
  shows "sem_iter_set s it (Some (es, int (length (takeWhile (\<lambda>e. fst e < k) es)))) l (iter_seek lib it k l)"
  using lib_iterates_rules(8) [OF assms(1), of it k l] assms(2) by (simp add: it_seek_def)

lemma drop_takeWhile_length: "drop (length (takeWhile P xs)) xs = dropWhile P xs"
  by (simp add: dropWhile_eq_drop)

lemma takeWhile_length_le: "length (takeWhile P xs) \<le> length xs"
  by (rule length_takeWhile_le)

section \<open>A library in which nothing fails\<close>

definition ok_call :: "('l \<Rightarrow> bool) \<Rightarrow> tdb_rc \<times> 'l \<Rightarrow> bool" where
  "ok_call good r \<longleftrightarrow> fst r = TDB_SUCCESS \<and> good (snd r)"

definition ok_open :: "('l \<Rightarrow> bool) \<Rightarrow> tdb_rc \<times> nat option \<times> 'l \<Rightarrow> bool" where
  "ok_open good r \<longleftrightarrow> fst r = TDB_SUCCESS \<and> fst (snd r) \<noteq> None \<and> good (snd (snd r))"

definition lib_reliable :: "'l tdb_lib \<Rightarrow> 'l lib_ghost \<Rightarrow> ('l \<Rightarrow> bool) \<Rightarrow> bool" where
  "lib_reliable lib g good \<longleftrightarrow>
     (\<forall>l. good l \<longrightarrow>
        ok_open good (txn_begin lib l) \<and> (\<forall>lv. ok_open good (txn_begin_iso lib lv l)) \<and>
        (\<forall>h. good (txn_free lib h l)) \<and> (\<forall>it. good (iter_free lib it l)) \<and>
        (\<forall>it k. good (iter_seek lib it k l)) \<and> (\<forall>it. good (iter_next lib it l)) \<and>
        (\<forall>it. good (iter_seek_to_first lib it l)) \<and> (\<forall>it. good (iter_seek_to_last lib it l)) \<and>
        (\<forall>it k. good (iter_seek_for_prev lib it k l)) \<and> (\<forall>it. good (iter_prev lib it l))) \<and>
     (\<forall>l h. good l \<and> h \<in> g_live g l \<longrightarrow>
        ok_call good (txn_commit lib h l) \<and> ok_call good (txn_rollback lib h l) \<and>
        (\<forall>c k v t. ok_call good (txn_put lib h c k v t l)) \<and>
        (\<forall>c k. ok_call good (txn_delete lib h c k l)) \<and>
        (\<forall>c k. ok_call good (txn_single_delete lib h c k l)) \<and>
        (\<forall>c k. fst (txn_get lib h c k l) \<in> {TDB_SUCCESS, TDB_ERR_NOT_FOUND} \<and> good (snd (snd (txn_get lib h c k l)))) \<and>
        (\<forall>c k. fst (txn_contains lib h c k l) \<in> {TDB_SUCCESS, TDB_ERR_NOT_FOUND} \<and> good (snd (txn_contains lib h c k l))) \<and>
        (\<forall>c a b. ok_call good (txn_delete_range lib h c a b l)) \<and>
        (\<forall>c. ok_open good (iter_new lib h c l)) \<and>
        (\<forall>c a b. ok_open good (iter_new_range lib h c a b l)))"

lemma lib_reliable_rules:
  assumes "lib_reliable lib g good" "good l"
  shows "\<exists>h l'. txn_begin lib l = (TDB_SUCCESS, Some h, l') \<and> good l'"
    and "\<exists>h l'. txn_begin_iso lib lv l = (TDB_SUCCESS, Some h, l') \<and> good l'"
    and "good (txn_free lib h l)" and "good (iter_free lib it l)"
    and "good (iter_seek lib it k l)" and "good (iter_next lib it l)"
    and "h \<in> g_live g l \<Longrightarrow> \<exists>l'. txn_commit lib h l = (TDB_SUCCESS, l') \<and> good l'"
    and "h \<in> g_live g l \<Longrightarrow> \<exists>l'. txn_rollback lib h l = (TDB_SUCCESS, l') \<and> good l'"
    and "h \<in> g_live g l \<Longrightarrow> \<exists>l'. txn_put lib h c k v t l = (TDB_SUCCESS, l') \<and> good l'"
    and "h \<in> g_live g l \<Longrightarrow> \<exists>l'. txn_delete lib h c k l = (TDB_SUCCESS, l') \<and> good l'"
    and "h \<in> g_live g l \<Longrightarrow> \<exists>l'. txn_single_delete lib h c k l = (TDB_SUCCESS, l') \<and> good l'"
    and "h \<in> g_live g l \<Longrightarrow> \<exists>rc v l'. txn_get lib h c k l = (rc, v, l') \<and> rc \<in> {TDB_SUCCESS, TDB_ERR_NOT_FOUND} \<and> good l'"
    and "h \<in> g_live g l \<Longrightarrow> \<exists>l'. txn_delete_range lib h c a b l = (TDB_SUCCESS, l') \<and> good l'"
    and "h \<in> g_live g l \<Longrightarrow> \<exists>i l'. iter_new lib h c l = (TDB_SUCCESS, Some i, l') \<and> good l'"
    and "h \<in> g_live g l \<Longrightarrow> \<exists>i l'. iter_new_range lib h c a b l = (TDB_SUCCESS, Some i, l') \<and> good l'"
    and "h \<in> g_live g l \<Longrightarrow> \<exists>rc l'. txn_contains lib h c k l = (rc, l') \<and> rc \<in> {TDB_SUCCESS, TDB_ERR_NOT_FOUND} \<and> good l'"
    and "good (iter_seek_to_first lib it l)" and "good (iter_seek_to_last lib it l)"
    and "good (iter_seek_for_prev lib it k l)" and "good (iter_prev lib it l)"
proof -
  note d = assms [unfolded lib_reliable_def ok_call_def ok_open_def]
  show "\<exists>h l'. txn_begin lib l = (TDB_SUCCESS, Some h, l') \<and> good l'"
    using d by (metis prod.collapse option.exhaust)
  show "\<exists>h l'. txn_begin_iso lib lv l = (TDB_SUCCESS, Some h, l') \<and> good l'"
    using d by (metis prod.collapse option.exhaust)
  show "h \<in> g_live g l \<Longrightarrow> \<exists>i l'. iter_new lib h c l = (TDB_SUCCESS, Some i, l') \<and> good l'"
    using d by (metis prod.collapse option.exhaust)
  show "h \<in> g_live g l \<Longrightarrow> \<exists>i l'. iter_new_range lib h c a b l = (TDB_SUCCESS, Some i, l') \<and> good l'"
    using d by (metis prod.collapse option.exhaust)
  show "h \<in> g_live g l \<Longrightarrow> \<exists>rc v l'. txn_get lib h c k l = (rc, v, l') \<and> rc \<in> {TDB_SUCCESS, TDB_ERR_NOT_FOUND} \<and> good l'"
    using d by (metis prod.collapse)
qed (use assms in \<open>unfold lib_reliable_def ok_call_def ok_open_def, (metis prod.collapse | blast)\<close>)+

definition mem_good :: "((string \<times> cf) list \<Rightarrow> bool) \<Rightarrow> mem \<Rightarrow> bool" where
  "mem_good q m \<longleftrightarrow> m_faults m = [] \<and> q (m_cfs m)"

lemma mem_lib_reliable: "lib_reliable (mem_lib R) mem_ghost (mem_good q)"
  unfolding lib_reliable_def
  by (auto simp: mem_lib_def mem_ghost_def mem_good_def ok_call_def ok_open_def mem_op_defs m_on_def m_faulty_def m_begin_def
      m_free_def m_finish_def m_drop_def m_write_def m_get_def m_delete_range_def m_iter_open_def m_iter_free_def m_iter_map_def
      m_ids_iff Let_def split: option.splits)

lemma begin_reliable:
  assumes "lib_stores lib s" "lib_owns lib g D" "lib_reliable lib g good" "good l"
  obtains h l1 where "txn_begin lib l = (TDB_SUCCESS, Some h, l1)" "good l1" "h \<in> g_live g l1" "sem_fresh s h l l1"
proof -
  obtain h l1 where b: "txn_begin lib l = (TDB_SUCCESS, Some h, l1)" "good l1"
    using lib_reliable_rules(1) [OF assms(3,4)] by blast
  moreover have "h \<in> g_live g l1"
    using lib_owns_begin(1) [OF assms(2) b(1)] by (auto simp: own_begin_def)
  moreover have "sem_fresh s h l l1"
    using lib_stores_txn(1) [OF assms(1) b(1)] .
  ultimately show ?thesis
    by (rule that)
qed

section \<open>One open transaction\<close>

text \<open>A transaction whose view is its writes over the committed store.\<close>

definition consistent :: "'l lib_sem \<Rightarrow> txn \<Rightarrow> 'l \<Rightarrow> bool" where
  "consistent s h l \<longleftrightarrow> fst (s_txn s l h) = apply_writes (snd (s_txn s l h)) (s_db s l)"

definition upd :: "cf \<Rightarrow> bytes \<Rightarrow> bytes option \<Rightarrow> store \<Rightarrow> store" where
  "upd c k v d = d((c, k) := v)"

text \<open>One open transaction of a library that does not fail.\<close>

definition running :: "'l lib_ghost \<Rightarrow> ('l \<Rightarrow> bool) \<Rightarrow> 'l lib_sem \<Rightarrow> txn \<Rightarrow> 'l \<Rightarrow> bool" where
  "running g good s h l \<longleftrightarrow> good l \<and> h \<in> g_live g l \<and> consistent s h l"

lemma apply_writes_upd: "apply_writes (w(p \<mapsto> v)) d = (apply_writes w d)(p := v)"
  by (auto simp: apply_writes_def)

lemma write_running:
  assumes "lib_stores lib s" "lib_owns lib g D" "lib_reliable lib g good" "running g good s h l"
  shows "running g good s h (snd (txn_delete lib h c k l)) \<and> s_db s (snd (txn_delete lib h c k l)) = s_db s l \<and>
      fst (s_txn s (snd (txn_delete lib h c k l)) h) = upd c k None (fst (s_txn s l h))"
    and "running g good s h (snd (txn_put lib h c k v t l)) \<and> s_db s (snd (txn_put lib h c k v t l)) = s_db s l \<and>
      fst (s_txn s (snd (txn_put lib h c k v t l)) h) = upd c k (Some v) (fst (s_txn s l h))"
proof -
  have r: "good l" "h \<in> g_live g l" "consistent s h l"
    using assms(4) by (simp_all add: running_def)
  have w: "running g good s h l' \<and> s_db s l' = s_db s l \<and> fst (s_txn s l' h) = upd c k x (fst (s_txn s l h))"
    if "good l'" "own_txn g h l l'" "sem_write s h (c, k) x TDB_SUCCESS l l'" for l' x
    using that r
    by (simp add: running_def own_txn_def same_handles_def sem_write_def sem_content_def consistent_def c_write_def
        apply_writes_upd upd_def)
  obtain l1 where d: "txn_delete lib h c k l = (TDB_SUCCESS, l1)" "good l1"
    using lib_reliable_rules(10) [OF assms(3) r(1,2)] by blast
  show "running g good s h (snd (txn_delete lib h c k l)) \<and> s_db s (snd (txn_delete lib h c k l)) = s_db s l \<and>
      fst (s_txn s (snd (txn_delete lib h c k l)) h) = upd c k None (fst (s_txn s l h))"
    using w [OF d(2) _ lib_stores_txn(16) [OF assms(1) d(1)]] lib_owns_txn [OF assms(2)] d(1) by (metis snd_conv)
  obtain l1 where p: "txn_put lib h c k v t l = (TDB_SUCCESS, l1)" "good l1"
    using lib_reliable_rules(9) [OF assms(3) r(1,2)] by blast
  show "running g good s h (snd (txn_put lib h c k v t l)) \<and> s_db s (snd (txn_put lib h c k v t l)) = s_db s l \<and>
      fst (s_txn s (snd (txn_put lib h c k v t l)) h) = upd c k (Some v) (fst (s_txn s l h))"
    using w [OF p(2) _ lib_stores_txn(15) [OF assms(1) p(1)]] lib_owns_txn [OF assms(2)] p(1) by (metis snd_conv)
qed

lemma commit_running:
  assumes "lib_stores lib s" "lib_owns lib g D" "lib_reliable lib g good" "running g good s h l"
  shows "\<exists>l'. txn_commit lib h l = (TDB_SUCCESS, l') \<and> good l' \<and> s_db s l' = fst (s_txn s l h)"
proof -
  obtain l' where "txn_commit lib h l = (TDB_SUCCESS, l')" "good l'"
    using lib_reliable_rules(7) [OF assms(3), of l h] assms(4) by (auto simp: running_def)
  then show ?thesis
    using lib_stores_txn(9) [OF assms(1), of h l TDB_SUCCESS l'] assms(4)
    by (auto simp: sem_commit_def running_def consistent_def)
qed

end
