(* ===== verification/Txn_Recover.thy ===== *)
theory Txn_Recover
  imports Txn_Stmt Tdb_Scan
begin

text \<open>
  Recovery of two-phase commits after a restart: the batches in which in-doubt transactions are
  handed to the server (\<^verbatim>\<open>tidesdb_recover\<close>) and the marker family of the transaction coordinator
  (\<^verbatim>\<open>tdb_xa_tc_mark\<close>, \<^verbatim>\<open>tidesdb_recover_prepared_in_tc\<close>), both in
  \<^verbatim>\<open>handler/ha_tidesdb_txn.cc\<close>. The operations are in theory Txn; this theory holds what they guarantee.
\<close>

section \<open>Enumerating in-doubt transactions\<close>

definition report :: "(bytes \<rightharpoonup> table_names) \<Rightarrow> bytes list \<Rightarrow> (xid \<times> table_names) list" where
  "report tabs ks =
     concat (map (\<lambda>k. case tdb_xid_from_key (Some k) True of
        None \<Rightarrow> [] | Some x \<Rightarrow> [(x, case tabs k of None \<Rightarrow> [] | Some t \<Rightarrow> t)]) ks)"

lemma report_simps:
  "report tabs [] = []"
  "tdb_xid_from_key (Some k) True = None \<Longrightarrow> report tabs (k # ks) = report tabs ks"
  "tdb_xid_from_key (Some k) True = Some x \<Longrightarrow>
     report tabs (k # ks) = (x, case tabs k of None \<Rightarrow> [] | Some t \<Rightarrow> t) # report tabs ks"
  by (simp_all add: report_def)

definition batch_ok :: "(bytes \<rightharpoonup> table_names) \<Rightarrow> bytes list \<Rightarrow> nat \<Rightarrow> (xid \<times> table_names) list \<Rightarrow> nat \<Rightarrow> bool" where
  "batch_ok tabs ks room out n \<longleftrightarrow>
     n \<le> length ks \<and> out = report tabs (take n ks) \<and> length out \<le> room \<and>
     (length out < room \<longrightarrow> n = length ks) \<and> (0 < room \<and> ks \<noteq> [] \<longrightarrow> 0 < n)"

lemma recover_batch_spec: "recover_batch tabs ks room = (out, n) \<Longrightarrow> batch_ok tabs ks room out n"
proof (induction ks arbitrary: room out n)
  case Nil
  then show ?case
    by (simp add: batch_ok_def report_simps)
next
  case (Cons k ks)
  show ?case
  proof (cases room)
    case 0
    then show ?thesis
      using Cons.prems by (simp add: batch_ok_def report_simps)
  next
    case (Suc r)
    show ?thesis
    proof (cases "tdb_xid_from_key (Some k) True")
      case None
      obtain out' n' where rb: "recover_batch tabs ks (Suc r) = (out', n')"
        by (meson surj_pair)
      have eq: "out = out'" "n = Suc n'"
        using rb Cons.prems Suc None by simp_all
      have ok: "n' \<le> length ks" "out' = report tabs (take n' ks)" "length out' \<le> Suc r"
        and short: "length out' < Suc r \<longrightarrow> n' = length ks"
        using Cons.IH [OF rb] unfolding batch_ok_def by blast+
      have "n \<le> length (k # ks) \<and> out = report tabs (take n (k # ks)) \<and> length out \<le> room \<and> 0 < n"
        using ok Suc by (simp add: eq report_simps(2) [OF None])
      moreover have "length out < room \<longrightarrow> n = length (k # ks)"
        using short unfolding eq Suc by simp
      ultimately show ?thesis
        unfolding batch_ok_def by blast
    next
      case (Some x)
      obtain out' n' where rb: "recover_batch tabs ks r = (out', n')"
        by (meson surj_pair)
      have eq: "out = (x, case tabs k of None \<Rightarrow> [] | Some t \<Rightarrow> t) # out'" "n = Suc n'"
        using rb Cons.prems Suc Some by simp_all
      have ok: "n' \<le> length ks" "out' = report tabs (take n' ks)" "length out' \<le> r"
        and short: "length out' < r \<longrightarrow> n' = length ks"
        using Cons.IH [OF rb] unfolding batch_ok_def by blast+
      have "n \<le> length (k # ks) \<and> out = report tabs (take n (k # ks)) \<and> length out \<le> room \<and> 0 < n"
        using ok Suc by (simp add: eq report_simps(3) [OF Some])
      moreover have "length out < room \<longrightarrow> n = length (k # ks)"
        using short unfolding eq Suc by simp
      ultimately show ?thesis
        unfolding batch_ok_def by blast
    qed
  qed
qed

text \<open>Several calls of the recovery callback in a row, and all they filled in.\<close>

fun recover_calls :: "'l tdb_lib \<Rightarrow> nat \<Rightarrow> nat \<Rightarrow> 'l engine \<Rightarrow> (xid \<times> table_names) list \<times> 'l engine" where
  "recover_calls lib len 0 e = ([], e)"
| "recover_calls lib len (Suc n) e =
     (case tidesdb_recover lib len e of
        (out, e1) \<Rightarrow> (case recover_calls lib len n e1 of (out2, e2) \<Rightarrow> (out @ out2, e2)))"

lemma recover_loaded:
  assumes "e_rec_loaded e" "0 < len" "tidesdb_recover lib len e = (out, e')"
  obtains n where "e' = e\<lparr>e_rec_pos := e_rec_pos e + n\<rparr>" "n \<le> length (e_rec_xids e) - e_rec_pos e"
    "out = report (e_rec_tables e) (take n (drop (e_rec_pos e) (e_rec_xids e)))"
    "e_rec_pos e < length (e_rec_xids e) \<Longrightarrow> 0 < n"
proof -
  obtain o' n where b: "recover_batch (e_rec_tables e) (drop (e_rec_pos e) (e_rec_xids e)) len = (o', n)"
    by (meson surj_pair)
  have "out = o'" "e' = e\<lparr>e_rec_pos := e_rec_pos e + n\<rparr>"
    using assms by (simp_all add: b tidesdb_recover_def tdb_load_recovered_prepared_def)
  moreover have "n \<le> length (e_rec_xids e) - e_rec_pos e"
    "o' = report (e_rec_tables e) (take n (drop (e_rec_pos e) (e_rec_xids e)))"
    "0 < len \<and> drop (e_rec_pos e) (e_rec_xids e) \<noteq> [] \<longrightarrow> 0 < n"
    using recover_batch_spec [OF b] unfolding batch_ok_def length_drop by blast+
  ultimately show ?thesis
    using assms(2) by (intro that [of n]) simp_all
qed

lemma report_append: "report tabs (a @ b) = report tabs a @ report tabs b"
  by (simp add: report_def)

lemma recover_calls_loaded:
  assumes "e_rec_loaded e" "0 < len" "e_rec_pos e \<le> length (e_rec_xids e)"
    "length (e_rec_xids e) - e_rec_pos e \<le> n" "recover_calls lib len n e = (out, e')"
  shows "out = report (e_rec_tables e) (drop (e_rec_pos e) (e_rec_xids e)) \<and>
     e' = e\<lparr>e_rec_pos := length (e_rec_xids e)\<rparr>"
  using assms
proof (induction n arbitrary: e out)
  case 0
  then show ?case
    by (simp add: report_def)
next
  case (Suc n)
  obtain o1 e1 o2 where r: "tidesdb_recover lib len e = (o1, e1)" "recover_calls lib len n e1 = (o2, e')" "out = o1 @ o2"
    using Suc.prems(5) by (auto split: prod.splits)
  obtain m where m: "e1 = e\<lparr>e_rec_pos := e_rec_pos e + m\<rparr>" "m \<le> length (e_rec_xids e) - e_rec_pos e"
    "o1 = report (e_rec_tables e) (take m (drop (e_rec_pos e) (e_rec_xids e)))"
    "e_rec_pos e < length (e_rec_xids e) \<Longrightarrow> 0 < m"
    using recover_loaded [OF Suc.prems(1,2) r(1)] by metis
  have "o2 = report (e_rec_tables e) (drop (e_rec_pos e + m) (e_rec_xids e)) \<and> e' = e1\<lparr>e_rec_pos := length (e_rec_xids e)\<rparr>"
    using Suc.IH [OF _ Suc.prems(2) _ _ r(2)] m Suc.prems by (cases "e_rec_pos e < length (e_rec_xids e)") auto
  then show ?case
    using r(3) m(1,3) report_append [of "e_rec_tables e" "take m (drop (e_rec_pos e) (e_rec_xids e))"
        "drop (e_rec_pos e + m) (e_rec_xids e)"]
    by (simp add: add.commute append_take_drop_id [of m "drop (e_rec_pos e) (e_rec_xids e)", unfolded drop_drop])
qed

lemma report_keys:
  assumes "\<forall>x\<in>set xs. xid_wf x"
  shows "list_all2 xid_same xs (map fst (report tabs (map tdb_xid_key xs)))"
  using assms
proof (induction xs)
  case (Cons x xs)
  obtain y where "tdb_xid_from_key (Some (tdb_xid_key x)) True = Some y" "xid_same x y"
    using Cons.prems by (metis xid_from_key_key list.set_intros(1))
  then show ?case
    using Cons by (simp add: report_def)
qed (simp add: report_def)

section \<open>Markers of the transaction coordinator\<close>

text \<open>The scan of the marker family as a fold over the entries it passes.\<close>

definition tc_entry :: "bytes \<times> bytes \<Rightarrow> xid list \<times> (bytes \<rightharpoonup> table_names) \<Rightarrow> xid list \<times> (bytes \<rightharpoonup> table_names)" where
  "tc_entry e r =
     (case tdb_xid_from_key (Some (fst e)) True of
        None \<Rightarrow> r
      | Some x \<Rightarrow> (fst r @ [x], (snd r)(fst e \<mapsto> snd (tdb_xa_tc_decode (Some (snd e))))))"

lemma tc_scan_fold:
  assumes "lib_iterates lib s" "s_iter s l it = Some (es, int i)" "i \<le> length es"
  shows "\<exists>l'. s_db s l' = s_db s l \<and>
     tc_scan lib it l xs tabs = Some (l', fold tc_entry (drop i es) (xs, tabs))"
  using assms(2,3)
proof (induction "length es - i" arbitrary: i l xs tabs)
  case 0
  then have "\<not> iter_valid lib it l"
    using lib_iterates_rules(5) [OF assms(1) 0(2)] by (simp add: it_valid_def)
  then show ?case
    using 0 by (subst tc_scan.simps) simp
next
  case (Suc n)
  then have v: "it_valid (es, int i)" and d: "drop i es = es ! i # drop (Suc i) es"
    by (auto simp: it_valid_def Cons_nth_drop_Suc)
  define l1 where "l1 = iter_next lib it l"
  have l1: "s_iter s l1 it = Some (es, int (Suc i))" "s_db s l1 = s_db s l"
    using lib_iterates_rules(4) [OF assms(1) Suc(3) v] by (auto simp: sem_iter_set_def it_move_def l1_def)
  note now = lib_iterates_rules(5) [OF assms(1) Suc(3)] v lib_iterates_rules(6,7) [OF assms(1) Suc(3) v]
  obtain r where r: "tc_entry (es ! i) (xs, tabs) = r"
    by blast
  have "tc_scan lib it l xs tabs = tc_scan lib it l1 (fst r) (snd r)"
    by (subst tc_scan.simps)
      (simp add: now l1_def r [symmetric] tc_entry_def split: option.split)
  moreover obtain l' where "s_db s l' = s_db s l1" "tc_scan lib it l1 (fst r) (snd r) = Some (l', fold tc_entry (drop (Suc i) es) (fst r, snd r))"
    using Suc(1) [OF _ l1(1)] Suc(2,4) by fastforce
  ultimately show ?case
    using l1(2) by (auto simp: d r)
qed

lemma fold_tc_entry_keeps:
  "x \<in> set (fst r) \<Longrightarrow> x \<in> set (fst (fold tc_entry es r))"
  "k \<notin> fst ` set es \<Longrightarrow> snd (fold tc_entry es r) k = snd r k"
  by (induction es arbitrary: r) (auto simp: tc_entry_def split: option.split)

lemma fold_tc_entry_finds:
  assumes "(k, v) \<in> set es" "distinct (map fst es)" "tdb_xid_from_key (Some k) True = Some x"
  shows "x \<in> set (fst (fold tc_entry es r)) \<and> snd (fold tc_entry es r) k = Some (snd (tdb_xa_tc_decode (Some v)))"
  using assms
proof (induction es arbitrary: r)
  case (Cons e es)
  show ?case
  proof (cases "e = (k, v)")
    case True
    then have "tc_entry e r = (fst r @ [x], (snd r)(k \<mapsto> snd (tdb_xa_tc_decode (Some v))))"
      using Cons.prems(3) by (simp add: tc_entry_def)
    then show ?thesis
      using True Cons.prems fold_tc_entry_keeps(1) [of x "tc_entry e r" es]
        fold_tc_entry_keeps(2) [of k es "tc_entry e r"] by auto
  next
    case False
    then show ?thesis
      using Cons by auto
  qed
qed simp

lemma es_sorted_distinct: "es_sorted es \<Longrightarrow> distinct (map fst es)"
  by (simp add: es_sorted_def strict_sorted_iff)

text \<open>Every committed entry of the family is reported.\<close>

lemma tc_recovery_complete:
  assumes "lib_stores lib s" "lib_iterates lib s"
    and "get_column_family lib TDB_XA_TC_CF_NAME (e_lib e) = Some c"
    and "txn_begin lib (e_lib e) = (TDB_SUCCESS, Some h, l1)" "iter_new lib h c l1 = (TDB_SUCCESS, Some it, l2)"
    and "s_db s (e_lib e) (c, k) = Some v" "tdb_xid_from_key (Some k) True = Some x"
  shows "\<exists>ys e'. tidesdb_recover_prepared_in_tc lib e = Some (ys, e') \<and> x \<in> set ys \<and>
     e_rec_tables e' k = Some (snd (tdb_xa_tc_decode (Some v))) \<and> s_db s (e_lib e') = s_db s (e_lib e)"
proof -
  have l1: "s_txn s l1 h = (s_db s (e_lib e), Map.empty)" "s_db s l1 = s_db s (e_lib e)"
    using lib_stores_txn(1) [OF assms(1,4)] by (auto simp: sem_fresh_def sem_frame_def)
  obtain es where es: "es_sorted es" "map_of es k = Some v" "s_iter s l2 it = Some (es, -1)" "s_db s l2 = s_db s l1"
    using lib_iterates_rules(1) [OF assms(2,5)] assms(6)
    by (auto simp: sem_opened_def sem_iter_set_def l1 dest: fun_cong [of _ _ k])
  define l3 where "l3 = iter_seek_to_first lib it l2"
  have l3: "s_iter s l3 it = Some (es, int 0)" "s_db s l3 = s_db s l2"
    using lib_iterates_rules(3) [OF assms(2), of it l2] by (auto simp: sem_iter_set_def es(3) it_first_def l3_def)
  obtain l4 where l4: "s_db s l4 = s_db s l3" "tc_scan lib it l3 [] (e_rec_tables e) = Some (l4, fold tc_entry es ([], e_rec_tables e))"
    using tc_scan_fold [OF assms(2) l3(1)] by fastforce
  obtain rrc l5 where rb: "txn_rollback lib h (iter_free lib it l4) = (rrc, l5)"
    by (meson surj_pair)
  have "s_db s (txn_free lib h (snd (txn_rollback lib h (iter_free lib it l4)))) = s_db s l4"
    using lib_stores_txn(6) [OF assms(1), of h l5] lib_stores_txn(7) [OF assms(1) rb] lib_iterates_rules(2) [OF assms(2), of it l4]
    by (simp add: sem_frame_def sem_iter_set_def rb)
  then show ?thesis
    using fold_tc_entry_finds [OF map_of_SomeD [OF es(2)] es_sorted_distinct [OF es(1)] assms(7), of "([], e_rec_tables e)"]
      l1 l3 l4 es(4)
    by (simp add: tidesdb_recover_prepared_in_tc_def tdb_xa_tc_cf_def assms(3-5) set_lib_def l3_def [symmetric]
        split_beta)
qed

lemma mark_stores:
  assumes "lib_stores lib s" "get_column_family lib TDB_XA_TC_CF_NAME l = Some c"
    and "tdb_xa_tc_mark lib key tables l = (True, l')"
  shows "s_db s l' = (s_db s l)((c, key) \<mapsto> tdb_xa_tc_encode tables)"
proof -
  obtain rc out l1 where b: "txn_begin lib l = (rc, out, l1)"
    by (metis prod.exhaust)
  then obtain h where out: "out = Some h" "rc = TDB_SUCCESS"
    using assms(2,3) by (auto simp: tdb_xa_tc_mark_def tdb_xa_tc_cf_def split: option.splits if_splits)
  obtain prc l2 where p: "txn_put lib h c key (tdb_xa_tc_encode tables) TIDESDB_TTL_NONE l1 = (prc, l2)"
    by (meson surj_pair)
  obtain crc l3 where m: "txn_commit lib h l2 = (crc, l3)"
    by (meson surj_pair)
  have ok: "prc = TDB_SUCCESS" "crc = TDB_SUCCESS" "l' = txn_free lib h l3"
    using assms(2,3) by (auto simp: tdb_xa_tc_mark_def tdb_xa_tc_cf_def b out p m split: if_splits)
  have 1: "s_txn s l1 h = (s_db s l, Map.empty)" "s_db s l1 = s_db s l"
    using lib_stores_txn(1) [OF assms(1) b [unfolded out]] by (auto simp: sem_fresh_def sem_frame_def)
  have 2: "s_txn s l2 h = c_write (c, key) (Some (tdb_xa_tc_encode tables)) (s_txn s l1 h)" "s_db s l2 = s_db s l1"
    using lib_stores_txn(15) [OF assms(1) p] by (auto simp: sem_write_def sem_content_def ok)
  have 3: "s_db s l3 = apply_writes (snd (s_txn s l2 h)) (s_db s l2)"
    using lib_stores_txn(9) [OF assms(1) m] by (simp add: sem_commit_def ok)
  have 4: "s_db s l' = s_db s l3"
    using lib_stores_txn(6) [OF assms(1)] by (simp add: sem_frame_def ok)
  show ?thesis
    by (rule ext) (simp add: 4 3 2 1 c_write_def apply_writes_def)
qed

section \<open>Properties\<close>

text \<open>C6: Recovery reports every in-doubt transaction, once. Whatever batch size the server uses, calling the
  recovery callback as many times as there are transactions hands out exactly the XIDs under which the
  library found them, in order, each equal to the one the user named; the next call reports none, and every
  reported transaction can be resolved by XID.\<close>

theorem recovery_reports_each_once:
  assumes "recover_count lib l = (TDB_SUCCESS, int (length buf), l1)"
    and "recover_prepared lib (int (length buf)) l1 = (TDB_SUCCESS, buf, l2)"
    and "buf \<noteq> []" and "map fst buf = map tdb_xid_key xs" and "\<forall>x\<in>set xs. xid_wf x" and "distinct (map fst buf)"
    and "0 < len" and "length xs \<le> n"
    and "recover_calls lib len n (engine_start l) = (out, e')"
  shows "list_all2 xid_same xs (map fst out) \<and> fst (tidesdb_recover lib len e') = [] \<and>
    (\<forall>(k, h) \<in> set buf. e_prepared e' k = Some h)"
proof -
  define e1 where "e1 = (set_lib l2 ((engine_start l)\<lparr>e_rec_loaded := True\<rparr>))\<lparr>
      e_prepared := foldl register_txn Map.empty buf, e_rec_xids := map fst buf\<rparr>"
  have load: "tdb_load_recovered_prepared lib (engine_start l) = e1"
    using assms(1-3) by (simp add: tdb_load_recovered_prepared_def engine_start_def e1_def set_lib_def)
  have idem: "tdb_load_recovered_prepared lib e1 = e1"
    by (simp add: tdb_load_recovered_prepared_def e1_def set_lib_def)
  have same: "tidesdb_recover lib len (engine_start l) = tidesdb_recover lib len e1"
    using assms(7) load idem by (simp add: tidesdb_recover_def)
  obtain m where n: "n = Suc m"
    using assms(3,4,8) by (cases n) auto
  have calls: "recover_calls lib len n e1 = (out, e')"
    using assms(9) by (simp add: n same)
  have "length (e_rec_xids e1) = length xs"
    using arg_cong [OF assms(4), of length] by (simp add: e1_def)
  then have out: "out = report (e_rec_tables e1) (map tdb_xid_key xs)" "e' = e1\<lparr>e_rec_pos := length (e_rec_xids e1)\<rparr>"
    using recover_calls_loaded [OF _ assms(7) _ _ calls] assms(4,8)
    by (simp_all add: e1_def engine_start_def set_lib_def)
  have last: "fst (tidesdb_recover lib len e') = []"
    by (simp add: out(2) e1_def tidesdb_recover_def tdb_load_recovered_prepared_def)
  have "foldl register_txn m buf k = Some h" if "(k, h) \<in> set buf" "distinct (map fst buf)" for k h m
    using that
  proof (induction buf rule: rev_induct)
    case (snoc r rs)
    then show ?case
      by (cases r) (auto simp: register_txn_def rev_image_eqI)
  qed simp
  then have "\<forall>(k, h) \<in> set buf. e_prepared e' k = Some h"
    using assms(6) by (auto simp: out(2) e1_def)
  then show ?thesis
    using report_keys [OF assms(5)] out(1) last by blast
qed

definition demo_xids :: "xid list" where
  "demo_xids = [\<lparr>x_format = 1, x_gtrid_len = 2, x_bqual_len = 0, x_data = [7, 8]\<rparr>,
                \<lparr>x_format = 1, x_gtrid_len = 1, x_bqual_len = 1, x_data = [9, 9]\<rparr>]"

definition demo_recovered :: "(bytes \<times> txn) list" where
  "demo_recovered = zip (map tdb_xid_key demo_xids) [200, 201]"

theorem recovery_reports_each_once_witness:
  "length (fst (recover_calls (mem_lib demo_recovered) 1 2 (engine_start mem_init))) = 2 \<and>
   list_all2 xid_same demo_xids (map fst (fst (recover_calls (mem_lib demo_recovered) 1 2 (engine_start mem_init))))"
proof -
  obtain out e' where r: "recover_calls (mem_lib demo_recovered) 1 2 (engine_start mem_init) = (out, e')"
    by (meson surj_pair)
  have d: "length demo_recovered = 2" "map fst demo_recovered = map tdb_xid_key demo_xids" "distinct (map fst demo_recovered)"
    by code_simp+
  have wf: "\<forall>x \<in> set demo_xids. xid_wf x"
    by (simp add: demo_xids_def xid_wf_def XIDDATASIZE_def)
  have lib: "recover_count (mem_lib demo_recovered) mem_init = (TDB_SUCCESS, int (length demo_recovered), mem_init)"
    "recover_prepared (mem_lib demo_recovered) (int (length demo_recovered)) mem_init = (TDB_SUCCESS, demo_recovered, mem_init)"
    "demo_recovered \<noteq> []" "0 < (1 :: nat)" "length demo_xids \<le> 2"
    using d(1) by (auto simp: mem_lib_def demo_xids_def)
  have "list_all2 xid_same demo_xids (map fst out)"
    using recovery_reports_each_once [OF lib(1-3) d(2) wf d(3) lib(4,5) r] by blast
  then show ?thesis
    using list_all2_lengthD [of xid_same demo_xids "map fst out"] unfolding r by (simp add: demo_xids_def)
qed

text \<open>C7: A prepared transaction's marker survives a restart. Once the coordinator's mark reported success, a
  server started later on the same store reports the transaction as prepared in the coordinator, under the XID
  the user gave, with exactly the modified tables that were recorded; the scan ends, and it changes nothing.\<close>

theorem marker_survives_restart:
  assumes "lib_stores lib s" and "lib_iterates lib s"
    and "get_column_family lib TDB_XA_TC_CF_NAME l0 = Some c"
    and "tdb_xa_tc_mark lib (tdb_xid_key x) tables l0 = (True, l1)"
    and "xid_wf x" and "names_ok tables" and "length tables < 2 ^ 32"
    and "s_db s (e_lib e) = s_db s l1" and "get_column_family lib TDB_XA_TC_CF_NAME (e_lib e) = Some c"
    and "txn_begin lib (e_lib e) = (TDB_SUCCESS, Some h, l2)" and "iter_new lib h c l2 = (TDB_SUCCESS, Some it, l3)"
  shows "\<exists>ys e' y. tidesdb_recover_prepared_in_tc lib e = Some (ys, e') \<and> y \<in> set ys \<and> xid_same x y \<and>
     e_rec_tables e' (tdb_xid_key x) = Some tables \<and> s_db s (e_lib e') = s_db s (e_lib e)"
proof -
  obtain y where y: "tdb_xid_from_key (Some (tdb_xid_key x)) True = Some y" "xid_same x y"
    using xid_from_key_key [OF assms(5)] by blast
  have "s_db s (e_lib e) (c, tdb_xid_key x) = Some (tdb_xa_tc_encode tables)"
    using mark_stores [OF assms(1,3,4)] assms(8) by simp
  from tc_recovery_complete [OF assms(1,2,9,10,11) this y(1)] show ?thesis
    using y(2) tc_decode_encode [OF assms(6,7), of "[]"] by auto
qed

definition demo_marked :: "bool \<times> mem" where
  "demo_marked = tdb_xa_tc_mark (mem_lib []) (tdb_xid_key \<lparr>x_format = 1, x_gtrid_len = 2, x_bqual_len = 0, x_data = [7, 8]\<rparr>)
     [([100], [116])] (mem_init\<lparr>m_cfs := [(TDB_XA_TC_CF_NAME, 5)]\<rparr>)"

theorem marker_survives_restart_witness:
  "\<exists>ys e' y. tidesdb_recover_prepared_in_tc (mem_lib []) (engine_start (snd demo_marked)) = Some (ys, e') \<and> y \<in> set ys \<and>
     xid_same \<lparr>x_format = 1, x_gtrid_len = 2, x_bqual_len = 0, x_data = [7, 8]\<rparr> y \<and>
     e_rec_tables e' (tdb_xid_key \<lparr>x_format = 1, x_gtrid_len = 2, x_bqual_len = 0, x_data = [7, 8]\<rparr>) = Some [([100], [116])]"
proof -
  have m: "tdb_xa_tc_mark (mem_lib []) (tdb_xid_key \<lparr>x_format = 1, x_gtrid_len = 2, x_bqual_len = 0, x_data = [7, 8]\<rparr>)
     [([100], [116])] (mem_init\<lparr>m_cfs := [(TDB_XA_TC_CF_NAME, 5)]\<rparr>) = (True, snd demo_marked)"
  proof -
    have "fst demo_marked = True"
      by code_simp
    then show ?thesis
      by (metis demo_marked_def prod.collapse)
  qed
  have cf: "get_column_family (mem_lib []) TDB_XA_TC_CF_NAME (mem_init\<lparr>m_cfs := [(TDB_XA_TC_CF_NAME, 5)]\<rparr>) = Some 5"
    by (simp add: mem_lib_def)
  have "get_column_family (mem_lib []) TDB_XA_TC_CF_NAME (e_lib (engine_start (snd demo_marked))) = Some 5"
    by code_simp
  moreover obtain rc out l2 where b: "txn_begin (mem_lib []) (e_lib (engine_start (snd demo_marked))) = (rc, out, l2)"
    by (metis prod.exhaust)
  moreover have "fst (txn_begin (mem_lib []) (e_lib (engine_start (snd demo_marked)))) = TDB_SUCCESS"
    "fst (snd (txn_begin (mem_lib []) (e_lib (engine_start (snd demo_marked))))) = Some 100"
    by code_simp+
  moreover obtain irc io l3 where i: "iter_new (mem_lib []) 100 5 l2 = (irc, io, l3)"
    by (metis prod.exhaust)
  moreover have "fst (iter_new (mem_lib []) 100 5 (snd (snd (txn_begin (mem_lib []) (e_lib (engine_start (snd demo_marked))))))) = TDB_SUCCESS"
    "fst (snd (iter_new (mem_lib []) 100 5 (snd (snd (txn_begin (mem_lib []) (e_lib (engine_start (snd demo_marked)))))))) = Some 0"
    by code_simp+
  ultimately show ?thesis
    using marker_survives_restart [OF mem_lib_stores mem_lib_iterates cf m, of "engine_start (snd demo_marked)" 100 l2 0 l3]
    by (auto simp: xid_wf_def XIDDATASIZE_def names_ok_def TDB_XA_TC_MAX_NAME_def engine_start_def)
qed

end
