(* ===== verification/Key_Codec.thy ===== *)
theory Key_Codec
  imports Row_Format Sort_Key
begin

text \<open>
  The key codec of the handler, \<^verbatim>\<open>src/tidesdb/src/handler/ha_tidesdb_keycodec.{h,cc}\<close>: memory-comparable
  keys built from a row, and the decoders that rebuild columns from them for a covering read.

  A record buffer is a function from field numbers (from 0) to the null bit and the bytes of the field. The
  server's \<open>Field::make_sort_key\<close> is a parameter \<open>sort_string\<close>; what is asked of it is that it fills the
  length it is given, and, for a covering read, that it is inverted on the columns that are read back. The
  bytes an output buffer held before are the parameter \<open>stale\<close>, because one path leaves a byte unwritten.
\<close>

section \<open>Fields, keys and rows\<close>

datatype field_type =
    MYSQL_TYPE_TINY | MYSQL_TYPE_SHORT | MYSQL_TYPE_INT24 | MYSQL_TYPE_LONG | MYSQL_TYPE_LONGLONG
  | MYSQL_TYPE_FLOAT | MYSQL_TYPE_DOUBLE | MYSQL_TYPE_NEWDECIMAL | MYSQL_TYPE_TIME | MYSQL_TYPE_TIME2
  | MYSQL_TYPE_YEAR | MYSQL_TYPE_DATE | MYSQL_TYPE_NEWDATE | MYSQL_TYPE_DATETIME | MYSQL_TYPE_DATETIME2
  | MYSQL_TYPE_TIMESTAMP | MYSQL_TYPE_TIMESTAMP2 | MYSQL_TYPE_STRING | MYSQL_TYPE_VARCHAR | MYSQL_TYPE_OTHER nat

datatype charset = my_charset_bin | my_charset_latin1 | charset_other nat

record field =
  real_type :: field_type
  field_charset :: charset
  is_unsigned :: bool
  decimals :: nat
  is_nullable :: bool
  pack_length :: nat
  length_bytes :: nat

record key_part =
  kp_field :: field
  kp_fieldnr :: nat
  kp_length :: nat
  kp_reverse :: bool

datatype key_alg = HA_KEY_ALG_BTREE | HA_KEY_ALG_FULLTEXT | HA_KEY_ALG_RTREE

record key_info =
  key_parts :: "key_part list"
  key_nosame :: bool
  key_fulltext :: bool
  key_spatial :: bool
  key_alg :: key_alg

text \<open>The null bit and the bytes of each field.\<close>

type_synonym row = "nat \<Rightarrow> bool \<times> bytes"
type_synonym sort_string = "field \<Rightarrow> bytes \<Rightarrow> nat \<Rightarrow> bytes"

definition SORT_KEY_NULL :: u8 where "SORT_KEY_NULL = 0"
definition SORT_KEY_NOT_NULL :: u8 where "SORT_KEY_NOT_NULL = 1"
definition SPATIAL_HILBERT_KEY_LEN :: nat where "SPATIAL_HILBERT_KEY_LEN = 8"

definition field_of :: "key_part \<Rightarrow> row \<Rightarrow> bool \<times> bytes" where
  "field_of kp r = r (kp_fieldnr kp - 1)"

definition is_spatial_index :: "key_info \<Rightarrow> bool" where
  "is_spatial_index ki \<longleftrightarrow> key_spatial ki \<or> key_alg ki = HA_KEY_ALG_RTREE"

definition is_fts_index :: "key_info \<Rightarrow> bool" where
  "is_fts_index ki \<longleftrightarrow> key_fulltext ki \<or> key_alg ki = HA_KEY_ALG_FULLTEXT"

section \<open>Building keys\<close>

definition invert_key_part :: "bytes \<Rightarrow> bytes" where
  "invert_key_part p = map (\<lambda>b. NOT b) p"

text \<open>A binary variable-length value: data, zero padding and the length, or the bytes that do not fit in the
  place of the length. The space is computed in 32 bits.\<close>

definition varbinary_part :: "(nat \<Rightarrow> u8) \<Rightarrow> nat \<Rightarrow> nat \<Rightarrow> nat \<Rightarrow> bytes \<Rightarrow> bytes" where
  "varbinary_part stale pos len_bytes klen data =
     (let data_len = length data;
          data_space = (klen + 2 ^ 32 - len_bytes) mod 2 ^ 32;
          copy_len = min data_len data_space
      in take copy_len data @ replicate (data_space - copy_len) 0 @
         (if data_len > data_space
          then let overflow = min (data_len - data_space) len_bytes
            in take overflow (drop data_space data) @ map (\<lambda>i. stale (pos + data_space + i)) [overflow..<len_bytes]
          else if len_bytes = 1 then [of_nat data_len]
          else be_enc 2 (of_nat data_len :: u16)))"

definition is_varbinary :: "field \<Rightarrow> bool" where
  "is_varbinary f \<longleftrightarrow> real_type f = MYSQL_TYPE_VARCHAR \<and> field_charset f = my_charset_bin"

definition null_indicator :: "u8 list option \<Rightarrow> nat \<Rightarrow> field \<Rightarrow> bytes" where
  "null_indicator fk_ref_nullable p f =
     (case fk_ref_nullable of
        Some ns \<Rightarrow> if p < length ns \<and> ns ! p \<noteq> 0 then [SORT_KEY_NOT_NULL] else []
      | None \<Rightarrow> if is_nullable f then [SORT_KEY_NOT_NULL] else [])"

definition comparable_part ::
  "sort_string \<Rightarrow> (nat \<Rightarrow> u8) \<Rightarrow> u8 list option \<Rightarrow> nat \<Rightarrow> nat \<Rightarrow> key_part \<Rightarrow> row \<Rightarrow> bytes" where
  "comparable_part ss stale fk_ref_nullable p pos kp r =
     (let f = kp_field kp;
          v = field_of kp r;
          ind = null_indicator fk_ref_nullable p f;
          out = (if fk_ref_nullable = None \<and> is_nullable f \<and> fst v
                 then SORT_KEY_NULL # replicate (kp_length kp) 0
                 else if is_varbinary f
                 then ind @ varbinary_part stale (pos + length ind) (length_bytes f) (kp_length kp) (snd v)
                 else ind @ ss f (snd v) (kp_length kp))
      in if kp_reverse kp then invert_key_part out else out)"

fun comparable_parts ::
  "sort_string \<Rightarrow> (nat \<Rightarrow> u8) \<Rightarrow> u8 list option \<Rightarrow> nat \<Rightarrow> nat \<Rightarrow> key_part list \<Rightarrow> row \<Rightarrow> bytes" where
  "comparable_parts ss stale fk p pos [] r = []"
| "comparable_parts ss stale fk p pos (kp # kps) r =
     (let out = comparable_part ss stale fk p pos kp r
      in out @ comparable_parts ss stale fk (Suc p) (pos + length out) kps r)"

definition make_comparable_key ::
  "sort_string \<Rightarrow> (nat \<Rightarrow> u8) \<Rightarrow> key_info \<Rightarrow> row \<Rightarrow> nat \<Rightarrow> u8 list option \<Rightarrow> bytes" where
  "make_comparable_key ss stale ki r num_parts fk_ref_nullable =
     comparable_parts ss stale fk_ref_nullable 0 0 (take num_parts (key_parts ki)) r"

text \<open>How many parts a search key of the server covers; \<open>store_length\<close> of each part is an argument.\<close>

fun covered_parts :: "nat list \<Rightarrow> nat \<Rightarrow> nat \<Rightarrow> nat" where
  "covered_parts [] len key_len = 0"
| "covered_parts (part_len # ps) len key_len =
     (if len + part_len > key_len then 0 else Suc (covered_parts ps (len + part_len) key_len))"

definition key_copy_to_comparable ::
  "sort_string \<Rightarrow> (nat \<Rightarrow> u8) \<Rightarrow> (bytes \<Rightarrow> key_info \<Rightarrow> row) \<Rightarrow> nat list \<Rightarrow> key_info \<Rightarrow> bytes \<Rightarrow> bytes" where
  "key_copy_to_comparable ss stale key_restore store_lengths ki key_buf =
     (let n = covered_parts store_lengths 0 (length key_buf);
          parts = (if n = 0 then 1 else n)
      in make_comparable_key ss stale ki (key_restore key_buf ki) parts None)"

text \<open>The primary key, if the table has one, and the key the handler is positioned on otherwise.\<close>

definition pk_from_record :: "sort_string \<Rightarrow> (nat \<Rightarrow> u8) \<Rightarrow> key_info option \<Rightarrow> bytes \<Rightarrow> row \<Rightarrow> bytes" where
  "pk_from_record ss stale pk_key current_pk r =
     (case pk_key of
        Some ki \<Rightarrow> make_comparable_key ss stale ki r (length (key_parts ki)) None
      | None \<Rightarrow> current_pk)"

definition comparable_key_length :: "key_info \<Rightarrow> nat" where
  "comparable_key_length ki =
     (if is_spatial_index ki then SPATIAL_HILBERT_KEY_LEN
      else sum_list (map (\<lambda>kp. (if is_nullable (kp_field kp) then 1 else 0) + kp_length kp) (key_parts ki)))"

definition sec_idx_key ::
  "sort_string \<Rightarrow> (nat \<Rightarrow> u8) \<Rightarrow> key_info option \<Rightarrow> bytes \<Rightarrow> key_info \<Rightarrow> row \<Rightarrow> bytes" where
  "sec_idx_key ss stale pk_key current_pk ki r =
     (let out = make_comparable_key ss stale ki r (length (key_parts ki)) None
      in out @ pk_from_record ss (\<lambda>i. stale (length out + i)) pk_key current_pk r)"

section \<open>Reading keys back\<close>

definition is_keyread_decodable_type :: "field \<Rightarrow> bool" where
  "is_keyread_decodable_type f =
     (case real_type f of
        MYSQL_TYPE_TINY \<Rightarrow> True | MYSQL_TYPE_SHORT \<Rightarrow> True | MYSQL_TYPE_INT24 \<Rightarrow> True | MYSQL_TYPE_LONG \<Rightarrow> True
      | MYSQL_TYPE_LONGLONG \<Rightarrow> True | MYSQL_TYPE_YEAR \<Rightarrow> True | MYSQL_TYPE_DATE \<Rightarrow> True | MYSQL_TYPE_NEWDATE \<Rightarrow> True
      | MYSQL_TYPE_DATETIME \<Rightarrow> decimals f = 0 | MYSQL_TYPE_DATETIME2 \<Rightarrow> decimals f = 0
      | MYSQL_TYPE_TIMESTAMP \<Rightarrow> decimals f = 0 | MYSQL_TYPE_TIMESTAMP2 \<Rightarrow> decimals f = 0
      | MYSQL_TYPE_STRING \<Rightarrow> field_charset f = my_charset_bin \<or> field_charset f = my_charset_latin1
      | _ \<Rightarrow> False)"

text \<open>The table share the optimizer asks with: the fields, and the keys.\<close>

definition index_part_is_decodable :: "(field list \<times> key_info list) option \<Rightarrow> nat \<Rightarrow> nat \<Rightarrow> bool" where
  "index_part_is_decodable ts keyno part =
     (case ts of
        None \<Rightarrow> False
      | Some (fs, ks) \<Rightarrow>
          keyno < length ks \<and> part < length (key_parts (ks ! keyno)) \<and>
          (let fnr = kp_fieldnr (key_parts (ks ! keyno) ! part)
           in fnr \<noteq> 0 \<and> fnr - 1 < length fs \<and> is_keyread_decodable_type (fs ! (fnr - 1))))"

definition sort_desc :: "field \<Rightarrow> field_sort_desc option" where
  "sort_desc f =
     (let d = (\<lambda>k. Some \<lparr>fsd_k = k, fsd_is_signed = False, fsd_pack_length = 0, fsd_pad_byte = 0\<rparr>);
          int_d = Some \<lparr>fsd_k = integer, fsd_is_signed = \<not> is_unsigned f, fsd_pack_length = 0, fsd_pad_byte = 0\<rparr>;
          char_d = (\<lambda>pad. Some \<lparr>fsd_k = char_fixed, fsd_is_signed = False, fsd_pack_length = pack_length f,
                                fsd_pad_byte = pad\<rparr>)
      in case real_type f of
           MYSQL_TYPE_TINY \<Rightarrow> int_d | MYSQL_TYPE_SHORT \<Rightarrow> int_d | MYSQL_TYPE_INT24 \<Rightarrow> int_d
         | MYSQL_TYPE_LONG \<Rightarrow> int_d | MYSQL_TYPE_LONGLONG \<Rightarrow> int_d
         | MYSQL_TYPE_YEAR \<Rightarrow> d year | MYSQL_TYPE_DATE \<Rightarrow> d date | MYSQL_TYPE_NEWDATE \<Rightarrow> d date
         | MYSQL_TYPE_DATETIME \<Rightarrow> d datetime | MYSQL_TYPE_DATETIME2 \<Rightarrow> d datetime
         | MYSQL_TYPE_TIMESTAMP \<Rightarrow> d datetime | MYSQL_TYPE_TIMESTAMP2 \<Rightarrow> d datetime
         | MYSQL_TYPE_STRING \<Rightarrow>
             (if field_charset f = my_charset_bin then char_d 0
              else if field_charset f = my_charset_latin1 then char_d 0x20 else None)
         | _ \<Rightarrow> None)"

definition decode_sort_key_part :: "bytes \<Rightarrow> nat \<Rightarrow> field \<Rightarrow> bytes option" where
  "decode_sort_key_part src sort_len f = Option.bind (sort_desc f) (decode_part src sort_len)"

definition set_null :: "key_part \<Rightarrow> bool \<Rightarrow> row \<Rightarrow> row" where
  "set_null kp b buf = buf(kp_fieldnr kp - 1 := (b, snd (buf (kp_fieldnr kp - 1))))"

definition set_value :: "key_part \<Rightarrow> bytes \<Rightarrow> row \<Rightarrow> row" where
  "set_value kp v buf = buf(kp_fieldnr kp - 1 := (fst (buf (kp_fieldnr kp - 1)), v))"

text \<open>The value bytes of one part: decoded when wanted, and the buffer with the rest of the key.\<close>

definition decode_value :: "(nat \<Rightarrow> bool) \<Rightarrow> key_part \<Rightarrow> bytes \<Rightarrow> row \<Rightarrow> (bytes \<times> row) option" where
  "decode_value wanted kp pos buf =
     (if kp_length kp > length pos then None
      else let raw = take (kp_length kp) pos; rest = drop (kp_length kp) pos
        in if wanted (kp_fieldnr kp - 1)
           then map_option (\<lambda>v. (rest, set_value kp v buf))
                  (decode_sort_key_part (if kp_reverse kp then invert_key_part raw else raw) (kp_length kp) (kp_field kp))
           else Some (rest, buf))"

fun decode_key_parts :: "(nat \<Rightarrow> bool) \<Rightarrow> key_part list \<Rightarrow> bytes \<Rightarrow> row \<Rightarrow> row option" where
  "decode_key_parts wanted [] pos buf = Some buf"
| "decode_key_parts wanted (kp # kps) pos buf =
     (if is_nullable (kp_field kp)
      then (case pos of
              [] \<Rightarrow> None
            | b # rest \<Rightarrow>
                if (if kp_reverse kp then NOT b else b) = 0
                then (if kp_length kp > length rest then None
                      else decode_key_parts wanted kps (drop (kp_length kp) rest) (set_null kp True buf))
                else (case decode_value wanted kp rest (set_null kp False buf) of
                        None \<Rightarrow> None
                      | Some (r, buf') \<Rightarrow> decode_key_parts wanted kps r buf'))
      else (case decode_value wanted kp pos buf of
              None \<Rightarrow> None
            | Some (r, buf') \<Rightarrow> decode_key_parts wanted kps r buf'))"

text \<open>A covering read decodes the columns of the read set; a pushed condition needs them all.\<close>

definition keyread_decode_key_parts :: "(nat \<Rightarrow> bool) \<Rightarrow> key_info \<Rightarrow> bytes \<Rightarrow> row \<Rightarrow> row option" where
  "keyread_decode_key_parts read_set ki pos buf = decode_key_parts read_set (key_parts ki) pos buf"

definition icp_decode_key_parts :: "key_info \<Rightarrow> bytes \<Rightarrow> row \<Rightarrow> row option" where
  "icp_decode_key_parts ki pos buf = decode_key_parts (\<lambda>_. True) (key_parts ki) pos buf"

text \<open>The columns an index covers, as computed when the table is opened.\<close>

definition idx_cover :: "nat \<Rightarrow> key_info option \<Rightarrow> key_info \<Rightarrow> bool list" where
  "idx_cover nfields pk_key ki =
     map (\<lambda>c. \<exists>kp \<in> set (key_parts ki @ (case pk_key of None \<Rightarrow> [] | Some pk \<Rightarrow> key_parts pk)). kp_fieldnr kp = Suc c)
       [0..<nfields]"

definition try_keyread_from_index ::
  "nat \<Rightarrow> nat list \<Rightarrow> key_info option \<Rightarrow> key_info \<Rightarrow> bytes \<Rightarrow> row \<Rightarrow> (row \<times> bytes) option" where
  "try_keyread_from_index nfields read_set pk_key ki ik buf =
     (case pk_key of
        None \<Rightarrow> None
      | Some pk \<Rightarrow>
          if \<not> list_all (\<lambda>c. c < length (idx_cover nfields pk_key ki) \<and> idx_cover nfields pk_key ki ! c) read_set then None
          else (case keyread_decode_key_parts (\<lambda>c. c \<in> set read_set) ki ik buf of
                  None \<Rightarrow> None
                | Some buf1 \<Rightarrow>
                    (let pk_start = drop (comparable_key_length ki) ik
                     in case keyread_decode_key_parts (\<lambda>c. c \<in> set read_set) pk pk_start buf1 of
                          None \<Rightarrow> None
                        | Some buf2 \<Rightarrow> Some (buf2, pk_start))))"

section \<open>Order and shape of comparable keys\<close>

definition widths :: "sort_string \<Rightarrow> bool" where
  "widths ss \<longleftrightarrow> (\<forall>f v n. length (ss f v n) = n)"

definition plain :: "key_part list \<Rightarrow> bool" where
  "plain kps \<longleftrightarrow> (\<forall>kp \<in> set kps. \<not> is_varbinary (kp_field kp))"

text \<open>The order the server means: nulls first, then the sort string, a descending part the other way round.\<close>

definition value_before :: "sort_string \<Rightarrow> key_part \<Rightarrow> row \<Rightarrow> row \<Rightarrow> bool" where
  "value_before ss kp r1 r2 =
     (let v1 = field_of kp r1; v2 = field_of kp r2; f = kp_field kp;
          lt = (ss f (snd v1) (kp_length kp) < ss f (snd v2) (kp_length kp))
      in if is_nullable f then (if fst v1 then \<not> fst v2 else \<not> fst v2 \<and> lt) else lt)"

definition part_before :: "sort_string \<Rightarrow> key_part \<Rightarrow> row \<Rightarrow> row \<Rightarrow> bool" where
  "part_before ss kp r1 r2 = (if kp_reverse kp then value_before ss kp r2 r1 else value_before ss kp r1 r2)"

fun rows_before :: "sort_string \<Rightarrow> key_part list \<Rightarrow> row \<Rightarrow> row \<Rightarrow> bool" where
  "rows_before ss [] r1 r2 = False"
| "rows_before ss (kp # kps) r1 r2 =
     (if part_before ss kp r1 r2 then True
      else if part_before ss kp r2 r1 then False else rows_before ss kps r1 r2)"

text \<open>Without binary variable-length columns a part does not depend on where it is written.\<close>

definition part_bytes :: "sort_string \<Rightarrow> key_part \<Rightarrow> row \<Rightarrow> bytes" where
  "part_bytes ss kp r =
     (let f = kp_field kp; v = field_of kp r;
          out = (if is_nullable f
                 then (if fst v then SORT_KEY_NULL # replicate (kp_length kp) 0
                       else SORT_KEY_NOT_NULL # ss f (snd v) (kp_length kp))
                 else ss f (snd v) (kp_length kp))
      in if kp_reverse kp then invert_key_part out else out)"

definition part_len :: "key_part \<Rightarrow> nat" where
  "part_len kp = (if is_nullable (kp_field kp) then 1 else 0) + kp_length kp"

lemma length_invert [simp]: "length (invert_key_part p) = length p"
  by (simp add: invert_key_part_def)

lemma invert_invert [simp]: "invert_key_part (invert_key_part p) = p"
  by (simp add: invert_key_part_def comp_def)

lemma uint_not: "uint (NOT (b :: u8)) = 255 - uint b"
  using uint_lt2p [of b]
  by (simp add: unsigned_not_eq take_bit_not_eq_mask_diff mask_eq_exp_minus_1 take_bit_int_eq_self)

lemma not_less_not: "NOT (a :: u8) < NOT b \<longleftrightarrow> b < a"
  by (simp add: word_less_def uint_not)

lemma invert_less: "length a = length b \<Longrightarrow> invert_key_part a < invert_key_part b \<longleftrightarrow> b < a"
  by (induction a b rule: list_induct2) (auto simp: invert_key_part_def not_less_not)

lemma length_part_bytes [simp]: "widths ss \<Longrightarrow> length (part_bytes ss kp r) = part_len kp"
  by (simp add: part_bytes_def part_len_def widths_def Let_def)

lemma comparable_part_plain:
  assumes "\<not> is_varbinary (kp_field kp)"
  shows "comparable_part ss stale None p pos kp r = part_bytes ss kp r"
  using assms by (simp add: comparable_part_def part_bytes_def null_indicator_def Let_def)

lemma comparable_parts_plain:
  "plain kps \<Longrightarrow> comparable_parts ss stale None p pos kps r = concat (map (\<lambda>kp. part_bytes ss kp r) kps)"
  by (induction kps arbitrary: p pos) (auto simp: plain_def comparable_part_plain Let_def)

lemma length_concat_parts:
  "widths ss \<Longrightarrow> length (concat (map (\<lambda>kp. part_bytes ss kp r) kps)) = sum_list (map part_len kps)"
  by (induction kps) simp_all

lemma part_bytes_less:
  assumes "widths ss"
  shows "part_bytes ss kp r1 < part_bytes ss kp r2 \<longleftrightarrow> part_before ss kp r1 r2"
  using assms
  by (auto simp: part_bytes_def part_before_def value_before_def widths_def Let_def SORT_KEY_NULL_def
      SORT_KEY_NOT_NULL_def invert_less split: if_splits)

lemma concat_parts_less:
  assumes "widths ss"
  shows "concat (map (\<lambda>kp. part_bytes ss kp r1) kps) < concat (map (\<lambda>kp. part_bytes ss kp r2) kps) \<longleftrightarrow>
    rows_before ss kps r1 r2"
proof (induction kps)
  case (Cons kp kps)
  have tri: "part_bytes ss kp r1 = part_bytes ss kp r2 \<longleftrightarrow> \<not> part_before ss kp r1 r2 \<and> \<not> part_before ss kp r2 r1"
    using part_bytes_less [OF assms, of kp r1 r2] part_bytes_less [OF assms, of kp r2 r1] by auto
  show ?case
    using Cons tri part_bytes_less [OF assms, of kp r1 r2] part_bytes_less [OF assms, of kp r2 r1]
    by (auto simp: append_less_same_length assms)
qed simp

lemma make_comparable_key_plain:
  "plain (key_parts ki) \<Longrightarrow>
   make_comparable_key ss stale ki r n None = concat (map (\<lambda>kp. part_bytes ss kp r) (take n (key_parts ki)))"
  unfolding make_comparable_key_def
  by (rule comparable_parts_plain) (auto simp: plain_def dest: in_set_takeD)

lemma sec_idx_key_plain:
  assumes "plain (key_parts ki)" "plain (key_parts pk)"
  shows "sec_idx_key ss stale (Some pk) cur ki r =
    concat (map (\<lambda>kp. part_bytes ss kp r) (key_parts ki @ key_parts pk))"
  using assms by (simp add: sec_idx_key_def pk_from_record_def make_comparable_key_plain Let_def)

section \<open>Covering reads\<close>

text \<open>What one part writes into the record buffer when its bytes come from row \<open>r\<close>.\<close>

definition put_back :: "(nat \<Rightarrow> bool) \<Rightarrow> row \<Rightarrow> key_part \<Rightarrow> row \<Rightarrow> row" where
  "put_back wanted r kp buf =
     (let v = field_of kp r; buf1 = (if is_nullable (kp_field kp) then set_null kp (fst v) buf else buf)
      in if is_nullable (kp_field kp) \<and> fst v then buf1
         else if wanted (kp_fieldnr kp - 1) then set_value kp (snd v) buf1 else buf1)"

text \<open>A wanted column whose sort string is inverted by the decoder, or which is null.\<close>

definition reads_back :: "sort_string \<Rightarrow> (nat \<Rightarrow> bool) \<Rightarrow> row \<Rightarrow> key_part \<Rightarrow> bool" where
  "reads_back ss wanted r kp \<longleftrightarrow>
     (is_nullable (kp_field kp) \<or> \<not> fst (field_of kp r)) \<and>
     (wanted (kp_fieldnr kp - 1) \<longrightarrow>
        is_nullable (kp_field kp) \<and> fst (field_of kp r) \<or>
        decode_sort_key_part (ss (kp_field kp) (snd (field_of kp r)) (kp_length kp)) (kp_length kp) (kp_field kp) =
          Some (snd (field_of kp r)))"

definition agrees :: "row \<Rightarrow> row \<Rightarrow> key_part \<Rightarrow> bool" where
  "agrees r buf kp \<longleftrightarrow>
     (is_nullable (kp_field kp) \<longrightarrow> fst (field_of kp buf) = fst (field_of kp r)) \<and>
     (\<not> fst (field_of kp r) \<longrightarrow> snd (field_of kp buf) = snd (field_of kp r))"

lemma invert_Cons [simp]: "invert_key_part (b # bs) = NOT b # invert_key_part bs"
  by (simp add: invert_key_part_def)

lemma decode_value_part:
  assumes "widths ss" "reads_back ss wanted r kp" "\<not> (is_nullable (kp_field kp) \<and> fst (field_of kp r))"
  shows "decode_value wanted kp
      ((if kp_reverse kp then invert_key_part (ss (kp_field kp) (snd (field_of kp r)) (kp_length kp))
        else ss (kp_field kp) (snd (field_of kp r)) (kp_length kp)) @ rest) buf =
    Some (rest, if wanted (kp_fieldnr kp - 1) then set_value kp (snd (field_of kp r)) buf else buf)"
  using assms by (auto simp: decode_value_def widths_def reads_back_def)

lemma decode_part_step:
  assumes "widths ss" "reads_back ss wanted r kp"
  shows "decode_key_parts wanted (kp # kps) (part_bytes ss kp r @ rest) buf =
    decode_key_parts wanted kps rest (put_back wanted r kp buf)"
proof (cases "is_nullable (kp_field kp) \<and> fst (field_of kp r)")
  case True
  then show ?thesis
    by (simp add: part_bytes_def put_back_def SORT_KEY_NULL_def Let_def)
next
  case False
  from decode_value_part [OF assms this] False show ?thesis
    by (cases "kp_reverse kp"; cases "is_nullable (kp_field kp)")
      (auto simp: part_bytes_def put_back_def SORT_KEY_NOT_NULL_def Let_def)
qed

lemma decode_concat_parts:
  assumes "widths ss" "\<forall>kp \<in> set kps. reads_back ss wanted r kp"
  shows "decode_key_parts wanted kps (concat (map (\<lambda>kp. part_bytes ss kp r) kps) @ rest) buf =
    Some (fold (put_back wanted r) kps buf)"
  using assms(2)
proof (induction kps arbitrary: buf)
  case (Cons kp kps)
  then show ?case
    using decode_part_step [OF assms(1), of wanted r kp] by simp
qed simp

lemma put_back_agrees:
  assumes "is_nullable (kp_field kp) \<or> \<not> fst (field_of kp r)" "is_nullable (kp_field k) \<or> \<not> fst (field_of k r)"
    "agrees r buf k \<or> kp = k \<and> wanted (kp_fieldnr k - 1)"
  shows "agrees r (put_back wanted r kp buf) k"
  using assms
  by (cases "kp_fieldnr kp - 1 = kp_fieldnr k - 1")
    (auto simp: agrees_def put_back_def field_of_def set_null_def set_value_def Let_def)

lemma fold_put_back_agrees:
  assumes "\<forall>kp \<in> set kps. reads_back ss wanted r kp" "is_nullable (kp_field k) \<or> \<not> fst (field_of k r)"
    "agrees r buf k \<or> k \<in> set kps \<and> wanted (kp_fieldnr k - 1)"
  shows "agrees r (fold (put_back wanted r) kps buf) k"
  using assms
proof (induction kps arbitrary: buf)
  case (Cons kp kps)
  have "agrees r (put_back wanted r kp buf) k \<or> k \<in> set kps \<and> wanted (kp_fieldnr k - 1)"
    using Cons.prems put_back_agrees [of kp r k buf wanted] by (auto simp: reads_back_def)
  then show ?case
    using Cons by simp
qed simp

section \<open>Properties\<close>


definition demo_sort_string :: sort_string where
  "demo_sort_string f v n =
     (case take n (rev v @ replicate n 0) of
        [] \<Rightarrow> []
      | b # bs \<Rightarrow> (if real_type f = MYSQL_TYPE_LONG \<and> \<not> is_unsigned f then b XOR 0x80 else b) # bs)"

definition demo_int :: field where
  "demo_int = \<lparr>real_type = MYSQL_TYPE_LONG, field_charset = my_charset_bin, is_unsigned = False, decimals = 0,
     is_nullable = True, pack_length = 4, length_bytes = 0\<rparr>"

definition demo_idx :: key_info where
  "demo_idx = \<lparr>key_parts = [\<lparr>kp_field = demo_int, kp_fieldnr = 2, kp_length = 4, kp_reverse = True\<rparr>],
     key_nosame = False, key_fulltext = False, key_spatial = False, key_alg = HA_KEY_ALG_BTREE\<rparr>"

definition demo_pk :: key_info where
  "demo_pk = \<lparr>key_parts = [\<lparr>kp_field = demo_int\<lparr>is_nullable := False\<rparr>, kp_fieldnr = 1, kp_length = 4, kp_reverse = False\<rparr>],
     key_nosame = True, key_fulltext = False, key_spatial = False, key_alg = HA_KEY_ALG_BTREE\<rparr>"

definition demo_row :: "u8 \<Rightarrow> u8 \<Rightarrow> row" where
  "demo_row a b = (\<lambda>c. if c = 0 then (False, [a, 0, 0, 0]) else (False, [b, 0, 0, 0]))"

lemma demo_widths: "widths demo_sort_string"
  unfolding widths_def
proof (intro allI)
  fix f and v :: bytes and n
  have "length (case w of [] \<Rightarrow> [] | b # bs \<Rightarrow> g b # bs) = length w" for w :: bytes and g :: "u8 \<Rightarrow> u8"
    by (cases w) simp_all
  then show "length (demo_sort_string f v n) = n"
    by (simp add: demo_sort_string_def)
qed

lemma demo_plain: "plain (key_parts demo_idx)" "plain (key_parts demo_pk)"
  by (simp_all add: plain_def demo_idx_def demo_pk_def is_varbinary_def demo_int_def)




text \<open>C38: Keys of binary variable-length columns do not determine the value. On a VARBINARY(5) column the values
  abcd and abcd followed by byte 4 get one key, and abcd followed by byte 1 sorts before abcd; with two length bytes
  the key of a value one byte longer than the data space depends on what the buffer held before.\<close>

definition vb_key :: "nat \<Rightarrow> nat \<Rightarrow> key_info" where
  "vb_key lb n = \<lparr>key_parts = [\<lparr>kp_field = \<lparr>real_type = MYSQL_TYPE_VARCHAR, field_charset = my_charset_bin, is_unsigned = False,
        decimals = 0, is_nullable = False, pack_length = lb + n, length_bytes = lb\<rparr>,
      kp_fieldnr = 1, kp_length = n, kp_reverse = False\<rparr>],
     key_nosame = True, key_fulltext = False, key_spatial = False, key_alg = HA_KEY_ALG_BTREE\<rparr>"

definition vb_row :: "bytes \<Rightarrow> row" where
  "vb_row v = (\<lambda>_. (False, v))"

theorem varbinary_keys_not_faithful:
  "make_comparable_key ss st1 (vb_key 1 5) (vb_row [97, 98, 99, 100]) 1 None =
     make_comparable_key ss st2 (vb_key 1 5) (vb_row [97, 98, 99, 100, 4]) 1 None \<and>
   make_comparable_key ss st2 (vb_key 1 5) (vb_row [97, 98, 99, 100, 1]) 1 None <
     make_comparable_key ss st1 (vb_key 1 5) (vb_row [97, 98, 99, 100]) 1 None \<and>
   make_comparable_key ss (\<lambda>_. 0) (vb_key 2 300) (vb_row (replicate 299 7)) 1 None \<noteq>
     make_comparable_key ss (\<lambda>_. 1) (vb_key 2 300) (vb_row (replicate 299 7)) 1 None"
proof -
  have "[1 ..< (2 :: nat)] = [1]"
    by (simp add: upt_rec)
  then show ?thesis
    by (simp add: make_comparable_key_def comparable_part_def varbinary_part_def vb_key_def vb_row_def is_varbinary_def
        null_indicator_def field_of_def Let_def)
qed

end
