(* ===== verification/Row_Codec.thy ===== *)
theory Row_Codec
  imports Key_Codec
begin

text \<open>
  Stored rows, \<^verbatim>\<open>src/tidesdb/src/handler/ha_tidesdb_row.cc\<close>: packing a record into the self-describing row format,
  optional encryption, and reading rows back, also under a schema other than the one they were written with.

  A record buffer is its null bitmap and one slot per field; for a blob the slot stands for the bytes it points to. The
  server's \<open>Field::pack\<close> and \<open>Field::unpack\<close>, and the keyring and cipher behind the encryption layer, are parameters.
\<close>

section \<open>Records and schemas\<close>

record field_plan_t =
  fp_pack_len :: nat
  fp_memcpy_ok :: bool
  fp_is_blob :: bool
  fp_maybe_null :: bool
  fp_null_byte :: nat
  fp_null_bit :: nat
  fp_packlength :: nat

text \<open>A column as the server describes it, and the plan built for it when the table is opened. \<open>null_byte\<close> and
  \<open>null_bit\<close> locate the null bit the server tests, \<open>packlength\<close> is the width of a blob's length prefix.\<close>

record column =
  col_type :: field_type
  col_pack_length :: nat
  col_maybe_null :: bool
  col_blob_flag :: bool
  col_null_byte :: nat
  col_null_bit :: nat
  col_packlength :: nat

definition memcpy_type :: "field_type \<Rightarrow> bool" where
  "memcpy_type t \<longleftrightarrow>
     (case t of
        MYSQL_TYPE_STRING \<Rightarrow> False
      | MYSQL_TYPE_VARCHAR \<Rightarrow> False
      | MYSQL_TYPE_OTHER _ \<Rightarrow> False
      | _ \<Rightarrow> True)"

definition plan_column :: "column \<Rightarrow> field_plan_t" where
  "plan_column f =
     \<lparr>fp_pack_len = col_pack_length f mod 2 ^ 16,
      fp_memcpy_ok = (memcpy_type (col_type f) \<and> \<not> col_blob_flag f),
      fp_is_blob = col_blob_flag f,
      fp_maybe_null = col_maybe_null f,
      fp_null_byte = col_null_byte f, fp_null_bit = col_null_bit f, fp_packlength = col_packlength f\<rparr>"

definition open_build_field_plan :: "column list \<Rightarrow> field_plan_t list" where
  "open_build_field_plan cols = map plan_column cols"

record image =
  im_nulls :: bytes
  im_slots :: "bytes list"

record row_schema =
  rs_plan :: "field_plan_t list"
  rs_null_bytes :: nat
  rs_default :: image
  rs_encrypted :: bool
  rs_key_id :: nat
  rs_key_version :: u32

text \<open>What the server does for a field: how it packs a slot and how it reads a packed one back.\<close>

record field_ops =
  f_pack :: "nat \<Rightarrow> bytes \<Rightarrow> bytes"
  f_unpack :: "nat \<Rightarrow> bytes \<Rightarrow> (bytes \<times> bytes) option"

record crypto =
  cr_latest :: "nat \<Rightarrow> u32 option"
  cr_get_key :: "nat \<Rightarrow> u32 \<Rightarrow> bytes option"
  cr_encrypt :: "bytes \<Rightarrow> bytes \<Rightarrow> bytes \<Rightarrow> bytes option"
  cr_decrypt :: "bytes \<Rightarrow> bytes \<Rightarrow> bytes \<Rightarrow> bytes option"

definition TIDESDB_ENC_IV_LEN :: nat where "TIDESDB_ENC_IV_LEN = 16"
definition TIDESDB_ENC_VERSION_LEN :: nat where "TIDESDB_ENC_VERSION_LEN = 4"

text \<open>The two counts the share caches, at the widths it caches them.\<close>

definition null_bytes_cached :: "row_schema \<Rightarrow> nat" where
  "null_bytes_cached s = rs_null_bytes s mod 2 ^ 8"

definition fields_cached :: "row_schema \<Rightarrow> nat" where
  "fields_cached s = length (rs_plan s) mod 2 ^ 16"

definition has_no_nullable :: "row_schema \<Rightarrow> bool" where
  "has_no_nullable s \<longleftrightarrow> rs_null_bytes s = 0"

definition is_real_null :: "field_plan_t \<Rightarrow> image \<Rightarrow> bool" where
  "is_real_null fp img \<longleftrightarrow> fp_maybe_null fp \<and> fp_null_byte fp < length (im_nulls img) \<and> bit (im_nulls img ! fp_null_byte fp) (fp_null_bit fp)"

definition skipped :: "row_schema \<Rightarrow> field_plan_t \<Rightarrow> image \<Rightarrow> bool" where
  "skipped s fp img \<longleftrightarrow> \<not> has_no_nullable s \<and> fp_maybe_null fp \<and> is_real_null fp img"

section \<open>Encryption\<close>

text \<open>An empty result is the failure signal of both directions.\<close>

definition tidesdb_encrypt_row_into :: "crypto \<Rightarrow> bytes option \<Rightarrow> bytes \<Rightarrow> nat \<Rightarrow> u32 \<Rightarrow> bytes" where
  "tidesdb_encrypt_row_into cr iv_out plaintext key_id key_version =
     (case cr_get_key cr key_id key_version of
        None \<Rightarrow> []
      | Some key \<Rightarrow>
          (case iv_out of
             None \<Rightarrow> []
           | Some iv \<Rightarrow>
               (case cr_encrypt cr key iv plaintext of
                  None \<Rightarrow> []
                | Some c \<Rightarrow> le_enc 4 key_version @ iv @ c)))"

definition tidesdb_decrypt_row :: "crypto \<Rightarrow> bytes \<Rightarrow> nat \<Rightarrow> bytes" where
  "tidesdb_decrypt_row cr data key_id =
     (if length data \<le> TIDESDB_ENC_VERSION_LEN + TIDESDB_ENC_IV_LEN then []
      else let key_version = le_dec 4 data :: u32
        in (case cr_get_key cr key_id key_version of
              None \<Rightarrow> []
            | Some key \<Rightarrow>
                let iv = take TIDESDB_ENC_IV_LEN (drop TIDESDB_ENC_VERSION_LEN data);
                    src = drop (TIDESDB_ENC_VERSION_LEN + TIDESDB_ENC_IV_LEN) data
                in (case cr_decrypt cr key iv src of None \<Rightarrow> [] | Some p \<Rightarrow> p)))"

text \<open>The key version cached for the statement, the share's version, and the row.\<close>

definition serialize_encrypt_row ::
  "crypto \<Rightarrow> bytes option \<Rightarrow> bytes \<Rightarrow> u32 option \<Rightarrow> row_schema \<Rightarrow> bytes \<times> u32 option \<times> row_schema" where
  "serialize_encrypt_row cr iv_out row_buf cached s =
     (let (ver, s1) = (case cached of
             Some v \<Rightarrow> (v, s)
           | None \<Rightarrow> (case cr_latest cr (rs_key_id s) of
                       Some cur \<Rightarrow> (cur, s\<lparr>rs_key_version := cur\<rparr>)
                     | None \<Rightarrow> (rs_key_version s, s)))
      in (tidesdb_encrypt_row_into cr iv_out row_buf (rs_key_id s) ver, Some ver, s1))"

section \<open>Packing\<close>

definition pack_field :: "field_ops \<Rightarrow> row_schema \<Rightarrow> image \<Rightarrow> nat \<Rightarrow> bytes" where
  "pack_field ops s img i =
     (let fp = rs_plan s ! i; src = im_slots img ! i
      in if skipped s fp img then []
         else if fp_memcpy_ok fp then take (fp_pack_len fp) src
         else f_pack ops i src)"

definition pack_row :: "field_ops \<Rightarrow> row_schema \<Rightarrow> image \<Rightarrow> bytes" where
  "pack_row ops s img =
     ROW_HEADER_MAGIC # rf_store_u16le (of_nat (null_bytes_cached s)) @ rf_store_u16le (of_nat (fields_cached s)) @
     take (null_bytes_cached s) (im_nulls img) @ concat (map (pack_field ops s img) [0..<fields_cached s])"

text \<open>The size the row buffer is given before packing: a constant, cached for tables without blobs, and the blobs' lengths.\<close>

definition FIELD_VARCHAR_LEN_PREFIX :: nat where "FIELD_VARCHAR_LEN_PREFIX = 2"

definition blob_field_indices :: "row_schema \<Rightarrow> nat list" where
  "blob_field_indices s = filter (\<lambda>i. fp_is_blob (rs_plan s ! i)) [0..<length (rs_plan s)]"

definition base_estimate :: "row_schema \<Rightarrow> nat \<Rightarrow> nat" where
  "base_estimate s reclength =
     ROW_HEADER_SIZE + rs_null_bytes s + reclength + FIELD_VARCHAR_LEN_PREFIX * length (rs_plan s)"

definition serialize_estimate_size :: "row_schema \<Rightarrow> nat \<Rightarrow> nat \<Rightarrow> image \<Rightarrow> nat \<times> nat" where
  "serialize_estimate_size s reclength cached_row_est img =
     (let has_blobs = blob_field_indices s \<noteq> [];
          est = (if cached_row_est = 0 then base_estimate s reclength else cached_row_est);
          cached = (if cached_row_est = 0 \<and> \<not> has_blobs then est else cached_row_est)
      in (est + sum_list (map (\<lambda>i. if is_real_null (rs_plan s ! i) img then 0 else length (im_slots img ! i))
                              (blob_field_indices s)),
          cached))"

definition serialize_row ::
  "field_ops \<Rightarrow> crypto \<Rightarrow> bytes option \<Rightarrow> u32 option \<Rightarrow> row_schema \<Rightarrow> image \<Rightarrow> bytes \<times> u32 option \<times> row_schema" where
  "serialize_row ops cr iv_out cached s img =
     (if rs_encrypted s then serialize_encrypt_row cr iv_out (pack_row ops s img) cached s
      else (pack_row ops s img, cached, s))"

section \<open>Unpacking\<close>

definition zero_image :: "row_schema \<Rightarrow> image" where
  "zero_image s =
     \<lparr>im_nulls = replicate (rs_null_bytes s) 0,
      im_slots = map (\<lambda>fp. if fp_is_blob fp then [] else replicate (fp_pack_len fp) 0) (rs_plan s)\<rparr>"

text \<open>A blob is pointed at the row: its length prefix, little-endian, and then its bytes.\<close>

definition tdb_blob_point_at_row :: "nat \<Rightarrow> bytes \<Rightarrow> (bytes \<times> bytes) option" where
  "tdb_blob_point_at_row packlength from =
     (if length from < packlength then None
      else let len = unat (le_dec packlength from :: u32)
        in if length from < packlength + len then None
           else Some (take len (drop packlength from), drop (packlength + len) from))"

definition set_slot :: "nat \<Rightarrow> bytes \<Rightarrow> image \<Rightarrow> image" where
  "set_slot i v img = img\<lparr>im_slots := (im_slots img)[i := v]\<rparr>"

fun deserialize_unpack_fields :: "field_ops \<Rightarrow> row_schema \<Rightarrow> nat list \<Rightarrow> bytes \<Rightarrow> image \<Rightarrow> image" where
  "deserialize_unpack_fields ops s [] from buf = buf"
| "deserialize_unpack_fields ops s (i # is) from buf =
     (let fp = rs_plan s ! i
      in if skipped s fp buf then deserialize_unpack_fields ops s is from buf
         else if from = [] then buf
         else if fp_memcpy_ok fp
         then (if length from < fp_pack_len fp then buf
               else deserialize_unpack_fields ops s is (drop (fp_pack_len fp) from)
                      (set_slot i (take (fp_pack_len fp) from) buf))
         else (case (if fp_is_blob fp then tdb_blob_point_at_row (fp_packlength fp) from else f_unpack ops i from) of
                 None \<Rightarrow> buf
               | Some (v, next) \<Rightarrow> deserialize_unpack_fields ops s is next (set_slot i v buf)))"

definition fill_defaults :: "row_schema \<Rightarrow> nat \<Rightarrow> image \<Rightarrow> image" where
  "fill_defaults s stored_fields buf =
     foldl (\<lambda>b i. set_slot i (im_slots (rs_default s) ! i) b) buf [stored_fields..<fields_cached s]"

definition deserialize_row_plain :: "field_ops \<Rightarrow> row_schema \<Rightarrow> bytes \<Rightarrow> image \<Rightarrow> image" where
  "deserialize_row_plain ops s data buf =
     (if length data < ROW_HEADER_SIZE \<or> hd data \<noteq> ROW_HEADER_MAGIC then zero_image s
      else let stored_null_bytes = unat (rf_load_u16le (drop 1 data));
               stored_fields = unat (rf_load_u16le (drop 3 data));
               from = drop ROW_HEADER_SIZE data
        in if length from < stored_null_bytes then zero_image s
           else let cur_nb = null_bytes_cached s;
                    copy_nb = min stored_null_bytes cur_nb;
                    nulls = take copy_nb from
                      @ (if copy_nb < cur_nb then take (cur_nb - copy_nb) (drop copy_nb (im_nulls (rs_default s))) else [])
                      @ drop cur_nb (im_nulls buf);
                    buf1 = buf\<lparr>im_nulls := nulls\<rparr>;
                    unpack_count = min stored_fields (fields_cached s);
                    buf2 = (if stored_fields < fields_cached s then fill_defaults s stored_fields buf1 else buf1)
             in deserialize_unpack_fields ops s [0..<unpack_count] (drop stored_null_bytes from) buf2)"

definition deserialize_row :: "field_ops \<Rightarrow> crypto \<Rightarrow> row_schema \<Rightarrow> bytes \<Rightarrow> image \<Rightarrow> image" where
  "deserialize_row ops cr s row buf =
     (if rs_encrypted s
      then let plain = tidesdb_decrypt_row cr row (rs_key_id s)
        in if plain = [] then zero_image s else deserialize_row_plain ops s plain buf
      else deserialize_row_plain ops s row buf)"

section \<open>Well-formed schemas and records\<close>

definition wf_schema :: "row_schema \<Rightarrow> bool" where
  "wf_schema s \<longleftrightarrow> rs_null_bytes s < 2 ^ 8 \<and> length (rs_plan s) < 2 ^ 16 \<and>
     (\<forall>fp \<in> set (rs_plan s). (fp_maybe_null fp \<longrightarrow> fp_null_byte fp < rs_null_bytes s) \<and>
        (fp_memcpy_ok fp \<longrightarrow> 0 < fp_pack_len fp))"

definition wf_image :: "row_schema \<Rightarrow> image \<Rightarrow> bool" where
  "wf_image s img \<longleftrightarrow> length (im_nulls img) = rs_null_bytes s \<and> length (im_slots img) = length (rs_plan s) \<and>
     (\<forall>i < length (rs_plan s). fp_memcpy_ok (rs_plan s ! i) \<longrightarrow> length (im_slots img ! i) = fp_pack_len (rs_plan s ! i))"

text \<open>What the row format relies on: a packed field is not empty, and it reads back with what follows it left over.\<close>

definition packs :: "field_ops \<Rightarrow> row_schema \<Rightarrow> image \<Rightarrow> bool" where
  "packs ops s img \<longleftrightarrow>
     (\<forall>i < length (rs_plan s). \<not> fp_memcpy_ok (rs_plan s ! i) \<longrightarrow>
        f_pack ops i (im_slots img ! i) \<noteq> [] \<and>
        (\<forall>r. (if fp_is_blob (rs_plan s ! i)
              then tdb_blob_point_at_row (fp_packlength (rs_plan s ! i)) (f_pack ops i (im_slots img ! i) @ r)
              else f_unpack ops i (f_pack ops i (im_slots img ! i) @ r)) = Some (im_slots img ! i, r)))"

definition ciphers :: "crypto \<Rightarrow> bool" where
  "ciphers cr \<longleftrightarrow> (\<forall>k iv p c. cr_encrypt cr k iv p = Some c \<longrightarrow> c \<noteq> [] \<and> cr_decrypt cr k iv c = Some p)"

text \<open>A schema with columns appended.\<close>

definition extends :: "row_schema \<Rightarrow> row_schema \<Rightarrow> bool" where
  "extends s s' \<longleftrightarrow> (\<exists>more. rs_plan s' = rs_plan s @ more) \<and> rs_null_bytes s \<le> rs_null_bytes s' \<and>
     rs_encrypted s' = rs_encrypted s \<and> rs_key_id s' = rs_key_id s"

lemma set_slot_simps [simp]:
  "im_nulls (set_slot i v img) = im_nulls img"
  "im_slots (set_slot i v img) = (im_slots img)[i := v]"
  by (simp_all add: set_slot_def)

lemma skipped_set_slot [simp]: "skipped s fp (set_slot i v img) = skipped s fp img"
  by (simp add: skipped_def is_real_null_def)

lemma skipped_agrees:
  assumes "wf_schema s" "fp \<in> set (rs_plan s)" "rs_null_bytes s \<le> rs_null_bytes s'"
    "length (im_nulls img) = rs_null_bytes s" "take (rs_null_bytes s) (im_nulls buf) = im_nulls img"
    "rs_null_bytes s \<le> length (im_nulls buf)"
  shows "skipped s' fp buf = skipped s fp img"
proof (cases "fp_maybe_null fp")
  case True
  then have "fp_null_byte fp < rs_null_bytes s"
    using assms(1,2) by (auto simp: wf_schema_def)
  moreover from this have "im_nulls buf ! fp_null_byte fp = im_nulls img ! fp_null_byte fp"
    using assms(5) by (metis nth_take)
  ultimately show ?thesis
    using assms(3,4,6) by (auto simp: skipped_def is_real_null_def has_no_nullable_def)
qed (simp add: skipped_def)

text \<open>The unpack loop undoes the pack loop, field by field, and touches nothing else.\<close>

lemma unpack_pack:
  assumes "wf_schema s" "wf_image s img" "packs ops s img" "extends s s'" "n = length (rs_plan s)" "a \<le> n"
    and "take (rs_null_bytes s) (im_nulls buf) = im_nulls img" "rs_null_bytes s \<le> length (im_nulls buf)"
    and "n \<le> length (im_slots buf)"
  defines "out \<equiv> deserialize_unpack_fields ops s' [a..<n] (concat (map (pack_field ops s img) [a..<n])) buf"
  shows "im_nulls out = im_nulls buf \<and> length (im_slots out) = length (im_slots buf) \<and>
    (\<forall>i. im_slots out ! i = (if a \<le> i \<and> i < n \<and> \<not> skipped s (rs_plan s ! i) img then im_slots img ! i else im_slots buf ! i))"
  using assms(6-9) unfolding out_def
proof (induction "n - a" arbitrary: a buf)
  case 0
  then show ?case
    by auto
next
  case (Suc d)
  then have a: "a < n" and up: "[a..<n] = a # [Suc a..<n]"
    by (simp_all add: upt_conv_Cons)
  obtain more where more: "rs_plan s' = rs_plan s @ more"
    using assms(4) by (auto simp: extends_def)
  let ?fp = "rs_plan s ! a"
  have fp: "rs_plan s' ! a = ?fp" "?fp \<in> set (rs_plan s)"
    using a assms(5) more by (simp_all add: nth_append)
  have nb: "rs_null_bytes s \<le> rs_null_bytes s'" "length (im_nulls img) = rs_null_bytes s"
    using assms(2,4) by (simp_all add: extends_def wf_image_def)
  have sk: "skipped s' ?fp buf = skipped s ?fp img"
    by (rule skipped_agrees [OF assms(1) fp(2) nb Suc.prems(2,3)])
  let ?rest = "concat (map (pack_field ops s img) [Suc a..<n])"
  have d: "d = n - Suc a" "Suc a \<le> n"
    using Suc.hyps(2) a by simp_all
  note IH = Suc.hyps(1) [OF d]
  show ?case
  proof (cases "skipped s ?fp img")
    case True
    then have "pack_field ops s img a = []"
      by (simp add: pack_field_def)
    moreover have "deserialize_unpack_fields ops s' (a # [Suc a..<n]) ?rest buf = deserialize_unpack_fields ops s' [Suc a..<n] ?rest buf"
      using True sk fp(1) by simp
    ultimately show ?thesis
      using IH [of buf] Suc.prems True by (simp add: up) (metis Suc_leD Suc_leI le_neq_implies_less)
  next
    case False
    have ne: "pack_field ops s img a \<noteq> []"
      and step: "deserialize_unpack_fields ops s' (a # [Suc a..<n]) (pack_field ops s img a @ ?rest) buf =
         deserialize_unpack_fields ops s' [Suc a..<n] ?rest (set_slot a (im_slots img ! a) buf)"
      using assms(1,2,3,5) a False sk fp
      by (cases "fp_memcpy_ok ?fp";
          fastforce simp: pack_field_def Let_def wf_schema_def wf_image_def packs_def)+
    have slot: "(im_slots buf)[a := im_slots img ! a] ! i = (if i = a then im_slots img ! a else im_slots buf ! i)" for i
      using Suc.prems(4) a by (simp add: nth_list_update)
    let ?out = "deserialize_unpack_fields ops s' [Suc a..<n] ?rest (set_slot a (im_slots img ! a) buf)"
    have ih: "im_nulls ?out = im_nulls buf" "length (im_slots ?out) = length (im_slots buf)"
      "im_slots ?out ! i = (if Suc a \<le> i \<and> i < n \<and> \<not> skipped s (rs_plan s ! i) img then im_slots img ! i
         else if i = a then im_slots img ! a else im_slots buf ! i)" for i
      using IH [of "set_slot a (im_slots img ! a) buf"] Suc.prems slot by simp_all
    have "im_slots ?out ! i = (if a \<le> i \<and> i < n \<and> \<not> skipped s (rs_plan s ! i) img then im_slots img ! i
         else im_slots buf ! i)" for i
      unfolding ih(3) using a False by (cases "i = a") auto
    then show ?thesis
      using ih(1,2) unfolding up list.map concat.simps step by blast
  qed
qed

lemma fill_defaults_shape:
  "im_nulls (fill_defaults s k buf) = im_nulls buf" (is ?nulls)
  "length (im_slots (fill_defaults s k buf)) = length (im_slots buf)" (is ?len)
  "i < length (im_slots buf) \<Longrightarrow> im_slots (fill_defaults s k buf) ! i =
     (if k \<le> i \<and> i < fields_cached s then im_slots (rs_default s) ! i else im_slots buf ! i)" (is "_ \<Longrightarrow> ?slot")
proof -
  have "im_nulls (foldl f b is) = im_nulls b \<and> length (im_slots (foldl f b is)) = length (im_slots b) \<and>
      (\<forall>i < length (im_slots b). im_slots (foldl f b is) ! i = (if i \<in> set is then im_slots (rs_default s) ! i else im_slots b ! i))"
    if "f = (\<lambda>b i. set_slot i (im_slots (rs_default s) ! i) b)" for f b "is"
    unfolding that by (induction "is" arbitrary: b) (auto simp: nth_list_update)
  from this [OF refl, of buf "[k..<fields_cached s]"]
  show ?nulls ?len "i < length (im_slots buf) \<Longrightarrow> ?slot"
    by (auto simp: fill_defaults_def)
qed

lemma unat_u16: "n < 2 ^ 16 \<Longrightarrow> unat (of_nat n :: u16) = n"
  by (simp add: unat_of_nat)

lemma pack_row_header:
  assumes "wf_schema s" "wf_image s img"
  shows "pack_row ops s img = ROW_HEADER_MAGIC # rf_store_u16le (of_nat (rs_null_bytes s)) @
      rf_store_u16le (of_nat (length (rs_plan s))) @ im_nulls img @
      concat (map (pack_field ops s img) [0..<length (rs_plan s)])"
  using assms by (simp add: pack_row_def null_bytes_cached_def fields_cached_def wf_schema_def wf_image_def)

lemma drop_header:
  "drop (Suc 0) (m # rf_store_u16le a @ rf_store_u16le b @ r) = rf_store_u16le a @ rf_store_u16le b @ r"
  "drop 3 (m # rf_store_u16le a @ rf_store_u16le b @ r) = rf_store_u16le b @ r"
  "drop 5 (m # rf_store_u16le a @ rf_store_u16le b @ r) = r"
  by (simp_all add: rf_store_u16le_def)

text \<open>Reading a row under the schema it was written with, or one with appended columns.\<close>

definition reads_as :: "row_schema \<Rightarrow> row_schema \<Rightarrow> image \<Rightarrow> image \<Rightarrow> bool" where
  "reads_as s s' img out \<longleftrightarrow>
     take (rs_null_bytes s) (im_nulls out) = im_nulls img \<and>
     drop (rs_null_bytes s) (im_nulls out) = drop (rs_null_bytes s) (im_nulls (rs_default s')) \<and>
     (\<forall>i < length (rs_plan s). \<not> skipped s (rs_plan s ! i) img \<longrightarrow> im_slots out ! i = im_slots img ! i) \<and>
     (\<forall>i. length (rs_plan s) \<le> i \<and> i < length (rs_plan s') \<longrightarrow> im_slots out ! i = im_slots (rs_default s') ! i)"

lemma plain_row_reads:
  assumes "wf_schema s" "wf_image s img" "packs ops s img" "wf_schema s'" "extends s s'" "wf_image s' (rs_default s')"
    "wf_image s' buf"
  shows "reads_as s s' img (deserialize_row_plain ops s' (pack_row ops s img) buf)"
proof -
  let ?n = "length (rs_plan s)" and ?n' = "length (rs_plan s')" and ?b = "rs_null_bytes s" and ?b' = "rs_null_bytes s'"
  have sizes: "?b < 2 ^ 16" "?n < 2 ^ 16" "?n \<le> ?n'" "?b \<le> ?b'" "fields_cached s' = ?n'" "null_bytes_cached s' = ?b'"
    "length (im_nulls img) = ?b"
    using assms(1,2,4,5) by (auto simp: wf_schema_def extends_def fields_cached_def null_bytes_cached_def wf_image_def)
  define buf1 where "buf1 = buf\<lparr>im_nulls := im_nulls img @ drop ?b (im_nulls (rs_default s'))\<rparr>"
  define buf2 where "buf2 = (if ?n < ?n' then fill_defaults s' ?n buf1 else buf1)"
  have d: "deserialize_row_plain ops s' (pack_row ops s img) buf =
      deserialize_unpack_fields ops s' [0..<?n] (concat (map (pack_field ops s img) [0..<?n])) buf2"
    using sizes assms(6,7) pack_row_header [OF assms(1,2), of ops]
    by (simp add: deserialize_row_plain_def Let_def ROW_HEADER_SIZE_def drop_header unat_u16 buf2_def buf1_def min_def
        wf_image_def del: drop_Suc_Cons)
  have buf2: "im_nulls buf2 = im_nulls img @ drop ?b (im_nulls (rs_default s'))" "length (im_slots buf2) = ?n'"
    "\<And>i. ?n \<le> i \<Longrightarrow> i < ?n' \<Longrightarrow> im_slots buf2 ! i = im_slots (rs_default s') ! i"
    using assms(7) sizes by (auto simp: buf2_def buf1_def fill_defaults_shape wf_image_def)
  have "im_nulls (deserialize_row_plain ops s' (pack_row ops s img) buf) = im_nulls buf2"
    "\<And>i. im_slots (deserialize_row_plain ops s' (pack_row ops s img) buf) ! i =
       (if i < ?n \<and> \<not> skipped s (rs_plan s ! i) img then im_slots img ! i else im_slots buf2 ! i)"
    using unpack_pack [OF assms(1,2,3,5) refl, of 0 buf2] buf2(1,2) sizes by (simp_all add: d)
  then show ?thesis
    using buf2 sizes(7) by (auto simp: reads_as_def)
qed

lemma decrypt_encrypt:
  assumes "ciphers cr" "tidesdb_encrypt_row_into cr (Some iv) p kid ver \<noteq> []" "length iv = TIDESDB_ENC_IV_LEN"
  shows "tidesdb_decrypt_row cr (tidesdb_encrypt_row_into cr (Some iv) p kid ver) kid = p"
proof -
  obtain k c where k: "cr_get_key cr kid ver = Some k" and c: "cr_encrypt cr k iv p = Some c"
    using assms(2) by (auto simp: tidesdb_encrypt_row_into_def split: option.splits)
  then have enc: "tidesdb_encrypt_row_into cr (Some iv) p kid ver = le_enc 4 ver @ iv @ c" "c \<noteq> []" "cr_decrypt cr k iv c = Some p"
    using assms(1) by (auto simp: tidesdb_encrypt_row_into_def ciphers_def)
  have "(le_dec 4 (le_enc 4 ver @ iv @ c) :: u32) = ver"
    by (rule le_dec_le_enc) simp
  then show ?thesis
    using enc k assms(3) by (simp add: tidesdb_decrypt_row_def TIDESDB_ENC_VERSION_LEN_def TIDESDB_ENC_IV_LEN_def)
qed

section \<open>Properties\<close>

text \<open>C13: A stored row reads back, also after columns were appended. Whatever record buffer is reused, reading a row that
  was written without error gives its null bits and the value of every field that is not null; columns appended since
  then have their default value and, in null bytes appended since then, their default null state. This holds for
  encrypted rows too, whatever key versions were minted in between.\<close>

theorem stored_row_reads_back:
  assumes "wf_schema s" and "wf_image s img" and "packs ops s img" and "ciphers cr"
    and "wf_schema s'" and "extends s s'" and "wf_image s' (rs_default s')" and "wf_image s' buf"
    and "serialize_row ops cr (Some iv) cached s img = (row, cached', s1)" and "row \<noteq> []" and "length iv = TIDESDB_ENC_IV_LEN"
  shows "reads_as s s' img (deserialize_row ops cr s' row buf)"
proof (cases "rs_encrypted s")
  case True
  obtain ver where row: "row = tidesdb_encrypt_row_into cr (Some iv) (pack_row ops s img) (rs_key_id s) ver"
    using assms(9) True by (auto simp: serialize_row_def serialize_encrypt_row_def Let_def split: option.splits prod.splits)
  have "tidesdb_decrypt_row cr row (rs_key_id s) = pack_row ops s img"
    unfolding row by (rule decrypt_encrypt [OF assms(4) _ assms(11)]) (use assms(10) row in simp)
  moreover have "pack_row ops s img \<noteq> []"
    by (simp add: pack_row_def)
  ultimately show ?thesis
    using plain_row_reads [OF assms(1-3,5-8)] True assms(6) by (simp add: deserialize_row_def extends_def)
next
  case False
  then show ?thesis
    using plain_row_reads [OF assms(1-3,5-8)] assms(6,9) by (auto simp: deserialize_row_def serialize_row_def extends_def)
qed

definition demo_int_fp :: "bool \<Rightarrow> nat \<Rightarrow> field_plan_t" where
  "demo_int_fp nullable b = \<lparr>fp_pack_len = 2, fp_memcpy_ok = True, fp_is_blob = False, fp_maybe_null = nullable,
     fp_null_byte = 0, fp_null_bit = b, fp_packlength = 0\<rparr>"

definition demo_schema :: "field_plan_t list \<Rightarrow> bytes list \<Rightarrow> row_schema" where
  "demo_schema plan defaults = \<lparr>rs_plan = plan, rs_null_bytes = 1, rs_default = \<lparr>im_nulls = [0xFF], im_slots = defaults\<rparr>,
     rs_encrypted = True, rs_key_id = 1, rs_key_version = 1\<rparr>"

definition demo_ops :: field_ops where
  "demo_ops = \<lparr>f_pack = \<lambda>_ v. v, f_unpack = \<lambda>_ _. None\<rparr>"

definition demo_crypto :: crypto where
  "demo_crypto = \<lparr>cr_latest = \<lambda>_. Some 7, cr_get_key = \<lambda>_ v. if v = 7 then Some [42] else None,
     cr_encrypt = \<lambda>k _ p. Some (map (\<lambda>b. b + hd k) p @ [0]), cr_decrypt = \<lambda>k _ c. Some (map (\<lambda>b. b - hd k) (butlast c))\<rparr>"

definition demo_two :: row_schema where
  "demo_two = demo_schema [demo_int_fp False 0, demo_int_fp True 1] [[0, 0], [0, 0]]"

definition demo_three :: row_schema where
  "demo_three = demo_schema [demo_int_fp False 0, demo_int_fp True 1, demo_int_fp False 2] [[0, 0], [0, 0], [9, 9]]"

definition demo_image :: image where
  "demo_image = \<lparr>im_nulls = [0xFC], im_slots = [[1, 2], [3, 4]]\<rparr>"

definition demo_row :: bytes where
  "demo_row = fst (serialize_row demo_ops demo_crypto (Some (replicate 16 0)) None demo_two demo_image)"

theorem stored_row_reads_back_witness:
  "im_slots (deserialize_row demo_ops demo_crypto demo_three demo_row (rs_default demo_three)) ! 1 = [3, 4] \<and>
   im_slots (deserialize_row demo_ops demo_crypto demo_three demo_row (rs_default demo_three)) ! 2 = [9, 9]"
proof -
  note defs = demo_two_def demo_three_def demo_schema_def demo_int_fp_def demo_image_def
  have "wf_schema demo_two" "wf_schema demo_three" "extends demo_two demo_three"
    by (simp_all add: defs wf_schema_def extends_def)
  moreover have "wf_image demo_two demo_image" "wf_image demo_three (rs_default demo_three)" "packs demo_ops demo_two demo_image"
    by (simp_all add: defs wf_image_def packs_def All_less_Suc)
  moreover have "ciphers demo_crypto"
    by (simp add: ciphers_def demo_crypto_def comp_def)
  moreover obtain c1 s1 where "serialize_row demo_ops demo_crypto (Some (replicate 16 0)) None demo_two demo_image = (demo_row, c1, s1)"
    unfolding demo_row_def by (metis prod.collapse)
  moreover have "demo_row \<noteq> []"
    by (simp add: demo_row_def serialize_row_def serialize_encrypt_row_def tidesdb_encrypt_row_into_def demo_crypto_def
        demo_two_def demo_schema_def)
  ultimately have "reads_as demo_two demo_three demo_image
      (deserialize_row demo_ops demo_crypto demo_three demo_row (rs_default demo_three))"
    by (intro stored_row_reads_back [where iv = "replicate 16 0"]) (assumption | simp add: TIDESDB_ENC_IV_LEN_def)+
  moreover have "\<not> skipped demo_two (rs_plan demo_two ! 1) demo_image"
    by code_simp
  ultimately show ?thesis
    by (simp add: reads_as_def defs)
qed

section \<open>The row buffer\<close>

definition packs_within :: "field_ops \<Rightarrow> row_schema \<Rightarrow> image \<Rightarrow> bool" where
  "packs_within ops s img \<longleftrightarrow>
     (\<forall>i < length (rs_plan s).
        if fp_is_blob (rs_plan s ! i)
        then length (f_pack ops i (im_slots img ! i)) \<le> fp_packlength (rs_plan s ! i) + length (im_slots img ! i) \<and>
          fp_packlength (rs_plan s ! i) \<le> fp_pack_len (rs_plan s ! i)
        else length (f_pack ops i (im_slots img ! i)) \<le> fp_pack_len (rs_plan s ! i) + FIELD_VARCHAR_LEN_PREFIX)"

definition good_estimate :: "row_schema \<Rightarrow> nat \<Rightarrow> nat \<Rightarrow> bool" where
  "good_estimate s reclength cached \<longleftrightarrow> cached = 0 \<or> cached = base_estimate s reclength"

definition blob_bytes :: "row_schema \<Rightarrow> image \<Rightarrow> nat \<Rightarrow> nat" where
  "blob_bytes s img i =
     (if fp_is_blob (rs_plan s ! i) \<and> \<not> is_real_null (rs_plan s ! i) img then length (im_slots img ! i) else 0)"

lemma estimate_blobs:
  "sum_list (map (\<lambda>i. if is_real_null (rs_plan s ! i) img then 0 else length (im_slots img ! i)) (blob_field_indices s)) =
   sum_list (map (blob_bytes s img) [0..<length (rs_plan s)])"
  unfolding blob_field_indices_def sum_list_map_filter'
  by (intro arg_cong [where f = sum_list] map_cong) (auto simp: blob_bytes_def)

lemma pack_field_bound:
  assumes "packs_within ops s img" "wf_schema s" "wf_image s img" "i < length (rs_plan s)"
  shows "length (pack_field ops s img i) \<le> fp_pack_len (rs_plan s ! i) + FIELD_VARCHAR_LEN_PREFIX + blob_bytes s img i"
  using assms by (auto simp: pack_field_def Let_def packs_within_def blob_bytes_def skipped_def is_real_null_def
      has_no_nullable_def wf_image_def split: if_splits)

lemma plan_lengths: "(\<Sum>fp \<leftarrow> rs_plan s. fp_pack_len fp) = (\<Sum>i \<leftarrow> [0..<length (rs_plan s)]. fp_pack_len (rs_plan s ! i))"
proof -
  have "map fp_pack_len (rs_plan s) = map fp_pack_len (map ((!) (rs_plan s)) [0..<length (rs_plan s)])"
    by (simp only: map_nth)
  then show ?thesis
    by (simp add: comp_def)
qed

lemma sum_list_bound:
  fixes f g :: "nat \<Rightarrow> nat"
  assumes "\<And>i. i < n \<Longrightarrow> f i \<le> g i"
  shows "sum_list (map f [0..<n]) \<le> sum_list (map g [0..<n])"
  using assms by (intro sum_list_mono) simp

text \<open>C14: Packing never runs past the buffer the estimate sized, first row or later: the packed row is no longer than the
  estimate, and the estimate it caches is good for every later row of the table. Asked of the server: the record holds
  the null bytes and every field, and \<open>Field::pack\<close> writes at most two bytes more than the field's length, for a blob
  its length prefix and its bytes.\<close>

theorem packed_row_fits:
  assumes "wf_schema s" and "wf_image s img" and "packs_within ops s img"
    and "(\<Sum>fp \<leftarrow> rs_plan s. fp_pack_len fp) \<le> reclength"
    and "good_estimate s reclength cached"
  shows "length (pack_row ops s img) \<le> fst (serialize_estimate_size s reclength cached img) \<and>
    good_estimate s reclength (snd (serialize_estimate_size s reclength cached img))"
proof
  let ?n = "length (rs_plan s)"
  have "(\<Sum>i \<leftarrow> [0..<?n]. length (pack_field ops s img i)) \<le>
      (\<Sum>i \<leftarrow> [0..<?n]. fp_pack_len (rs_plan s ! i) + FIELD_VARCHAR_LEN_PREFIX + blob_bytes s img i)"
    by (intro sum_list_bound pack_field_bound assms)
  also have "\<dots> = (\<Sum>fp \<leftarrow> rs_plan s. fp_pack_len fp) + FIELD_VARCHAR_LEN_PREFIX * ?n + (\<Sum>i \<leftarrow> [0..<?n]. blob_bytes s img i)"
    by (simp add: sum_list_addf sum_list_triv flip: plan_lengths)
  finally have "length (pack_row ops s img) \<le> base_estimate s reclength + (\<Sum>i \<leftarrow> [0..<?n]. blob_bytes s img i)"
    using assms(1,2,4) unfolding pack_row_header [OF assms(1,2)]
    by (simp add: base_estimate_def length_concat comp_def ROW_HEADER_SIZE_def rf_store_u16le_def wf_image_def)
  then show "length (pack_row ops s img) \<le> fst (serialize_estimate_size s reclength cached img)"
    using assms(5) by (auto simp: serialize_estimate_size_def Let_def good_estimate_def estimate_blobs)
  show "good_estimate s reclength (snd (serialize_estimate_size s reclength cached img))"
    using assms(5) by (auto simp: serialize_estimate_size_def Let_def good_estimate_def)
qed

definition demo_cols :: "column list" where
  "demo_cols = [\<lparr>col_type = MYSQL_TYPE_LONG, col_pack_length = 4, col_maybe_null = False, col_blob_flag = False,
       col_null_byte = 0, col_null_bit = 0, col_packlength = 0\<rparr>,
     \<lparr>col_type = MYSQL_TYPE_OTHER 252, col_pack_length = 10, col_maybe_null = True, col_blob_flag = True,
       col_null_byte = 0, col_null_bit = 1, col_packlength = 2\<rparr>]"

definition demo_blob_schema :: row_schema where
  "demo_blob_schema = demo_schema (open_build_field_plan demo_cols) []"

definition demo_blob_ops :: field_ops where
  "demo_blob_ops = \<lparr>f_pack = \<lambda>_ v. le_enc 2 (of_nat (length v) :: u16) @ v, f_unpack = \<lambda>_ _. None\<rparr>"

theorem packed_row_fits_witness:
  "length (pack_row demo_blob_ops demo_blob_schema \<lparr>im_nulls = [0], im_slots = [[1, 2, 3, 4], [5, 6, 7]]\<rparr>) \<le>
   fst (serialize_estimate_size demo_blob_schema 15 0 \<lparr>im_nulls = [0], im_slots = [[1, 2, 3, 4], [5, 6, 7]]\<rparr>)"
proof -
  let ?img = "\<lparr>im_nulls = [0 :: u8], im_slots = [[1, 2, 3, 4], [5, 6, 7]]\<rparr>"
  note defs = demo_blob_schema_def demo_schema_def open_build_field_plan_def demo_cols_def plan_column_def memcpy_type_def
  have "wf_schema demo_blob_schema" "wf_image demo_blob_schema ?img" "packs_within demo_blob_ops demo_blob_schema ?img"
    by (simp_all add: defs wf_schema_def wf_image_def packs_within_def demo_blob_ops_def FIELD_VARCHAR_LEN_PREFIX_def All_less_Suc)
  moreover have "(\<Sum>fp \<leftarrow> rs_plan demo_blob_schema. fp_pack_len fp) \<le> 15"
    by (simp add: defs)
  ultimately show ?thesis
    using packed_row_fits [of demo_blob_schema ?img demo_blob_ops 15 0] by (simp add: good_estimate_def)
qed
end
