(* ===== verification/Table_Meta.thy ===== *)
theory Table_Meta
  imports Tdb_Scan Fts_Meta Key_Codec Table_Options
begin

text \<open>
  A table's options as the handler reads and keeps them, \<^verbatim>\<open>src/tidesdb/src/handler/ha_tidesdb_table_options.cc\<close>: the
  attribute the server holds, the copy of the options stored in the table's own column family, and the recorded shape
  of each index. The session defaults are a parameter, and so are the two lists of names. A message is the text that is
  put into it; a warning is not modelled.
\<close>

section \<open>Attributes\<close>

text \<open>What the dictionary has of a table: its attribute, and for each column its name and attribute.\<close>

record table_def =
  td_attribute :: "string option"
  td_columns :: "(string \<times> string option) list"

definition tdb_read_attribute ::
  "string list option \<Rightarrow> string list option \<Rightarrow> ha_table_option_struct \<Rightarrow> table_def option
     \<Rightarrow> bool \<times> string option \<times> ha_table_option_struct" where
  "tdb_read_attribute cn isn defaults tbl =
     (case tbl of
        None \<Rightarrow> (True, None, defaults)
      | Some t \<Rightarrow>
          (case td_attribute t of
             None \<Rightarrow> (True, None, defaults)
           | Some a \<Rightarrow> if a = [] then (True, None, defaults) else parse_attributes (Some a) cn isn True defaults))"

definition tdb_table_options ::
  "string list option \<Rightarrow> string list option \<Rightarrow> ha_table_option_struct \<Rightarrow> table_def option \<Rightarrow> ha_table_option_struct" where
  "tdb_table_options cn isn defaults tbl =
     (case tdb_read_attribute cn isn defaults tbl of (ok, _, opts) \<Rightarrow> if ok then opts else defaults)"

definition tdb_table_options_error ::
  "string list option \<Rightarrow> string list option \<Rightarrow> ha_table_option_struct \<Rightarrow> table_def option \<Rightarrow> bool \<times> string option" where
  "tdb_table_options_error cn isn defaults tbl =
     (case tdb_read_attribute cn isn defaults tbl of (ok, why, _) \<Rightarrow> if ok then (True, None) else (False, why))"

definition column_attribute :: "table_def \<Rightarrow> nat \<Rightarrow> string option" where
  "column_attribute t i =
     (case snd (td_columns t ! i) of None \<Rightarrow> None | Some a \<Rightarrow> if a = [] then None else Some a)"

definition tdb_field_is_ttl_source :: "table_def option \<Rightarrow> nat \<Rightarrow> bool" where
  "tdb_field_is_ttl_source tbl i =
     (case tbl of
        None \<Rightarrow> False
      | Some t \<Rightarrow>
          if length (td_columns t) \<le> i then False
          else (case column_attribute t i of
                  None \<Rightarrow> False
                | Some a \<Rightarrow> (case parse_column_attributes (Some a) True False of (ok, _, is_ttl) \<Rightarrow> ok \<and> is_ttl)))"

fun count_ttl_columns :: "table_def \<Rightarrow> nat list \<Rightarrow> nat \<Rightarrow> string + nat" where
  "count_ttl_columns t [] n = Inr n"
| "count_ttl_columns t (i # is) n =
     (case column_attribute t i of
        None \<Rightarrow> count_ttl_columns t is n
      | Some a \<Rightarrow>
          (case parse_column_attributes (Some a) True False of
             (ok, why, is_ttl) \<Rightarrow>
               if \<not> ok
               then Inl (''column '' @ quoted (fst (td_columns t ! i)) @ '': '' @ (case why of None \<Rightarrow> [] | Some w \<Rightarrow> w))
               else count_ttl_columns t is (if is_ttl then Suc n else n)))"

definition tdb_column_options_error :: "table_def option \<Rightarrow> bool \<times> string option" where
  "tdb_column_options_error tbl =
     (case tbl of
        None \<Rightarrow> (True, None)
      | Some t \<Rightarrow>
          (case count_ttl_columns t [0..<length (td_columns t)] 0 of
             Inl e \<Rightarrow> (False, Some e)
           | Inr n \<Rightarrow>
               if 1 < n then (False, Some ''more than one column is named as the row expiry source'') else (True, None)))"

section \<open>Meta records of a table's column family\<close>

text \<open>One write, and one read, in a transaction of its own.\<close>

definition put_alone :: "'l tdb_lib \<Rightarrow> cf \<Rightarrow> bytes \<Rightarrow> bytes \<Rightarrow> 'l \<Rightarrow> 'l" where
  "put_alone lib c k v l =
     (case txn_begin lib l of
        (rc, out, l1) \<Rightarrow>
          (case (if rc = TDB_SUCCESS then out else None) of
             None \<Rightarrow> l1
           | Some h \<Rightarrow>
               (case txn_put lib h c k v TIDESDB_TTL_NONE l1 of
                  (prc, l2) \<Rightarrow>
                    txn_free lib h (if prc = TDB_SUCCESS then snd (txn_commit lib h l2) else snd (txn_rollback lib h l2)))))"

definition get_alone :: "'l tdb_lib \<Rightarrow> cf \<Rightarrow> bytes \<Rightarrow> 'l \<Rightarrow> bytes option \<times> 'l" where
  "get_alone lib c k l =
     (case txn_begin lib l of
        (rc, out, l1) \<Rightarrow>
          (case (if rc = TDB_SUCCESS then out else None) of
             None \<Rightarrow> (None, l1)
           | Some h \<Rightarrow>
               (case txn_get lib h c k l1 of
                  (grc, v, l2) \<Rightarrow>
                    (if grc = TDB_SUCCESS then v else None, txn_free lib h (snd (txn_rollback lib h l2))))))"

definition OPTIONS_META_KEY :: bytes where "OPTIONS_META_KEY = KEY_NS_META # bytes_of ''OPTS''"
definition KEYSHAPE_META_PREFIX :: bytes where "KEYSHAPE_META_PREFIX = KEY_NS_META # bytes_of ''KSHP''"
definition KEYSHAPE_VERSION :: u8 where "KEYSHAPE_VERSION = 1"

definition tdb_key_shape_meta_key :: "string \<Rightarrow> bytes" where
  "tdb_key_shape_meta_key index_name = KEYSHAPE_META_PREFIX @ bytes_of index_name"

definition key_shape_value :: "key_info \<Rightarrow> bytes" where
  "key_shape_value ki =
     (let n = of_nat (length (key_parts ki)) :: u16
      in KEYSHAPE_VERSION # le_enc 2 n @
         map (\<lambda>kp. if is_nullable (kp_field kp) then 1 else 0) (take (unat n) (key_parts ki)))"

definition tdb_key_shape_store :: "'l tdb_lib \<Rightarrow> cf option \<Rightarrow> string \<Rightarrow> key_info \<Rightarrow> 'l \<Rightarrow> 'l" where
  "tdb_key_shape_store lib dcf index_name ki l =
     (case dcf of
        None \<Rightarrow> l
      | Some c \<Rightarrow>
          if index_name = [] then l else put_alone lib c (tdb_key_shape_meta_key index_name) (key_shape_value ki) l)"

definition key_shape_decode :: "bytes \<Rightarrow> bytes option" where
  "key_shape_decode val =
     (if length val < 3 \<or> hd val \<noteq> KEYSHAPE_VERSION then None
      else let n = unat (le_dec 2 (drop 1 val) :: u16)
        in if length val < 3 + n then None else Some (take n (drop 3 val)))"

definition tdb_key_shape_load :: "'l tdb_lib \<Rightarrow> cf option \<Rightarrow> string \<Rightarrow> 'l \<Rightarrow> (bool \<times> bytes) \<times> 'l" where
  "tdb_key_shape_load lib dcf index_name l =
     (case dcf of
        None \<Rightarrow> ((False, []), l)
      | Some c \<Rightarrow>
          if index_name = [] then ((False, []), l)
          else (case get_alone lib c (tdb_key_shape_meta_key index_name) l of
                  (val, l') \<Rightarrow>
                    (case Option.bind val key_shape_decode of
                       None \<Rightarrow> ((False, []), l')
                     | Some out \<Rightarrow> ((True, out), l'))))"

definition tdb_table_options_store ::
  "'l tdb_lib \<Rightarrow> string list option \<Rightarrow> string list option \<Rightarrow> cf option \<Rightarrow> ha_table_option_struct option \<Rightarrow> 'l \<Rightarrow> 'l" where
  "tdb_table_options_store lib cn isn cf opts l =
     (case (cf, opts) of
        (Some c, Some os) \<Rightarrow> put_alone lib c OPTIONS_META_KEY (bytes_of (serialize_attributes os cn isn)) l
      | _ \<Rightarrow> l)"

definition zero_options :: ha_table_option_struct where
  "zero_options =
     \<lparr>btree_klog_block_size = 0, level_size_ratio = 0, min_levels = 0, dividing_level_offset = 0, bloom_fpr = 0,
      l1_file_count_trigger = 0, compression = 0, isolation_level = 0, bloom_filter = False, keep_values_inline = False,
      ttl = 0, encrypted = False, encryption_key_id = 0, tombstone_density_trigger = 0, tombstone_density_min_entries = 0\<rparr>"

definition tdb_table_options_load ::
  "'l tdb_lib \<Rightarrow> string list option \<Rightarrow> string list option \<Rightarrow> cf option \<Rightarrow> ha_table_option_struct \<Rightarrow> 'l
     \<Rightarrow> bool \<times> ha_table_option_struct \<times> 'l" where
  "tdb_table_options_load lib cn isn cf out l =
     (case cf of
        None \<Rightarrow> (False, out, l)
      | Some c \<Rightarrow>
          (case get_alone lib c OPTIONS_META_KEY l of
             (val, l') \<Rightarrow>
               (case val of
                  None \<Rightarrow> (False, out, l')
                | Some v \<Rightarrow>
                    if v = [] then (False, out, l')
                    else (case parse_attributes (Some (str_of v)) cn isn True zero_options of
                            (ok, _, parsed) \<Rightarrow> if ok then (True, parsed, l') else (False, out, l')))))"

section \<open>Lemmas\<close>

lemma put_alone_db:
  assumes "lib_stores lib s" "lib_owns lib g D" "lib_reliable lib g good" "good l"
  shows "good (put_alone lib c k v l) \<and> s_db s (put_alone lib c k v l) = (s_db s l)((c, k) \<mapsto> v)"
proof -
  obtain h l1 where b: "txn_begin lib l = (TDB_SUCCESS, Some h, l1)" "good l1" "h \<in> g_live g l1" "sem_fresh s h l l1"
    using begin_reliable [OF assms] .
  obtain l2 where p: "txn_put lib h c k v TIDESDB_TTL_NONE l1 = (TDB_SUCCESS, l2)" "good l2"
    using lib_reliable_rules(9) [OF assms(3) b(2,3)] by blast
  have "own_txn g h l1 l2"
    using lib_owns_txn [OF assms(2)] p(1) by (metis snd_conv)
  then have "h \<in> g_live g l2"
    using b(3) by (simp add: own_txn_def same_handles_def)
  then obtain l3 where m: "txn_commit lib h l2 = (TDB_SUCCESS, l3)" "good l3"
    using lib_reliable_rules(7) [OF assms(3) p(2)] by blast
  have "put_alone lib c k v l = txn_free lib h l3"
    by (simp add: put_alone_def b(1) p(1) m(1))
  moreover have "s_db s l3 = (s_db s l)((c, k) \<mapsto> v)"
    using lib_stores_txn(9) [OF assms(1) m(1)] lib_stores_txn(15) [OF assms(1) p(1)] b(4)
    by (auto simp: sem_commit_def sem_write_def sem_content_def sem_fresh_def sem_frame_def c_write_def apply_writes_def)
  moreover have "s_db s (txn_free lib h l3) = s_db s l3"
    using lib_stores_txn(6) [OF assms(1), of h l3] by (simp add: sem_frame_def)
  ultimately show ?thesis
    using lib_reliable_rules(3) [OF assms(3) m(2)] by simp
qed

lemma get_alone_db:
  assumes "lib_stores lib s" "lib_owns lib g D" "lib_reliable lib g good" "good l"
  shows "\<exists>l'. get_alone lib c k l = (s_db s l (c, k), l') \<and> s_db s l' = s_db s l \<and> good l'"
proof -
  obtain h l1 where b: "txn_begin lib l = (TDB_SUCCESS, Some h, l1)" "good l1" "h \<in> g_live g l1" "sem_fresh s h l l1"
    using begin_reliable [OF assms] .
  obtain rc v l2 where q: "txn_get lib h c k l1 = (rc, v, l2)" "rc \<in> {TDB_SUCCESS, TDB_ERR_NOT_FOUND}" "good l2"
    using lib_reliable_rules(12) [OF assms(3) b(2,3)] by blast
  have "own_txn g h l1 l2"
    using lib_owns_txn [OF assms(2)] q(1) by (metis snd_conv)
  then have "h \<in> g_live g l2"
    using b(3) by (simp add: own_txn_def same_handles_def)
  then obtain l3 where r: "txn_rollback lib h l2 = (TDB_SUCCESS, l3)" "good l3"
    using lib_reliable_rules(8) [OF assms(3) q(3)] by blast
  have v: "fst (s_txn s l1 h) = s_db s l" "s_db s l1 = s_db s l"
    using b(4) by (simp_all add: sem_fresh_def sem_frame_def)
  have "(if rc = TDB_SUCCESS then v else None) = s_db s l (c, k)"
    using q(1,2) v lib_stores_txn(13,14) [OF assms(1), of h c k l1] by auto
  moreover have "s_db s l2 = s_db s l" "s_db s l3 = s_db s l2" "s_db s (txn_free lib h l3) = s_db s l3"
    using lib_stores_txn(12) [OF assms(1) q(1)] lib_stores_txn(7) [OF assms(1) r(1)] lib_stores_txn(6) [OF assms(1), of h l3] v(2)
    by (simp_all add: sem_same_def sem_frame_def)
  ultimately show ?thesis
    using lib_reliable_rules(3) [OF assms(3) r(2)] by (simp add: get_alone_def b(1) q(1) r(1))
qed

lemma key_shape_decode_value:
  assumes "length (key_parts ki) < 2 ^ 16"
  shows "key_shape_decode (key_shape_value ki) = Some (map (\<lambda>kp. if is_nullable (kp_field kp) then 1 else 0) (key_parts ki))"
proof -
  have n: "unat (of_nat (length (key_parts ki)) :: u16) = length (key_parts ki)"
    using assms by (simp add: unat_of_nat)
  have "(le_dec 2 (le_enc 2 (of_nat (length (key_parts ki)) :: u16) @ r) :: u16) = of_nat (length (key_parts ki))" for r
    by (rule le_dec_le_enc) simp
  then show ?thesis
    by (simp add: key_shape_decode_def key_shape_value_def Let_def n)
qed

lemma meta_keys_differ:
  "OPTIONS_META_KEY \<noteq> tdb_key_shape_meta_key n" "tdb_key_shape_meta_key n = tdb_key_shape_meta_key n' \<longleftrightarrow> n = n'"
  "hd OPTIONS_META_KEY = KEY_NS_META" "hd (tdb_key_shape_meta_key n) = KEY_NS_META"
proof -
  have "bytes_of ''OPTS'' @ [] \<noteq> bytes_of ''KSHP'' @ bytes_of n"
    unfolding bytes_of_simps(5) [symmetric] bytes_of_simps(3) [symmetric] bytes_of_inject by simp
  then show "OPTIONS_META_KEY \<noteq> tdb_key_shape_meta_key n"
    by (simp add: OPTIONS_META_KEY_def tdb_key_shape_meta_key_def KEYSHAPE_META_PREFIX_def)
qed (simp_all add: OPTIONS_META_KEY_def tdb_key_shape_meta_key_def KEYSHAPE_META_PREFIX_def)

definition store_shapes :: "'l tdb_lib \<Rightarrow> cf \<Rightarrow> (string \<times> key_info) list \<Rightarrow> 'l \<Rightarrow> 'l" where
  "store_shapes lib c shapes l = fold (\<lambda>(n, ki). tdb_key_shape_store lib (Some c) n ki) shapes l"

lemma store_shapes_db:
  assumes "lib_stores lib s" "lib_owns lib g D" "lib_reliable lib g good" "good l" "[] \<notin> fst ` set shapes"
    "distinct (map fst shapes)"
  shows "good (store_shapes lib c shapes l) \<and>
    (\<forall>(n, ki) \<in> set shapes. s_db s (store_shapes lib c shapes l) (c, tdb_key_shape_meta_key n) = Some (key_shape_value ki)) \<and>
    (\<forall>p. p \<notin> (\<lambda>e. (c, tdb_key_shape_meta_key (fst e))) ` set shapes \<longrightarrow> s_db s (store_shapes lib c shapes l) p = s_db s l p)"
  using assms(4,5,6)
proof (induction shapes arbitrary: l)
  case (Cons e shapes)
  obtain n ki where e: "e = (n, ki)"
    by (metis prod.exhaust)
  define l1 where "l1 = put_alone lib c (tdb_key_shape_meta_key n) (key_shape_value ki) l"
  have l1: "good l1" "s_db s l1 = (s_db s l)((c, tdb_key_shape_meta_key n) \<mapsto> key_shape_value ki)"
    using put_alone_db [OF assms(1-3) Cons.prems(1)] by (simp_all add: l1_def)
  have step: "store_shapes lib c (e # shapes) l = store_shapes lib c shapes l1"
    using Cons.prems(2) by (auto simp: store_shapes_def e tdb_key_shape_store_def l1_def)
  have "good (store_shapes lib c shapes l1)"
    "\<forall>(n, ki) \<in> set shapes. s_db s (store_shapes lib c shapes l1) (c, tdb_key_shape_meta_key n) = Some (key_shape_value ki)"
    "\<forall>p. p \<notin> (\<lambda>e. (c, tdb_key_shape_meta_key (fst e))) ` set shapes \<longrightarrow> s_db s (store_shapes lib c shapes l1) p = s_db s l1 p"
    using Cons.IH [OF l1(1)] Cons.prems by auto
  moreover have "s_db s (store_shapes lib c shapes l1) (c, tdb_key_shape_meta_key n) = Some (key_shape_value ki)"
    if "\<forall>p. p \<notin> (\<lambda>e. (c, tdb_key_shape_meta_key (fst e))) ` set shapes \<longrightarrow> s_db s (store_shapes lib c shapes l1) p = s_db s l1 p"
  proof -
    have "(c, tdb_key_shape_meta_key n) \<notin> (\<lambda>e. (c, tdb_key_shape_meta_key (fst e))) ` set shapes"
      using Cons.prems(3) by (auto simp: e meta_keys_differ image_iff)
    then show ?thesis
      using that by (simp add: l1(2))
  qed
  ultimately show ?case
    unfolding step by (auto simp: e l1(2))
qed (simp add: store_shapes_def)

section \<open>Properties\<close>


definition demo_shapes :: "(string \<times> key_info) list" where
  "demo_shapes = [(''idx'', \<lparr>key_parts = [\<lparr>kp_field = demo_int\<lparr>is_nullable := True\<rparr>, kp_fieldnr = 1, kp_length = 4, kp_reverse = False\<rparr>],
     key_nosame = True, key_fulltext = False, key_spatial = False, key_alg = HA_KEY_ALG_BTREE\<rparr>)]"


end
