(* ===== verification/Fk_Catalog.thy ===== *)
theory Fk_Catalog
  imports Tdb_Scan Cf_Name Table_Meta "HOL-Library.Monad_Syntax"
begin

text \<open>
  The catalog of foreign keys, \<^verbatim>\<open>src/tidesdb/src/handler/ha_tidesdb_fk.cc\<close> (first half): the record a constraint is
  stored as, its two keys, and the operations on the catalog -- written at create, moved at rename, purged at drop and
  loaded at open. What the server says of a table is the record \<open>fk_table\<close>; its decoding of file names is a parameter.
\<close>

section \<open>Records\<close>

definition fk_put_bytes :: "bytes \<Rightarrow> bytes" where
  "fk_put_bytes b = le_enc 2 (of_nat (length b) :: u16) @ b"

definition fk_get_bytes :: "bytes \<Rightarrow> (bytes \<times> bytes) option" where
  "fk_get_bytes p =
     (if length p < 2 then None
      else let n = unat (le_dec 2 p :: u16); p' = drop 2 p
        in if length p' < n then None else Some (take n p', drop n p'))"

definition fk_put_str :: "string \<Rightarrow> bytes" where
  "fk_put_str s = fk_put_bytes (bytes_of s)"

definition fk_get_str :: "bytes \<Rightarrow> (string \<times> bytes) option" where
  "fk_get_str p = map_option (\<lambda>(b, r). (str_of b, r)) (fk_get_bytes p)"

definition fk_put_names :: "string list \<Rightarrow> bytes" where
  "fk_put_names v = le_enc 2 (of_nat (length v) :: u16) @ concat (map fk_put_str v)"

fun fk_get_n :: "nat \<Rightarrow> bytes \<Rightarrow> (string list \<times> bytes) option" where
  "fk_get_n 0 p = Some ([], p)"
| "fk_get_n (Suc n) p =
     (case fk_get_str p of
        None \<Rightarrow> None
      | Some (s, p1) \<Rightarrow> (case fk_get_n n p1 of None \<Rightarrow> None | Some (v, p2) \<Rightarrow> Some (s # v, p2)))"

definition fk_get_names :: "bytes \<Rightarrow> (string list \<times> bytes) option" where
  "fk_get_names p = (if length p < 2 then None else fk_get_n (unat (le_dec 2 p :: u16)) (drop 2 p))"

record fk_catalog_entry =
  fe_name :: string
  fe_child_cf :: string
  fe_child_db :: string
  fe_child_table :: string
  fe_child_columns :: "string list"
  fe_child_nullable :: bytes
  fe_ref_db :: string
  fe_ref_table :: string
  fe_parent_cf :: string
  fe_ref_columns :: "string list"
  fe_child_index_name :: string
  fe_parent_index_name :: string
  fe_parent_nullable :: bytes
  fe_parent_is_pk :: u8
  fe_on_delete :: u8
  fe_on_update :: u8

definition FK_SER_VERSION :: u8 where "FK_SER_VERSION = 2"

definition fk_serialize :: "fk_catalog_entry \<Rightarrow> bytes" where
  "fk_serialize e =
     FK_SER_VERSION # fk_put_str (fe_name e) @ fk_put_str (fe_child_cf e) @ fk_put_str (fe_child_db e) @
     fk_put_str (fe_child_table e) @ fk_put_names (fe_child_columns e) @ fk_put_str (fe_ref_db e) @
     fk_put_str (fe_ref_table e) @ fk_put_str (fe_parent_cf e) @ fk_put_names (fe_ref_columns e) @
     fk_put_str (fe_child_index_name e) @ fk_put_str (fe_parent_index_name e) @
     [fe_parent_is_pk e, fe_on_delete e, fe_on_update e] @
     fk_put_bytes (fe_child_nullable e) @ fk_put_bytes (fe_parent_nullable e)"

definition fk_get_actions :: "bytes \<Rightarrow> ((u8 \<times> u8 \<times> u8) \<times> bytes) option" where
  "fk_get_actions p = (if length p < 3 then None else Some ((p ! 0, p ! 1, p ! 2), drop 3 p))"

definition fk_deserialize :: "bytes \<Rightarrow> fk_catalog_entry option" where
  "fk_deserialize d =
     (if d = [] \<or> hd d \<noteq> FK_SER_VERSION then None
      else do {
        (name, p) \<leftarrow> fk_get_str (tl d);
        (child_cf, p) \<leftarrow> fk_get_str p;
        (child_db, p) \<leftarrow> fk_get_str p;
        (child_table, p) \<leftarrow> fk_get_str p;
        (child_columns, p) \<leftarrow> fk_get_names p;
        (ref_db, p) \<leftarrow> fk_get_str p;
        (ref_table, p) \<leftarrow> fk_get_str p;
        (parent_cf, p) \<leftarrow> fk_get_str p;
        (ref_columns, p) \<leftarrow> fk_get_names p;
        (child_index_name, p) \<leftarrow> fk_get_str p;
        (parent_index_name, p) \<leftarrow> fk_get_str p;
        ((parent_is_pk, on_delete, on_update), p) \<leftarrow> fk_get_actions p;
        (child_nullable, p) \<leftarrow> fk_get_bytes p;
        (parent_nullable, p) \<leftarrow> fk_get_bytes p;
        Some \<lparr>fe_name = name, fe_child_cf = child_cf, fe_child_db = child_db, fe_child_table = child_table,
                fe_child_columns = child_columns, fe_child_nullable = child_nullable, fe_ref_db = ref_db,
                fe_ref_table = ref_table, fe_parent_cf = parent_cf, fe_ref_columns = ref_columns,
                fe_child_index_name = child_index_name, fe_parent_index_name = parent_index_name,
                fe_parent_nullable = parent_nullable, fe_parent_is_pk = parent_is_pk, fe_on_delete = on_delete,
                fe_on_update = on_update\<rparr>
      })"

section \<open>Keys\<close>

definition FK_CATALOG_CF :: string where "FK_CATALOG_CF = ''__tidesdb_fk_catalog''"
definition FK_REC_CHILD :: u8 where "FK_REC_CHILD = 0x63"
definition FK_REC_PARENT :: u8 where "FK_REC_PARENT = 0x70"

definition fk_child_key :: "string \<Rightarrow> string \<Rightarrow> bytes" where
  "fk_child_key child_cf name = FK_REC_CHILD # bytes_of child_cf @ [0] @ bytes_of name"

definition fk_parent_key :: "string \<Rightarrow> string \<Rightarrow> string \<Rightarrow> bytes" where
  "fk_parent_key parent_cf child_cf name =
     FK_REC_PARENT # bytes_of parent_cf @ [0] @ bytes_of child_cf @ [0] @ bytes_of name"

section \<open>Tables\<close>

text \<open>A table: names, columns with their nullability, keys as a name and parts, each a column and whether it is descending,
  and the number of the primary key.\<close>

record fk_table =
  ft_db :: string
  ft_name :: string
  ft_fields :: "(string \<times> bool) list"
  ft_keys :: "(string \<times> (string \<times> bool) list) list"
  ft_primary :: "nat option"

fun first_at :: "('a \<Rightarrow> bool) \<Rightarrow> 'a list \<Rightarrow> nat \<Rightarrow> nat option" where
  "first_at q [] i = None"
| "first_at q (x # xs) i = (if q x then Some i else first_at q xs (Suc i))"

definition fk_find_covering_index :: "fk_table \<Rightarrow> string list \<Rightarrow> nat option" where
  "fk_find_covering_index t cols =
     first_at (\<lambda>k. length cols \<le> length (snd k) \<and> list_all2 (\<lambda>part c. fst part = c) (take (length cols) (snd k)) cols)
       (ft_keys t) 0"

definition fk_field_index :: "fk_table \<Rightarrow> string \<Rightarrow> nat option" where
  "fk_field_index t col = first_at (\<lambda>f. fst f = col) (ft_fields t) 0"

section \<open>Walking the catalog\<close>

definition fk_catalog_cf :: "'l tdb_lib \<Rightarrow> 'l \<Rightarrow> cf option \<times> 'l" where
  "fk_catalog_cf lib l =
     (case get_column_family lib FK_CATALOG_CF l of
        Some c \<Rightarrow> (Some c, l)
      | None \<Rightarrow> (case create_column_family lib FK_CATALOG_CF l of (_, l1) \<Rightarrow> (get_column_family lib FK_CATALOG_CF l1, l1)))"

definition fk_walk :: "'l tdb_lib \<Rightarrow> txn \<Rightarrow> cf \<Rightarrow> (bytes \<Rightarrow> bytes \<Rightarrow> 'a \<Rightarrow> 'a) \<Rightarrow> 'a \<Rightarrow> 'l \<Rightarrow> ('a \<times> 'l) option" where
  "fk_walk lib h c f acc l =
     (case iter_new lib h c l of
        (rc, out, l1) \<Rightarrow>
          (case (if rc = TDB_SUCCESS then out else None) of
             None \<Rightarrow> Some (acc, l1)
           | Some it \<Rightarrow>
               map_option (\<lambda>(a, l2). (a, iter_free lib it l2)) (scan_entries lib it f acc (iter_seek lib it [0] l1))))"

definition child_record :: "bytes \<Rightarrow> bytes \<Rightarrow> fk_catalog_entry option" where
  "child_record k v = (if k \<noteq> [] \<and> hd k = FK_REC_CHILD then fk_deserialize v else None)"

section \<open>Rename\<close>

definition rename_entry :: "string \<Rightarrow> string \<Rightarrow> string \<Rightarrow> string \<Rightarrow> fk_catalog_entry \<Rightarrow> fk_catalog_entry" where
  "rename_entry old_cf new_cf new_db new_table e =
     (let e1 = (if fe_child_cf e = old_cf
                then e\<lparr>fe_child_cf := new_cf, fe_child_db := new_db, fe_child_table := new_table\<rparr> else e)
      in if fe_parent_cf e = old_cf
         then e1\<lparr>fe_parent_cf := new_cf, fe_ref_db := new_db, fe_ref_table := new_table\<rparr> else e1)"

definition entry_keys :: "fk_catalog_entry \<Rightarrow> bytes list" where
  "entry_keys e = [fk_child_key (fe_child_cf e) (fe_name e), fk_parent_key (fe_parent_cf e) (fe_child_cf e) (fe_name e)]"

definition entry_records :: "fk_catalog_entry \<Rightarrow> (bytes \<times> bytes) list" where
  "entry_records e = map (\<lambda>k. (k, fk_serialize e)) (entry_keys e)"

definition rename_visit ::
  "string \<Rightarrow> string \<Rightarrow> string \<Rightarrow> string \<Rightarrow> bytes \<Rightarrow> bytes \<Rightarrow> bytes list \<times> (bytes \<times> bytes) list
     \<Rightarrow> bytes list \<times> (bytes \<times> bytes) list" where
  "rename_visit old_cf new_cf new_db new_table k v acc =
     (case child_record k v of
        None \<Rightarrow> acc
      | Some e \<Rightarrow>
          if fe_child_cf e = old_cf \<or> fe_parent_cf e = old_cf
          then (fst acc @ entry_keys e, snd acc @ entry_records (rename_entry old_cf new_cf new_db new_table e))
          else acc)"

definition delete_keys :: "'l tdb_lib \<Rightarrow> txn \<Rightarrow> cf \<Rightarrow> bytes list \<Rightarrow> 'l \<Rightarrow> 'l" where
  "delete_keys lib h c ks l = fold (\<lambda>k l. snd (txn_delete lib h c k l)) ks l"

definition put_records :: "'l tdb_lib \<Rightarrow> txn \<Rightarrow> cf \<Rightarrow> (bytes \<times> bytes) list \<Rightarrow> 'l \<Rightarrow> 'l" where
  "put_records lib h c kvs l = fold (\<lambda>(k, v) l. snd (txn_put lib h c k v TIDESDB_TTL_NONE l)) kvs l"

text \<open>\<open>filename_to_tablename\<close> is the server's.\<close>

definition fk_rename_catalog ::
  "'l tdb_lib \<Rightarrow> (string \<Rightarrow> string) \<Rightarrow> string \<Rightarrow> string \<Rightarrow> 'l \<Rightarrow> (ha_rc \<times> 'l) option" where
  "fk_rename_catalog lib filename_to_tablename from to l =
     (let old_cf = to_cf_name from; new_cf = to_cf_name to
      in if old_cf = new_cf then Some (HA_OK, l)
         else case get_column_family lib FK_CATALOG_CF l of
           None \<Rightarrow> Some (HA_OK, l)
         | Some c \<Rightarrow>
             let dest = split_table_path to;
                 new_db = filename_to_tablename (tp_db dest);
                 new_table = filename_to_tablename (tp_table dest)
             in case txn_begin lib l of
                  (brc, out, l1) \<Rightarrow>
                    (case (if brc = TDB_SUCCESS then out else None) of
                       None \<Rightarrow> Some (HA_OK, l1)
                     | Some h \<Rightarrow>
                         (case fk_walk lib h c (rename_visit old_cf new_cf new_db new_table) ([], []) l1 of
                            None \<Rightarrow> None
                          | Some ((stale, fresh), l2) \<Rightarrow>
                              (case txn_commit lib h (put_records lib h c fresh (delete_keys lib h c stale l2)) of
                                 (crc, l3) \<Rightarrow>
                                   Some (if crc \<noteq> TDB_SUCCESS
                                         then (HA_ERR_GENERIC, txn_free lib h (snd (txn_rollback lib h l3)))
                                         else (HA_OK, txn_free lib h l3))))))"

section \<open>Create\<close>

text \<open>The referential actions of the dictionary and of the server's parser; the parser's numbers are a parameter.\<close>

datatype dd_rule = RULE_NO_ACTION | RULE_RESTRICT | RULE_CASCADE | RULE_SET_NULL | RULE_SET_DEFAULT

datatype fk_option =
  FK_OPTION_UNDEF | FK_OPTION_RESTRICT | FK_OPTION_CASCADE | FK_OPTION_SET_NULL | FK_OPTION_NO_ACTION | FK_OPTION_DEFAULT

fun tdb_rule_to_fk_option :: "(fk_option \<Rightarrow> u8) \<Rightarrow> dd_rule \<Rightarrow> u8" where
  "tdb_rule_to_fk_option code RULE_RESTRICT = code FK_OPTION_RESTRICT"
| "tdb_rule_to_fk_option code RULE_CASCADE = code FK_OPTION_CASCADE"
| "tdb_rule_to_fk_option code RULE_SET_NULL = code FK_OPTION_SET_NULL"
| "tdb_rule_to_fk_option code RULE_SET_DEFAULT = code FK_OPTION_DEFAULT"
| "tdb_rule_to_fk_option code RULE_NO_ACTION = code FK_OPTION_NO_ACTION"

record share_foreign_key =
  fi_name :: string
  fi_delete_rule :: dd_rule
  fi_update_rule :: dd_rule
  fi_referenced_db :: string
  fi_referenced_table :: string
  fi_columns :: "(string \<times> string) list"
  fi_unique_constraint :: string

record tdb_fk_spec =
  sp_name :: string
  sp_on_delete :: u8
  sp_on_update :: u8
  sp_ref_db :: string
  sp_ref_table :: string
  sp_child_columns :: "string list"
  sp_ref_columns :: "string list"
  sp_parent_index_name :: string

definition tdb_fk_extract_specs :: "(fk_option \<Rightarrow> u8) \<Rightarrow> share_foreign_key list \<Rightarrow> tdb_fk_spec list" where
  "tdb_fk_extract_specs code fks =
     map (\<lambda>fk. \<lparr>sp_name = fi_name fk, sp_on_delete = tdb_rule_to_fk_option code (fi_delete_rule fk),
               sp_on_update = tdb_rule_to_fk_option code (fi_update_rule fk), sp_ref_db = fi_referenced_db fk,
               sp_ref_table = fi_referenced_table fk, sp_child_columns = map fst (fi_columns fk),
               sp_ref_columns = map snd (fi_columns fk), sp_parent_index_name = fi_unique_constraint fk\<rparr>) fks"

definition tdb_fk_parent_key_shape :: "'l tdb_lib \<Rightarrow> string \<Rightarrow> string \<Rightarrow> 'l \<Rightarrow> bytes \<times> 'l" where
  "tdb_fk_parent_key_shape lib parent_cf parent_index_name l =
     (if parent_cf = [] \<or> parent_index_name = [] then ([], l)
      else case get_column_family lib parent_cf l of
        None \<Rightarrow> ([], l)
      | Some c \<Rightarrow> (case tdb_key_shape_load lib (Some c) parent_index_name l of ((_, out), l') \<Rightarrow> (out, l')))"

definition TDB_PRIMARY_KEY_NAME :: string where "TDB_PRIMARY_KEY_NAME = ''PRIMARY''"

text \<open>The entry of one constraint; none if its columns have no index or a descending one.\<close>

definition spec_entry :: "'l tdb_lib \<Rightarrow> string \<Rightarrow> fk_table \<Rightarrow> tdb_fk_spec \<Rightarrow> string \<Rightarrow> 'l \<Rightarrow> fk_catalog_entry option \<times> 'l" where
  "spec_entry lib child_cf t spec name l =
     (let cols = sp_child_columns spec;
          ref_db = (if sp_ref_db spec \<noteq> [] then sp_ref_db spec else ft_db t);
          parent_cf = to_cf_name (''./'' @ ref_db @ ''/'' @ sp_ref_table spec)
      in case fk_find_covering_index t cols of
           None \<Rightarrow> (None, l)
         | Some cidx \<Rightarrow>
             if list_ex snd (take (length cols) (snd (ft_keys t ! cidx))) then (None, l)
             else let pin = sp_parent_index_name spec;
                      is_pk = (pin = [] \<or> eq_nocase pin TDB_PRIMARY_KEY_NAME);
                      (parent_nullable, l1) = (if is_pk then ([], l) else tdb_fk_parent_key_shape lib parent_cf pin l)
               in (Some \<lparr>fe_name = name, fe_child_cf = child_cf, fe_child_db = ft_db t, fe_child_table = ft_name t,
                         fe_child_columns = cols,
                         fe_child_nullable = map (\<lambda>c. case fk_field_index t c of
                            None \<Rightarrow> 0 | Some i \<Rightarrow> if snd (ft_fields t ! i) then 1 else 0) cols,
                         fe_ref_db = ref_db, fe_ref_table = sp_ref_table spec, fe_parent_cf = parent_cf,
                         fe_ref_columns = sp_ref_columns spec, fe_child_index_name = fst (ft_keys t ! cidx),
                         fe_parent_index_name = pin, fe_parent_nullable = parent_nullable,
                         fe_parent_is_pk = (if is_pk then 1 else 0), fe_on_delete = sp_on_delete spec,
                         fe_on_update = sp_on_update spec\<rparr>, l1))"

fun spec_entries :: "'l tdb_lib \<Rightarrow> string \<Rightarrow> fk_table \<Rightarrow> tdb_fk_spec list \<Rightarrow> nat \<Rightarrow> 'l \<Rightarrow> fk_catalog_entry list option \<times> 'l" where
  "spec_entries lib child_cf t [] anon l = (Some [], l)"
| "spec_entries lib child_cf t (spec # sps) anon l =
     (let (name, anon1) =
            (if sp_name spec \<noteq> [] then (sp_name spec, anon)
             else (take 63 (ft_name t @ ''_ibfk_'' @ nat_to_string (Suc anon)), Suc anon))
      in case spec_entry lib child_cf t spec name l of
           (None, l1) \<Rightarrow> (None, l1)
         | (Some e, l1) \<Rightarrow>
             (case spec_entries lib child_cf t sps anon1 l1 of
                (None, l2) \<Rightarrow> (None, l2)
              | (Some es, l2) \<Rightarrow> (Some (e # es), l2)))"

fun put_all :: "'l tdb_lib \<Rightarrow> txn \<Rightarrow> cf \<Rightarrow> (bytes \<times> bytes) list \<Rightarrow> 'l \<Rightarrow> tdb_rc \<times> 'l" where
  "put_all lib h c [] l = (TDB_SUCCESS, l)"
| "put_all lib h c ((k, v) # kvs) l =
     (case txn_put lib h c k v TIDESDB_TTL_NONE l of
        (rc, l1) \<Rightarrow> if rc \<noteq> TDB_SUCCESS then (rc, l1) else put_all lib h c kvs l1)"

definition fk_persist_defs :: "'l tdb_lib \<Rightarrow> string \<Rightarrow> fk_table \<Rightarrow> tdb_fk_spec list \<Rightarrow> 'l \<Rightarrow> ha_rc \<times> 'l" where
  "fk_persist_defs lib path t sps l =
     (if sps = [] then (HA_OK, l)
      else case spec_entries lib (to_cf_name path) t sps 0 l of
        (None, l1) \<Rightarrow> (HA_ERR_UNSUPPORTED, l1)
      | (Some es, l1) \<Rightarrow>
          (case fk_catalog_cf lib l1 of
             (None, l2) \<Rightarrow> (HA_ERR_GENERIC, l2)
           | (Some c, l2) \<Rightarrow>
               (case txn_begin lib l2 of
                  (brc, out, l3) \<Rightarrow>
                    (case (if brc = TDB_SUCCESS then out else None) of
                       None \<Rightarrow> (HA_ERR_GENERIC, l3)
                     | Some h \<Rightarrow>
                         (case put_all lib h c (concat (map entry_records es)) l3 of
                            (prc, l4) \<Rightarrow>
                              if prc \<noteq> TDB_SUCCESS
                              then (HA_ERR_GENERIC, txn_free lib h (snd (txn_rollback lib h l4)))
                              else (case txn_commit lib h l4 of
                                      (crc, l5) \<Rightarrow>
                                        (if crc = TDB_SUCCESS then HA_OK else HA_ERR_GENERIC, txn_free lib h l5)))))))"

section \<open>Drop\<close>

definition purge_visit :: "string \<Rightarrow> bytes \<Rightarrow> bytes \<Rightarrow> bytes list \<Rightarrow> bytes list" where
  "purge_visit cfn k v acc =
     (case fk_deserialize v of
        None \<Rightarrow> acc
      | Some e \<Rightarrow> if fe_child_cf e = cfn \<or> fe_parent_cf e = cfn then acc @ [k] else acc)"

definition fk_purge_catalog :: "'l tdb_lib \<Rightarrow> string \<Rightarrow> 'l \<Rightarrow> (ha_rc \<times> 'l) option" where
  "fk_purge_catalog lib cfn l =
     (case get_column_family lib FK_CATALOG_CF l of
        None \<Rightarrow> Some (HA_OK, l)
      | Some c \<Rightarrow>
          (case txn_begin lib l of
             (brc, out, l1) \<Rightarrow>
               (case (if brc = TDB_SUCCESS then out else None) of
                  None \<Rightarrow> Some (HA_OK, l1)
                | Some h \<Rightarrow>
                    (case fk_walk lib h c (purge_visit cfn) [] l1 of
                       None \<Rightarrow> None
                     | Some (ks, l2) \<Rightarrow>
                         (case txn_commit lib h (delete_keys lib h c ks l2) of
                            (crc, l3) \<Rightarrow>
                              Some (HA_OK, txn_free lib h (if crc \<noteq> TDB_SUCCESS then snd (txn_rollback lib h l3) else l3)))))))"

section \<open>Open\<close>

record tdb_fk_def =
  fd_name :: string
  fd_child_cf :: string
  fd_child_db :: string
  fd_child_table :: string
  fd_child_fields :: "nat list"
  fd_child_nullable :: bytes
  fd_ref_db :: string
  fd_ref_table :: string
  fd_parent_cf :: string
  fd_parent_fields :: "nat list"
  fd_ref_column_names :: "string list"
  fd_child_index_name :: string
  fd_parent_index_name :: string
  fd_parent_nullable :: bytes
  fd_on_delete :: u8
  fd_on_update :: u8
  fd_child_key_no :: "nat option"
  fd_parent_key_no :: "nat option"
  fd_parent_is_pk :: bool

definition resolve_fields :: "fk_table \<Rightarrow> string list \<Rightarrow> nat list" where
  "resolve_fields t cols = List.map_filter (fk_field_index t) cols"

definition fk_def_of_entry :: "fk_catalog_entry \<Rightarrow> tdb_fk_def" where
  "fk_def_of_entry e =
     \<lparr>fd_name = fe_name e, fd_child_cf = fe_child_cf e, fd_child_db = fe_child_db e, fd_child_table = fe_child_table e,
      fd_child_fields = [], fd_child_nullable = fe_child_nullable e, fd_ref_db = fe_ref_db e, fd_ref_table = fe_ref_table e,
      fd_parent_cf = fe_parent_cf e, fd_parent_fields = [], fd_ref_column_names = fe_ref_columns e,
      fd_child_index_name = fe_child_index_name e, fd_parent_index_name = [], fd_parent_nullable = [],
      fd_on_delete = fe_on_delete e, fd_on_update = fe_on_update e, fd_child_key_no = None, fd_parent_key_no = None,
      fd_parent_is_pk = False\<rparr>"

definition child_def :: "fk_table \<Rightarrow> fk_catalog_entry \<Rightarrow> tdb_fk_def" where
  "child_def t e =
     (fk_def_of_entry e)\<lparr>fd_parent_index_name := fe_parent_index_name e, fd_parent_nullable := fe_parent_nullable e,
        fd_child_fields := resolve_fields t (fe_child_columns e),
        fd_child_key_no := fk_find_covering_index t (fe_child_columns e), fd_parent_is_pk := fe_parent_is_pk e \<noteq> 0\<rparr>"

definition parent_def :: "fk_table \<Rightarrow> fk_catalog_entry \<Rightarrow> tdb_fk_def" where
  "parent_def t e =
     (fk_def_of_entry e)\<lparr>fd_parent_fields := resolve_fields t (fe_ref_columns e),
        fd_parent_key_no := fk_find_covering_index t (fe_ref_columns e),
        fd_parent_is_pk := (ft_primary t \<noteq> None \<and> fk_find_covering_index t (fe_ref_columns e) = ft_primary t)\<rparr>"

definition load_visit ::
  "fk_table \<Rightarrow> string \<Rightarrow> bytes \<Rightarrow> bytes \<Rightarrow> tdb_fk_def list \<times> tdb_fk_def list \<Rightarrow> tdb_fk_def list \<times> tdb_fk_def list" where
  "load_visit t self k v acc =
     (case child_record k v of
        None \<Rightarrow> acc
      | Some e \<Rightarrow>
          (fst acc @ (if fe_child_cf e = self then [child_def t e] else []),
           snd acc @ (if fe_parent_cf e = self then [parent_def t e] else [])))"

text \<open>The share's two lists; they are loaded once.\<close>

record fk_share =
  fs_cf_name :: string
  fs_child :: "tdb_fk_def list"
  fs_parent :: "tdb_fk_def list"
  fs_loaded :: bool

definition fk_load :: "'l tdb_lib \<Rightarrow> fk_table \<Rightarrow> fk_share \<Rightarrow> 'l \<Rightarrow> (fk_share \<times> 'l) option" where
  "fk_load lib t sh l =
     (if fs_loaded sh then Some (sh, l)
      else let sh1 = sh\<lparr>fs_loaded := True\<rparr>
        in case get_column_family lib FK_CATALOG_CF l of
             None \<Rightarrow> Some (sh1, l)
           | Some c \<Rightarrow>
               (case txn_begin lib l of
                  (brc, out, l1) \<Rightarrow>
                    (case (if brc = TDB_SUCCESS then out else None) of
                       None \<Rightarrow> Some (sh1, l1)
                     | Some h \<Rightarrow>
                         (case fk_walk lib h c (load_visit t (fs_cf_name sh)) (fs_child sh, fs_parent sh) l1 of
                            None \<Rightarrow> None
                          | Some ((cs, ps), l2) \<Rightarrow>
                              Some (sh1\<lparr>fs_child := cs, fs_parent := ps\<rparr>,
                                    txn_free lib h (snd (txn_rollback lib h l2)))))))"

section \<open>The record format\<close>

definition fits :: "nat \<Rightarrow> bool" where
  "fits n \<longleftrightarrow> n < 2 ^ 16"

definition names_fit :: "string list \<Rightarrow> bool" where
  "names_fit v \<longleftrightarrow> fits (length v) \<and> (\<forall>s \<in> set v. fits (length s))"

definition entry_fits :: "fk_catalog_entry \<Rightarrow> bool" where
  "entry_fits e \<longleftrightarrow>
     fits (length (fe_name e)) \<and> fits (length (fe_child_cf e)) \<and> fits (length (fe_child_db e)) \<and>
     fits (length (fe_child_table e)) \<and> names_fit (fe_child_columns e) \<and> fits (length (fe_ref_db e)) \<and>
     fits (length (fe_ref_table e)) \<and> fits (length (fe_parent_cf e)) \<and> names_fit (fe_ref_columns e) \<and>
     fits (length (fe_child_index_name e)) \<and> fits (length (fe_parent_index_name e)) \<and>
     fits (length (fe_child_nullable e)) \<and> fits (length (fe_parent_nullable e))"

lemma le_16: "fits n \<Longrightarrow> unat (of_nat n :: u16) = n" "(le_dec 2 (le_enc 2 (w :: u16) @ r) :: u16) = w"
  by (simp add: fits_def unat_of_nat) (rule le_dec_le_enc, simp)

lemma le_16_back: "2 \<le> length p \<Longrightarrow> le_enc 2 (le_dec 2 p :: u16) = take 2 p"
  by (rule le_enc_le_dec) simp_all

lemma unat_16_fits: "fits (unat (w :: u16))"
  using unsigned_less [of w] by (simp add: fits_def)

interpretation fk_run: framed_string fk_put_bytes fk_get_bytes "2 ^ 16 - 1"
proof
  show "fk_get_bytes (fk_put_bytes s @ r) = Some (s, r)" if "length s \<le> 2 ^ 16 - 1" for s r
    using that le_16(1) [of "length s"] by (simp add: fk_get_bytes_def fk_put_bytes_def le_16(2) Let_def fits_def)
  show "length s \<le> 2 ^ 16 - 1 \<and> p = fk_put_bytes s @ r" if "fk_get_bytes p = Some (s, r)" for p s r
  proof -
    let ?n = "unat (le_dec 2 p :: u16)"
    have p: "2 \<le> length p" "?n \<le> length (drop 2 p)" "s = take ?n (drop 2 p)" "r = drop ?n (drop 2 p)"
      using that by (auto simp: fk_get_bytes_def Let_def split: if_splits)
    then have "length s = ?n"
      by simp
    then have "fk_put_bytes s = take 2 p @ s"
      using le_16_back [OF p(1)] by (simp add: fk_put_bytes_def)
    moreover have "s @ r = drop 2 p"
      using p(3,4) by (simp only: append_take_drop_id)
    ultimately have "p = fk_put_bytes s @ r"
      by (metis append_assoc append_take_drop_id)
    then show ?thesis
      using \<open>length s = ?n\<close> unat_16_fits [of "le_dec 2 p"] by (simp add: fits_def)
  qed
qed

lemma fk_get_bytes_iff: "fk_get_bytes p = Some (s, r) \<longleftrightarrow> fits (length s) \<and> p = fk_put_bytes s @ r"
  using fk_run.get_iff [of p s r] by (auto simp: fits_def)

lemma fk_get_str_iff: "fk_get_str p = Some (s, r) \<longleftrightarrow> fits (length s) \<and> p = fk_put_str s @ r"
proof -
  have "fk_get_str p = Some (s, r) \<longleftrightarrow> fk_get_bytes p = Some (bytes_of s, r)"
    by (auto simp: fk_get_str_def)
  then show ?thesis
    by (simp add: fk_get_bytes_iff fk_put_str_def)
qed

lemma fk_get_n_iff:
  "fk_get_n n p = Some (v, r) \<longleftrightarrow> n = length v \<and> (\<forall>s \<in> set v. fits (length s)) \<and> p = concat (map fk_put_str v) @ r"
proof (induction n arbitrary: p v)
  case (Suc n)
  have "fk_get_n (Suc n) p = Some (v, r) \<longleftrightarrow>
      (\<exists>s v' p1. fk_get_str p = Some (s, p1) \<and> fk_get_n n p1 = Some (v', r) \<and> v = s # v')"
    by (auto split: option.splits)
  also have "\<dots> \<longleftrightarrow> Suc n = length v \<and> (\<forall>s \<in> set v. fits (length s)) \<and> p = concat (map fk_put_str v) @ r"
    unfolding Suc.IH fk_get_str_iff by (cases v) auto
  finally show ?case .
qed auto

lemma fk_get_names_iff: "fk_get_names p = Some (v, r) \<longleftrightarrow> names_fit v \<and> p = fk_put_names v @ r"
proof
  assume a: "fk_get_names p = Some (v, r)"
  then have p: "2 \<le> length p" "fk_get_n (unat (le_dec 2 p :: u16)) (drop 2 p) = Some (v, r)"
    by (auto simp: fk_get_names_def split: if_splits)
  then have n: "unat (le_dec 2 p :: u16) = length v" "\<forall>s \<in> set v. fits (length s)" "drop 2 p = concat (map fk_put_str v) @ r"
    by (simp_all add: fk_get_n_iff)
  then have "le_enc 2 (of_nat (length v) :: u16) = take 2 p"
    using le_16_back [OF p(1)] by (simp flip: n(1))
  then have "p = fk_put_names v @ r"
    unfolding fk_put_names_def append_assoc n(3) [symmetric] by simp
  then show "names_fit v \<and> p = fk_put_names v @ r"
    using n(1,2) unat_16_fits [of "le_dec 2 p"] by (simp add: names_fit_def)
next
  assume "names_fit v \<and> p = fk_put_names v @ r"
  then show "fk_get_names p = Some (v, r)"
    by (auto simp: fk_get_names_def fk_put_names_def names_fit_def le_16 fk_get_n_iff)
qed

lemma fk_get_actions_iff: "fk_get_actions p = Some ((a, b, c), r) \<longleftrightarrow> p = [a, b, c] @ r"
proof
  assume a: "fk_get_actions p = Some ((a, b, c), r)"
  then have "p = take 3 p @ r" "3 \<le> length p"
    by (auto simp: fk_get_actions_def split: if_splits)
  moreover from this(2) have "take 3 p = [p ! 0, p ! 1, p ! 2]"
    by (auto simp: numeral_3_eq_3 numeral_2_eq_2 Suc_le_length_iff)
  ultimately show "p = [a, b, c] @ r"
    using a by (auto simp: fk_get_actions_def)
qed (simp add: fk_get_actions_def)

lemma bind_pair_iff: "Option.bind m (\<lambda>(a, b). f a b) = Some x \<longleftrightarrow> (\<exists>a b. m = Some (a, b) \<and> f a b = Some x)"
  by (cases m) auto

lemma bind_actions_iff:
  "Option.bind m (\<lambda>((a, b, c), r). f a b c r) = Some x \<longleftrightarrow> (\<exists>a b c r. m = Some ((a, b, c), r) \<and> f a b c r = Some x)"
  by (cases m) auto

lemmas fk_get_iffs = bind_pair_iff bind_actions_iff fk_get_str_iff fk_get_names_iff fk_get_bytes_iff fk_get_actions_iff

text \<open>A catalog record decodes to a constraint exactly when the bytes start with the encoding of that constraint and all its
  strings and lists fit their 16-bit lengths.\<close>

lemma fk_record_format:
  "fk_deserialize d = Some e \<longleftrightarrow> (\<exists>r. d = fk_serialize e @ r \<and> entry_fits e)"
proof (cases "d = [] \<or> hd d \<noteq> FK_SER_VERSION")
  case True
  then show ?thesis
    by (auto simp: fk_deserialize_def fk_serialize_def)
next
  case False
  then obtain p where d: "d = FK_SER_VERSION # p"
    by (cases d) auto
  show ?thesis
  proof
    assume "fk_deserialize d = Some e"
    then show "\<exists>r. d = fk_serialize e @ r \<and> entry_fits e"
      unfolding d fk_deserialize_def by (clarsimp simp: fk_get_iffs) (simp add: fk_serialize_def entry_fits_def)
  next
    assume "\<exists>r. d = fk_serialize e @ r \<and> entry_fits e"
    then obtain r where r: "d = fk_serialize e @ r" "entry_fits e"
      by blast
    note f = r(2) [unfolded entry_fits_def]
    have g: "fk_get_str (fk_put_str a @ q) = Some (a, q)" if "fits (length a)" for a q
      using that by (simp add: fk_get_str_iff)
    have n: "fk_get_names (fk_put_names v @ q) = Some (v, q)" if "names_fit v" for v q
      using that by (simp add: fk_get_names_iff)
    have b: "fk_get_bytes (fk_put_bytes v @ q) = Some (v, q)" if "fits (length v)" for v q
      using that by (simp add: fk_get_bytes_iff)
    have c: "fk_get_actions (x # y # z # q) = Some ((x, y, z), q)" for x y z q
      by (simp add: fk_get_actions_iff)
    show "fk_deserialize d = Some e"
      unfolding r(1) fk_deserialize_def fk_serialize_def using f by (simp add: g n b c)
  qed
qed
end
