(* ===== verification/Fk_Refine.thy ===== *)
theory Fk_Refine
  imports Fk_Catalog "HOL-Library.Multiset"
begin

text \<open>
  The catalog of foreign keys as a list of constraints. \<open>catalog_of\<close> says which keys and records a list of constraints
  occupies; the lemmas show that the operations of \<^verbatim>\<open>ha_tidesdb_fk.cc\<close> act on it as the corresponding list operations.
\<close>

section \<open>The catalog as a list of constraints\<close>

definition nul_free :: "string \<Rightarrow> bool" where
  "nul_free a \<longleftrightarrow> 0 \<notin> set (bytes_of a)"

definition catalog_of :: "fk_catalog_entry list \<Rightarrow> bytes \<rightharpoonup> bytes" where
  "catalog_of C = map_of (concat (map entry_records C))"

definition wf_entry :: "fk_catalog_entry \<Rightarrow> bool" where
  "wf_entry e \<longleftrightarrow> entry_fits e \<and> nul_free (fe_child_cf e) \<and> nul_free (fe_parent_cf e)"

definition entry_id :: "fk_catalog_entry \<Rightarrow> string \<times> string" where
  "entry_id e = (fe_child_cf e, fe_name e)"

definition wf_catalog :: "fk_catalog_entry list \<Rightarrow> bool" where
  "wf_catalog C \<longleftrightarrow> (\<forall>e \<in> set C. wf_entry e) \<and> distinct (map entry_id C)"

lemma nul_split:
  assumes "nul_free a" "nul_free b"
  shows "bytes_of a @ 0 # x = bytes_of b @ 0 # y \<longleftrightarrow> a = b \<and> x = y"
proof
  assume e: "bytes_of a @ 0 # x = bytes_of b @ 0 # y"
  have t: "takeWhile (\<lambda>z. z \<noteq> 0) (bytes_of d @ 0 # w) = bytes_of d" if "nul_free d" for d w
    using that by (subst takeWhile_append2) (auto simp: nul_free_def)
  have "bytes_of a = bytes_of b"
    using arg_cong [OF e, of "takeWhile (\<lambda>z. z \<noteq> 0)"] t assms by simp
  then show "a = b \<and> x = y"
    using e by simp
qed simp

lemma entry_keys_id:
  assumes "wf_entry e" "wf_entry e'" "k \<in> set (entry_keys e)" "k \<in> set (entry_keys e')"
  shows "entry_id e = entry_id e'"
  using assms
  by (auto simp: entry_keys_def fk_child_key_def fk_parent_key_def FK_REC_CHILD_def FK_REC_PARENT_def wf_entry_def entry_id_def
      nul_split)

lemma wf_catalog_keys:
  assumes "wf_catalog C" "e \<in> set C" "e' \<in> set C" "k \<in> set (entry_keys e)" "k \<in> set (entry_keys e')"
  shows "e = e'"
  using assms entry_keys_id [of e e' k] by (auto simp: wf_catalog_def distinct_map inj_on_def)

lemma catalog_of_iff:
  assumes "wf_catalog C"
  shows "catalog_of C k = Some v \<longleftrightarrow> (\<exists>e \<in> set C. k \<in> set (entry_keys e) \<and> v = fk_serialize e)"
proof
  assume "catalog_of C k = Some v"
  then show "\<exists>e \<in> set C. k \<in> set (entry_keys e) \<and> v = fk_serialize e"
    by (auto simp: catalog_of_def entry_records_def dest!: map_of_SomeD)
next
  assume "\<exists>e \<in> set C. k \<in> set (entry_keys e) \<and> v = fk_serialize e"
  then obtain e where e: "e \<in> set C" "k \<in> set (entry_keys e)" "v = fk_serialize e"
    by blast
  then have "catalog_of C k \<noteq> None"
    unfolding catalog_of_def map_of_eq_None_iff by (auto simp: entry_records_def image_iff)
  then obtain w where w: "catalog_of C k = Some w"
    by blast
  then obtain e' where "e' \<in> set C" "k \<in> set (entry_keys e')" "w = fk_serialize e'"
    by (auto simp: catalog_of_def entry_records_def dest!: map_of_SomeD)
  then show "catalog_of C k = Some v"
    using w e wf_catalog_keys [OF assms e(1)] by blast
qed

lemma deserialize_serialize: "entry_fits e \<Longrightarrow> fk_deserialize (fk_serialize e) = Some e"
  using fk_record_format [of "fk_serialize e" e] by auto

lemma child_record_iff:
  assumes "wf_entry e" "k \<in> set (entry_keys e)"
  shows "child_record k (fk_serialize e) = (if k = fk_child_key (fe_child_cf e) (fe_name e) then Some e else None)"
  using assms deserialize_serialize [of e]
  by (auto simp: child_record_def entry_keys_def fk_child_key_def fk_parent_key_def FK_REC_CHILD_def FK_REC_PARENT_def wf_entry_def)

definition child_entries :: "(bytes \<times> bytes) list \<Rightarrow> fk_catalog_entry list" where
  "child_entries es = List.map_filter (\<lambda>(k, v). child_record k v) es"

lemma child_entries_simps [simp]:
  "child_entries [] = []"
  "child_entries ((k, v) # es) = (case child_record k v of None \<Rightarrow> child_entries es | Some e \<Rightarrow> e # child_entries es)"
  by (auto simp: child_entries_def map_filter_def split: option.split)

lemma child_entries_mem: "e \<in> set (child_entries es) \<longleftrightarrow> (\<exists>k v. (k, v) \<in> set es \<and> child_record k v = Some e)"
proof (induction es)
  case (Cons x es)
  obtain k v where "x = (k, v)"
    by (metis prod.exhaust)
  with Cons show ?case
    by (cases "child_record k v") auto
qed simp

text \<open>The child-side records of a catalog are its constraints, each once.\<close>

lemma child_entries_perm:
  assumes "wf_catalog C" "distinct (map fst es)" "map_of es = catalog_of C"
  shows "mset (child_entries es) = mset C"
proof -
  have es: "(k, v) \<in> set es \<longleftrightarrow> (\<exists>e \<in> set C. k \<in> set (entry_keys e) \<and> v = fk_serialize e)" for k v
    using map_of_eq_Some_iff [OF assms(2)] catalog_of_iff [OF assms(1)] assms(3) by metis
  have wf: "wf_entry e" if "e \<in> set C" for e
    using that assms(1) by (simp add: wf_catalog_def)
  have rec: "child_record k v = Some e \<longleftrightarrow> e \<in> set C \<and> k = fk_child_key (fe_child_cf e) (fe_name e) \<and> v = fk_serialize e"
    if mem: "(k, v) \<in> set es" for k v e
  proof -
    obtain e' where e': "e' \<in> set C" "k \<in> set (entry_keys e')" "v = fk_serialize e'"
      using mem es [of k v] by blast
    have eq: "e = e'" if "e \<in> set C" "k = fk_child_key (fe_child_cf e) (fe_name e)"
      using wf_catalog_keys [OF assms(1) that(1) e'(1) _ e'(2)] that(2) by (simp add: entry_keys_def)
    show ?thesis
      using child_record_iff [OF wf [OF e'(1)] e'(2)] e'(1,3) eq by auto
  qed
  have "set (child_entries es) = set C"
  proof (rule set_eqI)
    fix e
    show "e \<in> set (child_entries es) \<longleftrightarrow> e \<in> set C"
    proof
      assume "e \<in> set C"
      moreover from this have "(fk_child_key (fe_child_cf e) (fe_name e), fk_serialize e) \<in> set es"
        unfolding es by (auto simp: entry_keys_def)
      ultimately show "e \<in> set (child_entries es)"
        unfolding child_entries_mem using rec by blast
    qed (use rec in \<open>unfold child_entries_mem, blast\<close>)
  qed
  moreover have "distinct (child_entries es)"
  proof -
    have "distinct (child_entries xs)" if "set xs \<subseteq> set es" "distinct (map fst xs)" for xs
      using that
    proof (induction xs)
      case (Cons x xs)
      obtain k v where x: "x = (k, v)"
        by (metis prod.exhaust)
      have "e \<notin> set (child_entries xs)" if "child_record k v = Some e" for e
      proof
        assume "e \<in> set (child_entries xs)"
        then obtain k' v' where "(k', v') \<in> set xs" "child_record k' v' = Some e"
          unfolding child_entries_mem by blast
        then have "k' = k"
          using rec [of k v e] rec [of k' v' e] that Cons.prems(1) by (auto simp: x)
        then show False
          using \<open>(k', v') \<in> set xs\<close> Cons.prems(2) by (force simp: x)
      qed
      then show ?case
        using Cons by (auto simp: x split: option.split)
    qed simp
    then show ?thesis
      using assms(2) by blast
  qed
  moreover have "distinct C"
    using assms(1) by (auto simp: wf_catalog_def distinct_map)
  ultimately show ?thesis
    using set_eq_iff_mset_eq_distinct by blast
qed


section \<open>The catalog operations\<close>

lemma delete_keys_running:
  assumes "lib_stores lib s" "lib_owns lib g D" "lib_reliable lib g good" "running g good s h l"
  shows "running g good s h (delete_keys lib h c ks l) \<and> s_db s (delete_keys lib h c ks l) = s_db s l \<and>
      fst (s_txn s (delete_keys lib h c ks l) h) = (\<lambda>p. if fst p = c \<and> snd p \<in> set ks then None else fst (s_txn s l h) p)"
  using assms(4)
proof (induction ks arbitrary: l)
  case (Cons k ks)
  have "delete_keys lib h c (k # ks) l = delete_keys lib h c ks (snd (txn_delete lib h c k l))"
    by (simp add: delete_keys_def)
  then show ?case
    using Cons.IH [OF conjunct1 [OF write_running(1) [OF assms(1-3) Cons.prems, of c k]]]
      write_running(1) [OF assms(1-3) Cons.prems, of c k]
    by (auto simp: upd_def fun_eq_iff)
qed (simp add: delete_keys_def)

lemma put_records_running:
  assumes "lib_stores lib s" "lib_owns lib g D" "lib_reliable lib g good" "running g good s h l"
    "distinct (map fst kvs)"
  shows "running g good s h (put_records lib h c kvs l) \<and> s_db s (put_records lib h c kvs l) = s_db s l \<and>
      fst (s_txn s (put_records lib h c kvs l) h) =
        (\<lambda>p. if fst p = c \<and> map_of kvs (snd p) \<noteq> None then map_of kvs (snd p) else fst (s_txn s l h) p)"
  using assms(4,5)
proof (induction kvs arbitrary: l)
  case (Cons kv kvs)
  obtain k v where kv: "kv = (k, v)"
    by (metis prod.exhaust)
  note w = write_running(2) [OF assms(1-3) Cons.prems(1), of c k v TIDESDB_TTL_NONE]
  have "put_records lib h c (kv # kvs) l = put_records lib h c kvs (snd (txn_put lib h c k v TIDESDB_TTL_NONE l))"
    by (simp add: put_records_def kv)
  moreover have "map_of kvs k = None"
    using Cons.prems(2) by (simp add: kv map_of_eq_None_iff)
  ultimately show ?case
    using Cons.IH [OF conjunct1 [OF w]] w Cons.prems(2) by (auto simp: upd_def fun_eq_iff kv)
qed (simp add: put_records_def)

lemma walk_running:
  assumes "lib_stores lib s" "lib_owns lib g D" "lib_reliable lib g good" "lib_iterates lib s" "running g good s h l"
    and "fst (s_txn s l h) (c, []) = None"
  shows "\<exists>es l'. fk_walk lib h c f acc l = Some (fold (\<lambda>(k, v). f k v) es acc, l') \<and> distinct (map fst es) \<and>
    map_of es = (\<lambda>k. fst (s_txn s l h) (c, k)) \<and> running g good s h l' \<and> s_db s l' = s_db s l \<and> s_txn s l' = s_txn s l"
proof -
  have r: "good l" "h \<in> g_live g l" "consistent s h l"
    using assms(5) by (simp_all add: running_def)
  obtain it l1 where i: "iter_new lib h c l = (TDB_SUCCESS, Some it, l1)" "good l1"
    using lib_reliable_rules(14) [OF assms(3) r(1,2)] by blast
  obtain es where es: "es_sorted es" "map_of es = (\<lambda>k. fst (s_txn s l h) (c, k))" "sem_iter_set s it (Some (es, -1)) l l1"
    using lib_iterates_rules(1) [OF assms(4) i(1)] by (auto simp: sem_opened_def)
  have d: "distinct (map fst es)"
    using es(1) by (auto simp: es_sorted_def strict_sorted_iff)
  define l2 where "l2 = iter_seek lib it [0] l1"
  have "\<not> fst e < [0]" if "e \<in> set es" for e
  proof -
    have "fst e \<noteq> []"
      using that assms(6) es(2) weak_map_of_SomeI [of "fst e" "snd e" es] by (metis option.distinct(1) prod.collapse)
    then show ?thesis
      by (cases "fst e") (auto simp: word_less_nat_alt)
  qed
  then have "takeWhile (\<lambda>e. fst e < [0]) es = []"
    by (cases es) simp_all
  then have l2: "sem_iter_set s it (Some (es, int 0)) l1 l2"
    using seek_position [OF assms(4), of l1 it es "-1" "[0]"] es(3) by (simp add: l2_def sem_iter_set_def)
  then have "s_iter s l2 it = Some (es, int 0)"
    by (simp add: sem_iter_set_def)
  moreover have live: "g_live g (iter_free lib it l) = g_live g l" "g_live g (iter_next lib it l) = g_live g l"
      "g_live g (iter_seek lib it k l) = g_live g l" for l k
    using lib_owns_iter [OF assms(2)] by (auto simp: own_iter_free_def own_iter_def same_handles_def)
  moreover have "g_live g l1 = g_live g l"
    using lib_owns_iter [OF assms(2)] i(1) by (auto simp: own_iter_new_def)
  then have "good l2 \<and> h \<in> g_live g l2"
    using lib_reliable_rules(5) [OF assms(3) i(2)] r(2) by (simp add: l2_def live)
  ultimately obtain l3 where l3: "scan_entries lib it f acc l2 = Some (fold (\<lambda>(k, v). f k v) es acc, l3)"
      "sem_iter_set s it (Some (es, int (length es))) l2 l3" "good l3" "h \<in> g_live g l3"
    using scan_entries_fold [OF assms(4), of l2 it es 0 "\<lambda>l. good l \<and> h \<in> g_live g l" f acc]
      lib_reliable_rules(6) [OF assms(3)] by auto
  have "fk_walk lib h c f acc l = Some (fold (\<lambda>(k, v). f k v) es acc, iter_free lib it l3)"
    using l3(1) by (simp add: fk_walk_def i(1) l2_def)
  moreover have "sem_iter_set s it None l3 (iter_free lib it l3)"
    by (rule lib_iterates_rules(2) [OF assms(4)])
  ultimately show ?thesis
    using d es(2,3) l2 l3(2,3,4) r(3) lib_reliable_rules(4) [OF assms(3) l3(3)] live(1) [of l3]
    by (auto simp: sem_iter_set_def running_def consistent_def)
qed
lemma put_all_running:
  assumes "lib_stores lib s" "lib_owns lib g D" "lib_reliable lib g good" "running g good s h l"
  shows "put_all lib h c kvs l = (TDB_SUCCESS, put_records lib h c kvs l)"
  using assms(4)
proof (induction kvs arbitrary: l)
  case (Cons kv kvs)
  obtain k v where kv: "kv = (k, v)"
    by (metis prod.exhaust)
  obtain l1 where "txn_put lib h c k v TIDESDB_TTL_NONE l = (TDB_SUCCESS, l1)"
    using lib_reliable_rules(9) [OF assms(3)] Cons.prems unfolding running_def by blast
  moreover have "running g good s h l1"
    using write_running(2) [OF assms(1-3) Cons.prems, of c k v TIDESDB_TTL_NONE] calculation by simp
  ultimately show ?case
    using Cons.IH by (simp add: kv put_records_def)
qed (simp add: put_records_def)

lemma begin_running:
  assumes "lib_stores lib s" "lib_owns lib g D" "lib_reliable lib g good" "good l"
  obtains h l1 where "txn_begin lib l = (TDB_SUCCESS, Some h, l1)" "running g good s h l1" "s_db s l1 = s_db s l"
    "fst (s_txn s l1 h) = s_db s l"
proof -
  obtain h l1 where b: "txn_begin lib l = (TDB_SUCCESS, Some h, l1)" "good l1" "h \<in> g_live g l1" "sem_fresh s h l l1"
    using begin_reliable [OF assms] .
  then have "running g good s h l1" "s_db s l1 = s_db s l" "fst (s_txn s l1 h) = s_db s l"
    by (simp_all add: running_def consistent_def sem_fresh_def sem_frame_def apply_writes_def)
  then show ?thesis
    using that b(1) by blast
qed

lemma fold_rename:
  "fold (\<lambda>(k, v). rename_visit old new db tbl k v) es acc =
     (let A = filter (\<lambda>e. fe_child_cf e = old \<or> fe_parent_cf e = old) (child_entries es)
      in (fst acc @ concat (map entry_keys A), snd acc @ concat (map entry_records (map (rename_entry old new db tbl) A))))"
proof (induction es arbitrary: acc)
  case (Cons x es)
  obtain k v where "x = (k, v)"
    by (metis prod.exhaust)
  then show ?case
    by (cases "child_record k v") (simp_all add: Cons rename_visit_def [of old new db tbl k v acc] Let_def)
qed simp

lemma fold_load:
  "fold (\<lambda>(k, v). load_visit t self k v) es acc =
     (fst acc @ map (child_def t) (filter (\<lambda>e. fe_child_cf e = self) (child_entries es)),
      snd acc @ map (parent_def t) (filter (\<lambda>e. fe_parent_cf e = self) (child_entries es)))"
proof (induction es arbitrary: acc)
  case (Cons x es)
  obtain k v where "x = (k, v)"
    by (metis prod.exhaust)
  then show ?case
    by (cases "child_record k v") (simp_all add: Cons load_visit_def [of t self k v acc])
qed simp

lemma fold_purge:
  "fold (\<lambda>(k, v). purge_visit cfn k v) es acc =
     acc @ map fst (filter (\<lambda>x. \<exists>e. fk_deserialize (snd x) = Some e \<and> (fe_child_cf e = cfn \<or> fe_parent_cf e = cfn)) es)"
proof (induction es arbitrary: acc)
  case (Cons x es)
  obtain k v where "x = (k, v)"
    by (metis prod.exhaust)
  then show ?case
    by (cases "fk_deserialize v") (simp_all add: Cons purge_visit_def [of cfn k v acc])
qed simp

lemma wf_catalog_mset:
  assumes "mset E = mset C" "wf_catalog C"
  shows "wf_catalog (filter q E)"
proof -
  have "mset (map entry_id E) = mset (map entry_id C)"
    using assms(1) by simp
  then have "distinct (map entry_id E)"
    using assms(2) mset_eq_imp_distinct_iff unfolding wf_catalog_def by blast
  moreover have "set E = set C"
    using assms(1) by (metis set_mset_mset)
  ultimately show ?thesis
    using assms(2) by (auto simp: wf_catalog_def distinct_map_filter)
qed

lemma wf_catalog_distinct_keys:
  assumes "wf_catalog C"
  shows "distinct (map fst (concat (map entry_records C)))"
  using assms
proof (induction C)
  case (Cons e C)
  have c: "wf_catalog C"
    using Cons.prems by (simp add: wf_catalog_def)
  have "k \<notin> set (entry_keys e')" if "k \<in> set (entry_keys e)" "e' \<in> set C" for k e'
    using wf_catalog_keys [OF Cons.prems, of e e' k] that Cons.prems by (auto simp: wf_catalog_def)
  moreover have "distinct (entry_keys e)"
    by (simp add: entry_keys_def fk_child_key_def fk_parent_key_def FK_REC_CHILD_def FK_REC_PARENT_def)
  ultimately show ?case
    using Cons.IH [OF c] by (auto simp: entry_records_def comp_def)
qed simp

lemma catalog_of_nonempty: "wf_catalog C \<Longrightarrow> catalog_of C [] = None"
  using catalog_of_iff [of C "[]"] by (auto simp: entry_keys_def fk_child_key_def fk_parent_key_def)

lemma option_eqI_Some: "(\<And>v. a = Some v \<longleftrightarrow> b = Some v) \<Longrightarrow> a = b"
  by (metis not_None_eq)

text \<open>Deleting the stale keys and writing the fresh records turns the catalog into the renamed one.\<close>

lemma rename_store:
  assumes "wf_catalog C" "wf_catalog (map R C)" "mset E = mset C" "\<And>e. \<not> q e \<Longrightarrow> R e = e"
  shows "(if catalog_of (map R (filter q E)) k \<noteq> None then catalog_of (map R (filter q E)) k
          else if k \<in> set (concat (map entry_keys (filter q E))) then None else catalog_of C k) = catalog_of (map R C) k"
proof -
  have E: "set E = set C"
    using assms(3) by (metis set_mset_mset)
  have "mset (map R E) = mset (map R C)"
    using assms(3) by simp
  then have "distinct (map entry_id (map R E))"
    using assms(2) mset_eq_imp_distinct_iff [of "map entry_id (map R E)" "map entry_id (map R C)"] unfolding wf_catalog_def
    by (metis mset_map)
  then have w: "wf_catalog (map R (filter q E))"
    using assms(2) E by (auto simp: wf_catalog_def distinct_map_filter)
  note iff = catalog_of_iff [OF assms(1)] catalog_of_iff [OF assms(2)] catalog_of_iff [OF w]
  have none: "catalog_of (map R (filter q E)) k = None \<longleftrightarrow> (\<forall>e \<in> set C. q e \<longrightarrow> k \<notin> set (entry_keys (R e)))"
    using iff(3) [of k] E by (cases "catalog_of (map R (filter q E)) k") auto
  have R: "e = e'" if "e \<in> set (map R C)" "e' \<in> set (map R C)" "k \<in> set (entry_keys e)" "k \<in> set (entry_keys e')" for e e'
    using wf_catalog_keys [OF assms(2) that] .
  have C: "e = e'" if "e \<in> set C" "e' \<in> set C" "k \<in> set (entry_keys e)" "k \<in> set (entry_keys e')" for e e'
    using wf_catalog_keys [OF assms(1) that] .
  show ?thesis
  proof (cases "catalog_of (map R (filter q E)) k = None")
    case False
    then obtain v where v: "catalog_of (map R (filter q E)) k = Some v"
      by blast
    then have "catalog_of (map R C) k = Some v"
      unfolding iff using E by auto
    with v show ?thesis
      by simp
  next
    case True
    show ?thesis
    proof (cases "\<exists>e \<in> set C. q e \<and> k \<in> set (entry_keys e)")
      case stale: True
      have "catalog_of (map R C) k = None"
      proof (rule ccontr)
        assume "catalog_of (map R C) k \<noteq> None"
        then obtain e where e: "e \<in> set C" "k \<in> set (entry_keys (R e))"
          using iff(2) [of k] by auto
        then have "\<not> q e"
          using True none by blast
        then have "R e = e" "k \<in> set (entry_keys e)"
          using assms(4) e(2) by simp_all
        then show False
          using stale C e(1) \<open>\<not> q e\<close> by blast
      qed
      then show ?thesis
        using True stale E by auto
    next
      case fresh: False
      have "catalog_of C k = catalog_of (map R C) k"
      proof (rule option_eqI_Some)
        fix v
        show "catalog_of C k = Some v \<longleftrightarrow> catalog_of (map R C) k = Some v"
          unfolding iff using fresh True assms(4) unfolding none by (auto simp: image_iff) (metis assms(4))+
      qed
      then show ?thesis
        using True fresh E by auto
    qed
  qed
qed
lemma rename_implements:
  fixes dec :: "string \<Rightarrow> string"
  assumes "lib_stores lib s" "lib_owns lib g D" "lib_reliable lib g good" "lib_iterates lib s" "good l"
    "get_column_family lib FK_CATALOG_CF l = Some c" "\<And>k. s_db s l (c, k) = catalog_of C k" "wf_catalog C"
    "to_cf_name from \<noteq> to_cf_name to"
  defines "R \<equiv> rename_entry (to_cf_name from) (to_cf_name to) (dec (tp_db (split_table_path to))) (dec (tp_table (split_table_path to)))"
  assumes "wf_catalog (map R C)"
  shows "\<exists>l'. fk_rename_catalog lib dec from to l = Some (HA_OK, l') \<and> good l' \<and> (\<forall>k. s_db s l' (c, k) = catalog_of (map R C) k) \<and>
    (\<forall>c' k. c' \<noteq> c \<longrightarrow> s_db s l' (c', k) = s_db s l (c', k))"
proof -
  obtain h l1 where b: "txn_begin lib l = (TDB_SUCCESS, Some h, l1)" "running g good s h l1" "s_db s l1 = s_db s l"
    "fst (s_txn s l1 h) = s_db s l"
    using begin_running [OF assms(1-3,5)] .
  let ?v = "rename_visit (to_cf_name from) (to_cf_name to) (dec (tp_db (split_table_path to))) (dec (tp_table (split_table_path to)))"
  let ?q = "\<lambda>e. fe_child_cf e = to_cf_name from \<or> fe_parent_cf e = to_cf_name from"
  obtain es l2 where w: "fk_walk lib h c ?v ([], []) l1 = Some (fold (\<lambda>(k, v). ?v k v) es ([], []), l2)" "distinct (map fst es)"
    "map_of es = catalog_of C" "running g good s h l2" "s_db s l2 = s_db s l" "s_txn s l2 = s_txn s l1"
    using walk_running [OF assms(1-4) b(2), of c ?v "([], [])"] assms(7) catalog_of_nonempty [OF assms(8)] b(3,4) by auto
  define E where "E = child_entries es"
  have E: "mset E = mset C"
    unfolding E_def by (rule child_entries_perm [OF assms(8) w(2,3)])
  define stale where "stale = concat (map entry_keys (filter ?q E))"
  define fresh where "fresh = concat (map entry_records (map R (filter ?q E)))"
  have f: "fold (\<lambda>(k, v). ?v k v) es ([], []) = (stale, fresh)"
    by (simp add: fold_rename E_def R_def Let_def stale_def fresh_def)
  have "mset (map R E) = mset (map R C)"
    using E by simp
  then have "wf_catalog (filter (\<lambda>_. True) (map R E))"
    by (rule wf_catalog_mset) (rule assms(11))
  then have "wf_catalog (map R (filter ?q E))"
    by (auto simp: wf_catalog_def distinct_map_filter)
  then have df: "distinct (map fst fresh)"
    unfolding fresh_def by (rule wf_catalog_distinct_keys)
  define l3 where "l3 = delete_keys lib h c stale l2"
  have l3: "running g good s h l3" "fst (s_txn s l3 h) = (\<lambda>p. if fst p = c \<and> snd p \<in> set stale then None else s_db s l p)"
    using delete_keys_running [OF assms(1-3) w(4), of c stale, unfolded w(6) b(4)] unfolding l3_def by blast+
  define l4 where "l4 = put_records lib h c fresh l3"
  have l4: "running g good s h l4"
    "fst (s_txn s l4 h) = (\<lambda>p. if fst p = c \<and> map_of fresh (snd p) \<noteq> None then map_of fresh (snd p) else fst (s_txn s l3 h) p)"
    using put_records_running [OF assms(1-3) l3(1) df, of c] unfolding l4_def by blast+
  obtain l5 where l5: "txn_commit lib h l4 = (TDB_SUCCESS, l5)" "good l5" "s_db s l5 = fst (s_txn s l4 h)"
    using commit_running [OF assms(1-3) l4(1)] by blast
  have "fk_rename_catalog lib dec from to l = Some (HA_OK, txn_free lib h l5)"
    using assms(6,9) b(1) w(1) f l5(1) by (simp add: fk_rename_catalog_def Let_def l3_def [symmetric] l4_def [symmetric])
  moreover have "s_db s (txn_free lib h l5) = s_db s l5"
    using lib_stores_txn(6) [OF assms(1), of h l5] by (simp add: sem_frame_def)
  moreover have "s_db s l5 (c, k) = catalog_of (map R C) k" for k
  proof -
    have "\<And>e. \<not> ?q e \<Longrightarrow> R e = e"
      by (simp add: R_def rename_entry_def)
    from rename_store [OF assms(8,11) E this, of ?q k]
    show ?thesis
      unfolding l5(3) l4(2) l3(2) fst_conv snd_conv assms(7) fresh_def stale_def catalog_of_def [of "map R (filter ?q E)", symmetric]
      by (simp only: simp_thms if_False if_True)
  qed
  moreover have "s_db s l5 (c', k) = s_db s l (c', k)" if "c' \<noteq> c" for c' k
    using that by (simp add: l5(3) l4(2) l3(2))
  ultimately show ?thesis
    using lib_reliable_rules(3) [OF assms(3) l5(2)] by simp
qed

lemma purge_implements:
  assumes "lib_stores lib s" "lib_owns lib g D" "lib_reliable lib g good" "lib_iterates lib s" "good l"
    "get_column_family lib FK_CATALOG_CF l = Some c" "\<And>k. s_db s l (c, k) = catalog_of C k" "wf_catalog C"
  shows "\<exists>l'. fk_purge_catalog lib cfn l = Some (HA_OK, l') \<and> good l' \<and>
    (\<forall>k. s_db s l' (c, k) = catalog_of (filter (\<lambda>e. \<not> (fe_child_cf e = cfn \<or> fe_parent_cf e = cfn)) C) k) \<and>
    (\<forall>c' k. c' \<noteq> c \<longrightarrow> s_db s l' (c', k) = s_db s l (c', k))"
proof -
  obtain h l1 where b: "txn_begin lib l = (TDB_SUCCESS, Some h, l1)" "running g good s h l1" "s_db s l1 = s_db s l"
    "fst (s_txn s l1 h) = s_db s l"
    using begin_running [OF assms(1-3,5)] .
  let ?n = "\<lambda>e. fe_child_cf e = cfn \<or> fe_parent_cf e = cfn"
  obtain es l2 where w: "fk_walk lib h c (purge_visit cfn) [] l1 = Some (fold (\<lambda>(k, v). purge_visit cfn k v) es [], l2)"
    "distinct (map fst es)" "map_of es = catalog_of C" "running g good s h l2" "s_db s l2 = s_db s l" "s_txn s l2 = s_txn s l1"
    using walk_running [OF assms(1-4) b(2), of c "purge_visit cfn" "[]"] assms(7) catalog_of_nonempty [OF assms(8)] b(3,4) by auto
  define ks where "ks = fold (\<lambda>(k, v). purge_visit cfn k v) es []"
  have mem: "(k, v) \<in> set es \<longleftrightarrow> (\<exists>e \<in> set C. k \<in> set (entry_keys e) \<and> v = fk_serialize e)" for k v
    using map_of_eq_Some_iff [OF w(2)] catalog_of_iff [OF assms(8)] w(3) by metis
  have rt: "fk_deserialize (fk_serialize e) = Some e" if "e \<in> set C" for e
    using that assms(8) by (simp add: wf_catalog_def wf_entry_def deserialize_serialize)
  have ks: "k \<in> set ks \<longleftrightarrow> (\<exists>e \<in> set C. ?n e \<and> k \<in> set (entry_keys e))" for k
  proof -
    have "k \<in> set ks \<longleftrightarrow> (\<exists>v. (k, v) \<in> set es \<and> (\<exists>e. fk_deserialize v = Some e \<and> ?n e))"
      by (force simp: ks_def fold_purge)
    then show ?thesis
      unfolding mem using rt by (metis option.inject)
  qed
  define l3 where "l3 = delete_keys lib h c ks l2"
  have l3: "running g good s h l3" "fst (s_txn s l3 h) = (\<lambda>p. if fst p = c \<and> snd p \<in> set ks then None else s_db s l p)"
    using delete_keys_running [OF assms(1-3) w(4), of c ks, unfolded w(6) b(4)] unfolding l3_def by blast+
  obtain l5 where l5: "txn_commit lib h l3 = (TDB_SUCCESS, l5)" "good l5" "s_db s l5 = fst (s_txn s l3 h)"
    using commit_running [OF assms(1-3) l3(1)] by blast
  have "fk_purge_catalog lib cfn l = Some (HA_OK, txn_free lib h l5)"
    using assms(6) b(1) w(1) l5(1) by (simp add: fk_purge_catalog_def ks_def [symmetric] l3_def [symmetric])
  moreover have "s_db s (txn_free lib h l5) = s_db s l5"
    using lib_stores_txn(6) [OF assms(1), of h l5] by (simp add: sem_frame_def)
  moreover have "s_db s l5 (c, k) = catalog_of (filter (\<lambda>e. \<not> ?n e) C) k" for k
  proof (rule option_eqI_Some)
    fix v
    have "wf_catalog (filter (\<lambda>e. \<not> ?n e) C)"
      by (rule wf_catalog_mset [OF refl assms(8)])
    note iff = catalog_of_iff [OF assms(8)] catalog_of_iff [OF this]
    have eq: "e = e'" if "e \<in> set C" "e' \<in> set C" "k \<in> set (entry_keys e)" "k \<in> set (entry_keys e')" for e e'
      using wf_catalog_keys [OF assms(8) that] .
    have "s_db s l5 (c, k) = Some v \<longleftrightarrow> k \<notin> set ks \<and> catalog_of C k = Some v"
      by (simp add: l5(3) l3(2) assms(7))
    then show "s_db s l5 (c, k) = Some v \<longleftrightarrow> catalog_of (filter (\<lambda>e. \<not> ?n e) C) k = Some v"
      unfolding iff ks using eq by auto
  qed
  moreover have "s_db s l5 (c', k) = s_db s l (c', k)" if "c' \<noteq> c" for c' k
    using that by (simp add: l5(3) l3(2))
  ultimately show ?thesis
    using lib_reliable_rules(3) [OF assms(3) l5(2)] by simp
qed

lemma load_implements:
  assumes "lib_stores lib s" "lib_owns lib g D" "lib_reliable lib g good" "lib_iterates lib s" "good l"
    "get_column_family lib FK_CATALOG_CF l = Some c" "\<And>k. s_db s l (c, k) = catalog_of C k" "wf_catalog C"
    "\<not> fs_loaded sh" "fs_child sh = []" "fs_parent sh = []"
  shows "\<exists>sh' l'. fk_load lib t sh l = Some (sh', l') \<and> s_db s l' = s_db s l \<and> fs_loaded sh' \<and>
    mset (fs_child sh') = mset (map (child_def t) (filter (\<lambda>e. fe_child_cf e = fs_cf_name sh) C)) \<and>
    mset (fs_parent sh') = mset (map (parent_def t) (filter (\<lambda>e. fe_parent_cf e = fs_cf_name sh) C))"
proof -
  obtain h l1 where b: "txn_begin lib l = (TDB_SUCCESS, Some h, l1)" "running g good s h l1" "s_db s l1 = s_db s l"
    "fst (s_txn s l1 h) = s_db s l"
    using begin_running [OF assms(1-3,5)] .
  let ?v = "load_visit t (fs_cf_name sh)"
  obtain es l2 where w: "fk_walk lib h c ?v ([], []) l1 = Some (fold (\<lambda>(k, v). ?v k v) es ([], []), l2)"
    "distinct (map fst es)" "map_of es = catalog_of C" "running g good s h l2" "s_db s l2 = s_db s l"
    using walk_running [OF assms(1-4) b(2), of c ?v "([], [])"] assms(7) catalog_of_nonempty [OF assms(8)] b(3,4) by auto
  have E: "mset (child_entries es) = mset C"
    by (rule child_entries_perm [OF assms(8) w(2,3)])
  obtain l3 where r: "txn_rollback lib h l2 = (TDB_SUCCESS, l3)"
    using lib_reliable_rules(8) [OF assms(3)] w(4) unfolding running_def by blast
  have "s_db s (txn_free lib h l3) = s_db s l"
    using lib_stores_txn(6) [OF assms(1), of h l3] lib_stores_txn(7) [OF assms(1) r] w(5) by (simp add: sem_frame_def)
  moreover have "mset (filter q (child_entries es)) = mset (filter q C)" for q
    using E by simp
  ultimately show ?thesis
    using assms(6,9-11) b(1) w(1) r by (simp add: fk_load_def Let_def fold_load)
qed
lemma parent_shape_keeps:
  assumes "lib_stores lib s" "lib_owns lib g D" "lib_reliable lib g good" "good l" "tdb_fk_parent_key_shape lib pcf pin l = (out, l')"
  shows "good l' \<and> s_db s l' = s_db s l"
proof -
  have "good l1 \<and> s_db s l1 = s_db s l" if "tdb_key_shape_load lib (Some c) pin l = (r, l1)" for c r l1
    using that get_alone_db [OF assms(1-4), of c "tdb_key_shape_meta_key pin"] assms(4)
    by (auto simp: tdb_key_shape_load_def split: option.splits if_splits)
  then show ?thesis
    using assms(4,5) unfolding tdb_fk_parent_key_shape_def by (auto split: if_splits option.splits prod.splits)
qed

lemma spec_entry_keeps:
  assumes "lib_stores lib s" "lib_owns lib g D" "lib_reliable lib g good" "good l" "spec_entry lib cf t spec name l = (e, l')"
  shows "good l' \<and> s_db s l' = s_db s l"
  using assms(4,5) parent_shape_keeps [OF assms(1-4)]
  by (auto simp: spec_entry_def Let_def split: option.splits if_splits prod.splits)

lemma spec_entries_keeps:
  assumes "lib_stores lib s" "lib_owns lib g D" "lib_reliable lib g good" "good l" "spec_entries lib cf t sps n l = (es, l')"
  shows "good l' \<and> s_db s l' = s_db s l"
  using assms(4,5)
proof (induction sps arbitrary: n l es l')
  case (Cons spec sps)
  obtain name n1 where nm: "(if sp_name spec \<noteq> [] then (sp_name spec, n)
      else (take 63 (ft_name t @ ''_ibfk_'' @ nat_to_string (Suc n)), Suc n)) = (name, n1)"
    by (metis prod.exhaust)
  obtain e l1 where e: "spec_entry lib cf t spec name l = (e, l1)"
    by (metis prod.exhaust)
  have l1: "good l1" "s_db s l1 = s_db s l"
    using spec_entry_keeps [OF assms(1-3) Cons.prems(1) e] by simp_all
  obtain es2 l2 where es2: "spec_entries lib cf t sps n1 l1 = (es2, l2)"
    by (metis prod.exhaust)
  show ?case
    using Cons.IH [OF l1(1) es2] l1 Cons.prems(2)
    unfolding spec_entries.simps nm by (auto simp: e es2 split: option.splits)
qed auto

lemma persist_implements:
  assumes "lib_stores lib s" "lib_owns lib g D" "lib_reliable lib g good" "good l"
    "\<And>l. good l \<Longrightarrow> get_column_family lib FK_CATALOG_CF l = Some c" "\<And>k. s_db s l (c, k) = catalog_of C k"
    "sps \<noteq> []" "spec_entries lib (to_cf_name path) t sps 0 l = (Some es, l1)" "wf_catalog (C @ es)"
  shows "\<exists>l'. fk_persist_defs lib path t sps l = (HA_OK, l') \<and> good l' \<and> (\<forall>k. s_db s l' (c, k) = catalog_of (C @ es) k) \<and>
    (\<forall>c' k. c' \<noteq> c \<longrightarrow> s_db s l' (c', k) = s_db s l (c', k))"
proof -
  have l1: "good l1" "s_db s l1 = s_db s l"
    using spec_entries_keeps [OF assms(1-4,8)] by simp_all
  have cf: "fk_catalog_cf lib l1 = (Some c, l1)"
    by (simp add: fk_catalog_cf_def assms(5) [OF l1(1)])
  obtain h l3 where b: "txn_begin lib l1 = (TDB_SUCCESS, Some h, l3)" "running g good s h l3" "s_db s l3 = s_db s l1"
    "fst (s_txn s l3 h) = s_db s l1"
    using begin_running [OF assms(1-3) l1(1)] .
  define kvs where "kvs = concat (map entry_records es)"
  define l4 where "l4 = put_records lib h c kvs l3"
  have "wf_catalog es"
    using assms(9) by (auto simp: wf_catalog_def)
  then have "distinct (map fst kvs)"
    unfolding kvs_def by (rule wf_catalog_distinct_keys)
  then have l4: "running g good s h l4" "put_all lib h c kvs l3 = (TDB_SUCCESS, l4)"
    "fst (s_txn s l4 h) = (\<lambda>p. if fst p = c \<and> map_of kvs (snd p) \<noteq> None then map_of kvs (snd p) else s_db s l p)"
    using put_records_running [OF assms(1-3) b(2), of kvs c, unfolded b(4) l1(2)] put_all_running [OF assms(1-3) b(2), of c kvs]
    unfolding l4_def by blast+
  obtain l5 where l5: "txn_commit lib h l4 = (TDB_SUCCESS, l5)" "good l5" "s_db s l5 = fst (s_txn s l4 h)"
    using commit_running [OF assms(1-3) l4(1)] by blast
  have "fk_persist_defs lib path t sps l = (HA_OK, txn_free lib h l5)"
    using assms(7) by (simp add: fk_persist_defs_def assms(8) cf b(1) kvs_def [symmetric] l4(2) l5(1))
  moreover have "s_db s (txn_free lib h l5) = s_db s l5"
    using lib_stores_txn(6) [OF assms(1), of h l5] by (simp add: sem_frame_def)
  moreover have "s_db s l5 (c, k) = catalog_of (C @ es) k" for k
  proof (cases "map_of kvs k")
    case None
    then show ?thesis
      by (simp add: l5(3) l4(3) assms(6) catalog_of_def kvs_def map_add_def split: option.split)
  next
    case (Some v)
    then have "catalog_of es k = Some v"
      by (simp add: catalog_of_def kvs_def)
    then have "catalog_of (C @ es) k = Some v"
      unfolding catalog_of_iff [OF \<open>wf_catalog es\<close>] catalog_of_iff [OF assms(9)] by auto
    then show ?thesis
      using Some by (simp add: l5(3) l4(3))
  qed
  moreover have "s_db s l5 (c', k) = s_db s l (c', k)" if "c' \<noteq> c" for c' k
    using that by (simp add: l5(3) l4(3))
  ultimately show ?thesis
    using lib_reliable_rules(3) [OF assms(3) l5(2)] by simp
qed

section \<open>Properties\<close>

text \<open>The three statements that change the catalog, and what each does to the list of constraints.\<close>

datatype fk_op =
    Fk_create string fk_table "tdb_fk_spec list"
  | Fk_rename string string
  | Fk_drop string

fun fk_do :: "'l tdb_lib \<Rightarrow> (string \<Rightarrow> string) \<Rightarrow> fk_op \<Rightarrow> 'l \<Rightarrow> (ha_rc \<times> 'l) option" where
  "fk_do lib dec (Fk_create path t sps) l = Some (fk_persist_defs lib path t sps l)"
| "fk_do lib dec (Fk_rename from to) l = fk_rename_catalog lib dec from to l"
| "fk_do lib dec (Fk_drop cfn) l = fk_purge_catalog lib cfn l"

fun fk_abs :: "'l tdb_lib \<Rightarrow> (string \<Rightarrow> string) \<Rightarrow> fk_op \<Rightarrow> 'l \<Rightarrow> fk_catalog_entry list \<Rightarrow> ha_rc \<times> fk_catalog_entry list" where
  "fk_abs lib dec (Fk_create path t sps) l C =
     (case fst (spec_entries lib (to_cf_name path) t sps 0 l) of
        None \<Rightarrow> (HA_ERR_UNSUPPORTED, C)
      | Some es \<Rightarrow> (HA_OK, C @ es))"
| "fk_abs lib dec (Fk_rename from to) l C =
     (HA_OK, if to_cf_name from = to_cf_name to then C
             else map (rename_entry (to_cf_name from) (to_cf_name to) (dec (tp_db (split_table_path to)))
                         (dec (tp_table (split_table_path to)))) C)"
| "fk_abs lib dec (Fk_drop cfn) l C =
     (HA_OK, filter (\<lambda>e. \<not> (fe_child_cf e = cfn \<or> fe_parent_cf e = cfn)) C)"

definition holds_catalog :: "'l lib_sem \<Rightarrow> cf \<Rightarrow> fk_catalog_entry list \<Rightarrow> 'l \<Rightarrow> bool" where
  "holds_catalog s c C l \<longleftrightarrow> wf_catalog C \<and> (\<forall>k. s_db s l (c, k) = catalog_of C k)"

text \<open>C8: The catalog implements a list of constraints. Creating a table adds its constraints or is refused with nothing changed,
  renaming one renames it on both sides of every constraint that names it, dropping one removes those constraints; no other
  column family is touched, and opening a table afterwards loads exactly the constraints it takes part in, once each.
  The constraints keep distinct names per table, and the library does not fail.\<close>

theorem fk_catalog_refines:
  assumes "lib_stores lib s" and "lib_owns lib g D" and "lib_reliable lib g good" and "lib_iterates lib s" and "good l"
    and cat: "\<And>l. good l \<Longrightarrow> get_column_family lib FK_CATALOG_CF l = Some c"
    and "holds_catalog s c C l" and "fk_abs lib dec op l C = (rc, C')" and "wf_catalog C'"
  shows "\<exists>l'. fk_do lib dec op l = Some (rc, l') \<and> holds_catalog s c C' l' \<and>
    (\<forall>c' k. c' \<noteq> c \<longrightarrow> s_db s l' (c', k) = s_db s l (c', k)) \<and>
    (\<forall>t cfn. \<exists>sh l''. fk_load lib t \<lparr>fs_cf_name = cfn, fs_child = [], fs_parent = [], fs_loaded = False\<rparr> l' = Some (sh, l'') \<and>
       mset (fs_child sh) = mset (map (child_def t) (filter (\<lambda>e. fe_child_cf e = cfn) C')) \<and>
       mset (fs_parent sh) = mset (map (parent_def t) (filter (\<lambda>e. fe_parent_cf e = cfn) C')))"
proof -
  have C: "wf_catalog C" "\<And>k. s_db s l (c, k) = catalog_of C k"
    using assms(7) by (simp_all add: holds_catalog_def)
  have "\<exists>l'. fk_do lib dec op l = Some (rc, l') \<and> good l' \<and> (\<forall>k. s_db s l' (c, k) = catalog_of C' k) \<and>
      (\<forall>c' k. c' \<noteq> c \<longrightarrow> s_db s l' (c', k) = s_db s l (c', k))"
  proof (cases op)
    case (Fk_create path t sps)
    obtain o1 l1 where sp: "spec_entries lib (to_cf_name path) t sps 0 l = (o1, l1)"
      by (metis prod.exhaust)
    have l1: "good l1" "s_db s l1 = s_db s l"
      using spec_entries_keeps [OF assms(1-3,5) sp] by simp_all
    show ?thesis
    proof (cases "sps = []")
      case True
      then show ?thesis
        using assms(5,8) C(2) by (auto simp: Fk_create fk_persist_defs_def)
    next
      case ne: False
      show ?thesis
      proof (cases o1)
        case None
        then show ?thesis
          using assms(8) C(2) l1 ne by (auto simp: Fk_create fk_persist_defs_def sp)
      next
        case (Some es)
        then have "rc = HA_OK" "C' = C @ es"
          using assms(8) by (simp_all add: Fk_create sp)
        then show ?thesis
          using persist_implements [OF assms(1-3,5) cat C(2) ne sp [unfolded Some]] assms(9) by (auto simp: Fk_create)
      qed
    qed
  next
    case (Fk_rename p q)
    show ?thesis
    proof (cases "to_cf_name p = to_cf_name q")
      case True
      then show ?thesis
        using assms(5,8) C(2) by (auto simp: Fk_rename fk_rename_catalog_def)
    next
      case False
      then show ?thesis
        using rename_implements [OF assms(1-5) cat [OF assms(5)] C(2,1) False, of dec] assms(8,9) by (auto simp: Fk_rename)
    qed
  next
    case (Fk_drop cfn)
    then show ?thesis
      using purge_implements [OF assms(1-5) cat [OF assms(5)] C(2,1), of cfn] assms(8) by auto
  qed
  then obtain l' where l': "fk_do lib dec op l = Some (rc, l')" "good l'" "\<And>k. s_db s l' (c, k) = catalog_of C' k"
      "\<forall>c' k. c' \<noteq> c \<longrightarrow> s_db s l' (c', k) = s_db s l (c', k)"
    by blast
  have "\<exists>sh l''. fk_load lib t \<lparr>fs_cf_name = cfn, fs_child = [], fs_parent = [], fs_loaded = False\<rparr> l' = Some (sh, l'') \<and>
       mset (fs_child sh) = mset (map (child_def t) (filter (\<lambda>e. fe_child_cf e = cfn) C')) \<and>
       mset (fs_parent sh) = mset (map (parent_def t) (filter (\<lambda>e. fe_parent_cf e = cfn) C'))" for t cfn
    using load_implements [OF assms(1-4) l'(2) cat [OF l'(2)] l'(3) assms(9),
        of "\<lparr>fs_cf_name = cfn, fs_child = [], fs_parent = [], fs_loaded = False\<rparr>" t] by auto
  then show ?thesis
    using l' assms(9) by (auto simp: holds_catalog_def)
qed

definition demo_child :: fk_table where
  "demo_child = \<lparr>ft_db = ''d'', ft_name = ''c'', ft_fields = [(''id'', False), (''pid'', True)],
     ft_keys = [(''PRIMARY'', [(''id'', False)]), (''kp'', [(''pid'', False)])], ft_primary = Some 0\<rparr>"

definition demo_create :: fk_op where
  "demo_create = Fk_create ''./d/c'' demo_child
     [\<lparr>sp_name = ''f'', sp_on_delete = 2, sp_on_update = 1, sp_ref_db = [], sp_ref_table = ''p'', sp_child_columns = [''pid''],
       sp_ref_columns = [''id''], sp_parent_index_name = ''PRIMARY''\<rparr>]"

definition demo_entry :: fk_catalog_entry where
  "demo_entry = \<lparr>fe_name = ''f'', fe_child_cf = ''d__c'', fe_child_db = ''d'', fe_child_table = ''c'', fe_child_columns = [''pid''],
     fe_child_nullable = [1], fe_ref_db = ''d'', fe_ref_table = ''p'', fe_parent_cf = ''d__p'', fe_ref_columns = [''id''],
     fe_child_index_name = ''kp'', fe_parent_index_name = ''PRIMARY'', fe_parent_nullable = [], fe_parent_is_pk = 1,
     fe_on_delete = 2, fe_on_update = 1\<rparr>"

definition demo_mem :: mem where
  "demo_mem = mem_init\<lparr>m_cfs := [(FK_CATALOG_CF, 0)]\<rparr>"

theorem fk_catalog_refines_witness:
  "\<exists>l'. fk_do (mem_lib []) id demo_create demo_mem = Some (HA_OK, l') \<and> holds_catalog mem_sem 0 [demo_entry] l'"
proof -
  have abs: "fk_abs (mem_lib []) id demo_create demo_mem [] = (HA_OK, [demo_entry])"
    by code_simp
  have "wf_catalog [demo_entry]"
    by (simp add: wf_catalog_def wf_entry_def demo_entry_def entry_fits_def names_fit_def fits_def nul_free_def bytes_of_def)
  moreover have "holds_catalog mem_sem 0 [] demo_mem"
    by (simp add: holds_catalog_def wf_catalog_def catalog_of_def mem_sem_def demo_mem_def mem_init_def)
  moreover have "mem_good (\<lambda>cfs. map_of cfs FK_CATALOG_CF = Some 0) demo_mem"
    by (simp add: mem_good_def demo_mem_def mem_init_def)
  moreover have "get_column_family (mem_lib []) FK_CATALOG_CF m = Some 0"
    if "mem_good (\<lambda>cfs. map_of cfs FK_CATALOG_CF = Some 0) m" for m
    using that by (simp add: mem_good_def mem_lib_def)
  ultimately obtain l' where "fk_do (mem_lib []) id demo_create demo_mem = Some (HA_OK, l')" "holds_catalog mem_sem 0 [demo_entry] l'"
    using fk_catalog_refines [OF mem_lib_stores mem_lib_owns mem_lib_reliable mem_lib_iterates _ _ _ abs, of "\<lambda>cfs. map_of cfs FK_CATALOG_CF = Some 0" 0]
    by fastforce
  then show ?thesis
    by blast
qed

end
