(* ===== verification/Fk_Check.thy ===== *)
theory Fk_Check
  imports Fk_Catalog Key_Codec Row_Format
begin

text \<open>
  Enforcement of foreign keys, \<^verbatim>\<open>src/tidesdb/src/handler/ha_tidesdb_fk.cc\<close> (second half): the probe for the parent of a new
  row, the search for rows that reference an old one, and the referential actions. The other tables open in the
  statement are reached through the server's handler interface; each is a record of the calls the code makes on it.
\<close>

section \<open>The checking table\<close>

text \<open>What the checks read of the handler: the server's sort keys, the table's keys, its constraints, and three flags.\<close>

record fk_env =
  fx_ss :: sort_string
  fx_stale :: "nat \<Rightarrow> u8"
  fx_keys :: "key_info list"
  fx_child :: "tdb_fk_def list"
  fx_parent :: "tdb_fk_def list"
  fx_in_cascade :: bool
  fx_checks_off :: bool
  fx_stmt_txn :: "txn option"

definition CF_INDEX_INFIX :: string where "CF_INDEX_INFIX = ''__idx_''"

definition index_cf_name :: "string \<Rightarrow> string \<Rightarrow> string" where
  "index_cf_name cf index_name = cf @ CF_INDEX_INFIX @ index_name"

text \<open>Whether a family has a key that starts with the given bytes, scanned between them and them followed by the top byte.\<close>

definition fk_prefix_scan :: "'l tdb_lib \<Rightarrow> txn \<Rightarrow> cf \<Rightarrow> bytes \<Rightarrow> 'l \<Rightarrow> (bool \<times> 'l) option" where
  "fk_prefix_scan lib h c pre l =
     (case iter_new_range lib h c pre (pre @ [0xFF]) l of
        (rc, out, l1) \<Rightarrow>
          (case (if rc = TDB_SUCCESS then out else None) of
             None \<Rightarrow> Some (False, l1)
           | Some it \<Rightarrow>
               map_option (\<lambda>(b, l2). (b, iter_free lib it l2)) (scan_prefix lib it pre (iter_seek lib it pre l1))))"

abbreviation data_key :: "bytes \<Rightarrow> bytes" where
  "data_key pk \<equiv> fst (build_data_key pk)"

text \<open>One constraint of the child: skipped, or the parent is there, or the error.\<close>

definition fk_check_one :: "'l tdb_lib \<Rightarrow> fk_env \<Rightarrow> txn \<Rightarrow> tdb_fk_def \<Rightarrow> row \<Rightarrow> 'l \<Rightarrow> (ha_rc \<times> 'l) option" where
  "fk_check_one lib env h d r l =
     (case fd_child_key_no d of
        None \<Rightarrow> Some (HA_OK, l)
      | Some kno \<Rightarrow>
          if list_ex (\<lambda>fi. fst (r fi)) (fd_child_fields d) then Some (HA_OK, l)
          else let pre = make_comparable_key (fx_ss env) (fx_stale env) (fx_keys env ! kno) r (length (fd_child_fields d))
                           (Some (fd_parent_nullable d))
            in if fd_parent_is_pk d
               then (case get_column_family lib (fd_parent_cf d) l of
                       None \<Rightarrow> Some (HA_OK, l)
                     | Some c \<Rightarrow>
                         (case txn_contains lib h c (data_key pre) l of
                            (rc, l1) \<Rightarrow>
                              Some (if rc = TDB_SUCCESS then HA_OK
                                    else if rc \<noteq> TDB_ERR_NOT_FOUND then tdb_rc_to_ha rc
                                    else HA_ERR_NO_REFERENCED_ROW, l1)))
               else (case get_column_family lib (index_cf_name (fd_parent_cf d) (fd_parent_index_name d)) l of
                       None \<Rightarrow> Some (HA_OK, l)
                     | Some c \<Rightarrow>
                         map_option (\<lambda>(present, l1). (if present then HA_OK else HA_ERR_NO_REFERENCED_ROW, l1))
                           (fk_prefix_scan lib h c pre l)))"

fun fk_check_each :: "'l tdb_lib \<Rightarrow> fk_env \<Rightarrow> txn \<Rightarrow> tdb_fk_def list \<Rightarrow> row \<Rightarrow> 'l \<Rightarrow> (ha_rc \<times> 'l) option" where
  "fk_check_each lib env h [] r l = Some (HA_OK, l)"
| "fk_check_each lib env h (d # ds) r l =
     (case fk_check_one lib env h d r l of
        None \<Rightarrow> None
      | Some (rc, l1) \<Rightarrow> if rc \<noteq> HA_OK then Some (rc, l1) else fk_check_each lib env h ds r l1)"

definition fk_check_child :: "'l tdb_lib \<Rightarrow> fk_env \<Rightarrow> row \<Rightarrow> 'l \<Rightarrow> (ha_rc \<times> 'l) option" where
  "fk_check_child lib env r l =
     (if fx_child env = [] \<or> fx_in_cascade env \<or> fx_checks_off env then Some (HA_OK, l)
      else case fx_stmt_txn env of
        None \<Rightarrow> Some (HA_OK, l)
      | Some h \<Rightarrow> fk_check_each lib env h (fx_child env) r l)"

section \<open>Rows that reference an old one\<close>

fun fk_encode_parts :: "sort_string \<Rightarrow> bytes \<Rightarrow> nat \<Rightarrow> key_part list \<Rightarrow> row \<Rightarrow> bytes" where
  "fk_encode_parts ss child_nullable p [] r = []"
| "fk_encode_parts ss child_nullable p (kp # kps) r =
     (if p < length child_nullable \<and> child_nullable ! p \<noteq> 0 then [SORT_KEY_NOT_NULL] else []) @
     ss (kp_field kp) (snd (field_of kp r)) (kp_length kp) @ fk_encode_parts ss child_nullable (Suc p) kps r"

definition fk_encode_child_prefix :: "sort_string \<Rightarrow> key_info \<Rightarrow> nat \<Rightarrow> row \<Rightarrow> bytes \<Rightarrow> bytes" where
  "fk_encode_child_prefix ss ki nparts r child_nullable = fk_encode_parts ss child_nullable 0 (take nparts (key_parts ki)) r"

definition fk_child_ref_exists :: "'l tdb_lib \<Rightarrow> fk_env \<Rightarrow> tdb_fk_def \<Rightarrow> row \<Rightarrow> 'l \<Rightarrow> (bool \<times> 'l) option" where
  "fk_child_ref_exists lib env d r l =
     (case (fx_stmt_txn env, fd_parent_key_no d) of
        (Some h, Some kno) \<Rightarrow>
          let pre = fk_encode_child_prefix (fx_ss env) (fx_keys env ! kno) (length (fd_parent_fields d)) r (fd_child_nullable d)
          in (case get_column_family lib (index_cf_name (fd_child_cf d) (fd_child_index_name d)) l of
                None \<Rightarrow> Some (False, l)
              | Some c \<Rightarrow> fk_prefix_scan lib h c pre l)
      | _ \<Rightarrow> Some (False, l))"

definition fk_restrict :: "'l tdb_lib \<Rightarrow> fk_env \<Rightarrow> tdb_fk_def \<Rightarrow> row \<Rightarrow> 'l \<Rightarrow> (ha_rc \<times> 'l) option" where
  "fk_restrict lib env d r l =
     map_option (\<lambda>(found, l1). (if found then HA_ERR_ROW_IS_REFERENCED else HA_OK, l1)) (fk_child_ref_exists lib env d r l)"

section \<open>Cascades\<close>

text \<open>
  A table open in the statement. Its calls act on the state \<open>'x\<close> of the server and the other handlers together with the
  library's; a read returns the row it left in the record buffer. \<open>field_conv\<close>, \<open>key_copy\<close> and \<open>position\<close> are the server's.
\<close>

record ('x, 'l) child_table =
  ct_db :: string
  ct_name :: string
  ct_has_file :: bool
  ct_writable :: bool
  ct_keys :: "(string \<times> (nat \<times> nat) list) list"
  ct_index_init :: "nat \<Rightarrow> 'x \<times> 'l \<Rightarrow> ha_rc \<times> ('x \<times> 'l)"
  ct_index_read_map :: "bytes \<Rightarrow> nat \<Rightarrow> 'x \<times> 'l \<Rightarrow> ha_rc \<times> row \<times> ('x \<times> 'l)"
  ct_index_next_same :: "bytes \<Rightarrow> nat \<Rightarrow> 'x \<times> 'l \<Rightarrow> ha_rc \<times> row \<times> ('x \<times> 'l)"
  ct_index_end :: "'x \<times> 'l \<Rightarrow> 'x \<times> 'l"
  ct_position :: "row \<Rightarrow> 'x \<times> 'l \<Rightarrow> bytes"
  ct_rnd_init :: "'x \<times> 'l \<Rightarrow> ha_rc \<times> ('x \<times> 'l)"
  ct_rnd_pos :: "bytes \<Rightarrow> 'x \<times> 'l \<Rightarrow> ha_rc \<times> row \<times> ('x \<times> 'l)"
  ct_rnd_end :: "'x \<times> 'l \<Rightarrow> 'x \<times> 'l"
  ct_set_in_cascade :: "bool \<Rightarrow> 'x \<times> 'l \<Rightarrow> 'x \<times> 'l"
  ct_delete_row :: "row \<Rightarrow> 'x \<times> 'l \<Rightarrow> ha_rc \<times> ('x \<times> 'l)"
  ct_update_row :: "row \<Rightarrow> row \<Rightarrow> 'x \<times> 'l \<Rightarrow> ha_rc \<times> ('x \<times> 'l)"
  ct_record :: "'x \<times> 'l \<Rightarrow> row"
  ct_key_copy :: "row \<Rightarrow> nat \<Rightarrow> nat \<Rightarrow> bytes"
  ct_field_conv :: "nat \<Rightarrow> bytes \<Rightarrow> bytes"

definition fk_find_open_table :: "('x, 'l) child_table list \<Rightarrow> string \<Rightarrow> string \<Rightarrow> ('x, 'l) child_table option" where
  "fk_find_open_table tables db tbl = find (\<lambda>t. ct_db t = db \<and> ct_name t = tbl) tables"

partial_function (option) collect_same ::
  "('x, 'l) child_table \<Rightarrow> bytes \<Rightarrow> nat \<Rightarrow> ha_rc \<Rightarrow> row \<Rightarrow> 'x \<times> 'l \<Rightarrow> bytes list \<Rightarrow> (ha_rc \<times> bytes list \<times> ('x \<times> 'l)) option" where
  "collect_same ct keybuf key_len rc r st refs =
     (if rc \<noteq> HA_OK then Some (rc, refs, st)
      else case ct_index_next_same ct keybuf key_len st of
        (rc1, r1, st1) \<Rightarrow> collect_same ct keybuf key_len rc1 r1 st1 (refs @ [ct_position ct r st]))"

definition fk_collect_child_refs ::
  "('x, 'l) child_table \<Rightarrow> nat \<Rightarrow> nat \<Rightarrow> bytes \<Rightarrow> nat \<Rightarrow> 'x \<times> 'l \<Rightarrow> (ha_rc \<times> bytes list \<times> ('x \<times> 'l)) option" where
  "fk_collect_child_refs ct cidx nparts keybuf key_len st =
     (let finish = (\<lambda>rc. if rc = HA_ERR_END_OF_FILE \<or> rc = HA_ERR_KEY_NOT_FOUND then HA_OK else rc)
      in case ct_index_init ct cidx st of
           (irc, st1) \<Rightarrow>
             if irc \<noteq> HA_OK then Some (finish irc, [], st1)
             else (case ct_index_read_map ct keybuf nparts st1 of
                     (rc, r, st2) \<Rightarrow>
                       map_option (\<lambda>(rc', refs, st3). (finish rc', refs, ct_index_end ct st3))
                         (collect_same ct keybuf key_len rc r st2 [])))"

text \<open>The new key columns of a child row: null, or the parent's new values.\<close>

definition cascade_row :: "('x, 'l) child_table \<Rightarrow> tdb_fk_def \<Rightarrow> nat list \<Rightarrow> row option \<Rightarrow> row \<Rightarrow> row" where
  "cascade_row ct d cols new_row r =
     fold (\<lambda>(i, f) r.
        r(f := (case new_row of
                  None \<Rightarrow> (True, snd (r f))
                | Some n \<Rightarrow> (False, ct_field_conv ct f (snd (n (fd_parent_fields d ! i)))))))
       (List.enumerate 0 cols) r"

fun cascade_each ::
  "('x, 'l) child_table \<Rightarrow> tdb_fk_def \<Rightarrow> nat list \<Rightarrow> row option \<Rightarrow> bool \<Rightarrow> bytes list \<Rightarrow> 'x \<times> 'l \<Rightarrow> ha_rc \<times> ('x \<times> 'l)" where
  "cascade_each ct d cols new_row remove [] st = (HA_OK, st)"
| "cascade_each ct d cols new_row remove (p # refs) st =
     (case ct_rnd_pos ct p st of
        (rc, r, st1) \<Rightarrow>
          if rc \<noteq> HA_OK then cascade_each ct d cols new_row remove refs st1
          else (case (if remove then ct_delete_row ct r st1 else ct_update_row ct r (cascade_row ct d cols new_row r) st1) of
                  (rc2, st2) \<Rightarrow> if rc2 \<noteq> HA_OK then (rc2, st2) else cascade_each ct d cols new_row remove refs st2))"

definition fk_apply_cascade ::
  "('x, 'l) child_table \<Rightarrow> tdb_fk_def \<Rightarrow> nat list \<Rightarrow> row option \<Rightarrow> bool \<Rightarrow> bytes list \<Rightarrow> 'x \<times> 'l \<Rightarrow> ha_rc \<times> ('x \<times> 'l)" where
  "fk_apply_cascade ct d cols new_row nulls refs st =
     (let st1 = ct_set_in_cascade ct True st;
          (result, st2) =
            (if refs = [] then (HA_OK, st1)
             else case ct_rnd_init ct st1 of
               (irc, st3) \<Rightarrow>
                 if irc \<noteq> HA_OK then (HA_OK, st3)
                 else (case cascade_each ct d cols (if nulls then None else new_row) (new_row = None \<and> \<not> nulls) refs st3 of
                         (rc, st4) \<Rightarrow> (rc, ct_rnd_end ct st4)))
      in (result, ct_set_in_cascade ct False st2))"

definition fk_cascade_children ::
  "'l tdb_lib \<Rightarrow> fk_env \<Rightarrow> (fk_option \<Rightarrow> u8) \<Rightarrow> ('x, 'l) child_table list \<Rightarrow> tdb_fk_def \<Rightarrow> row \<Rightarrow> row option \<Rightarrow> 'x \<times> 'l
     \<Rightarrow> (ha_rc \<times> ('x \<times> 'l)) option" where
  "fk_cascade_children lib env code tables d old_row new_row st =
     (let act = (if new_row = None then fd_on_delete d else fd_on_update d);
          nulls = (act = code FK_OPTION_SET_NULL)
      in case (case fk_find_open_table tables (fd_child_db d) (fd_child_table d) of
                 None \<Rightarrow> None
               | Some t \<Rightarrow> if ct_writable t \<and> ct_has_file t then Some t else None) of
           None \<Rightarrow> map_option (\<lambda>(rc, l1). (rc, (fst st, l1))) (fk_restrict lib env d old_row (snd st))
         | Some ct \<Rightarrow>
             (case first_at (\<lambda>k. fst k = fd_child_index_name d) (ct_keys ct) 0 of
                None \<Rightarrow> Some (HA_OK, st)
              | Some cidx \<Rightarrow>
                  let parts = take (length (fd_parent_fields d)) (snd (ct_keys ct ! cidx));
                      key_len = sum_list (map snd parts);
                      probe = cascade_row ct d (map fst parts) (Some old_row) (ct_record ct st);
                      keybuf = ct_key_copy ct probe cidx key_len
                  in (case fk_collect_child_refs ct cidx (length parts) keybuf key_len st of
                        None \<Rightarrow> None
                      | Some (rc, refs, st1) \<Rightarrow>
                          Some (if rc \<noteq> HA_OK then (rc, st1)
                                else fk_apply_cascade ct d (map fst parts) new_row nulls refs st1))))"

fun fk_parent_delete_each ::
  "'l tdb_lib \<Rightarrow> fk_env \<Rightarrow> (fk_option \<Rightarrow> u8) \<Rightarrow> ('x, 'l) child_table list \<Rightarrow> tdb_fk_def list \<Rightarrow> row \<Rightarrow> 'x \<times> 'l
     \<Rightarrow> (ha_rc \<times> ('x \<times> 'l)) option" where
  "fk_parent_delete_each lib env code tables [] r st = Some (HA_OK, st)"
| "fk_parent_delete_each lib env code tables (d # ds) r st =
     (if fd_parent_key_no d = None then fk_parent_delete_each lib env code tables ds r st
      else case (if fd_on_delete d = code FK_OPTION_CASCADE \<or> fd_on_delete d = code FK_OPTION_SET_NULL
                 then fk_cascade_children lib env code tables d r None st
                 else map_option (\<lambda>(rc, l1). (rc, (fst st, l1))) (fk_restrict lib env d r (snd st))) of
        None \<Rightarrow> None
      | Some (rc, st1) \<Rightarrow> if rc \<noteq> HA_OK then Some (rc, st1) else fk_parent_delete_each lib env code tables ds r st1)"

definition fk_enforce_parent_delete ::
  "'l tdb_lib \<Rightarrow> fk_env \<Rightarrow> (fk_option \<Rightarrow> u8) \<Rightarrow> ('x, 'l) child_table list \<Rightarrow> row \<Rightarrow> 'x \<times> 'l \<Rightarrow> (ha_rc \<times> ('x \<times> 'l)) option" where
  "fk_enforce_parent_delete lib env code tables r st =
     (if fx_parent env = [] \<or> fx_checks_off env \<or> fx_stmt_txn env = None then Some (HA_OK, st)
      else fk_parent_delete_each lib env code tables (fx_parent env) r st)"

fun fk_parent_update_each ::
  "'l tdb_lib \<Rightarrow> fk_env \<Rightarrow> (fk_option \<Rightarrow> u8) \<Rightarrow> ('x, 'l) child_table list \<Rightarrow> tdb_fk_def list \<Rightarrow> row \<Rightarrow> row \<Rightarrow> 'x \<times> 'l
     \<Rightarrow> (ha_rc \<times> ('x \<times> 'l)) option" where
  "fk_parent_update_each lib env code tables [] r n st = Some (HA_OK, st)"
| "fk_parent_update_each lib env code tables (d # ds) r n st =
     (case fd_parent_key_no d of
        None \<Rightarrow> fk_parent_update_each lib env code tables ds r n st
      | Some kno \<Rightarrow>
          let ki = fx_keys env ! kno; nparts = length (fd_parent_fields d)
          in if fk_encode_child_prefix (fx_ss env) ki nparts r (fd_child_nullable d) =
                fk_encode_child_prefix (fx_ss env) ki nparts n (fd_child_nullable d)
             then fk_parent_update_each lib env code tables ds r n st
             else case (if fd_on_update d = code FK_OPTION_CASCADE \<or> fd_on_update d = code FK_OPTION_SET_NULL
                        then fk_cascade_children lib env code tables d r (Some n) st
                        else map_option (\<lambda>(rc, l1). (rc, (fst st, l1))) (fk_restrict lib env d r (snd st))) of
               None \<Rightarrow> None
             | Some (rc, st1) \<Rightarrow> if rc \<noteq> HA_OK then Some (rc, st1) else fk_parent_update_each lib env code tables ds r n st1)"

definition fk_enforce_parent_update ::
  "'l tdb_lib \<Rightarrow> fk_env \<Rightarrow> (fk_option \<Rightarrow> u8) \<Rightarrow> ('x, 'l) child_table list \<Rightarrow> row \<Rightarrow> row \<Rightarrow> 'x \<times> 'l \<Rightarrow> (ha_rc \<times> ('x \<times> 'l)) option" where
  "fk_enforce_parent_update lib env code tables r n st =
     (if fx_parent env = [] \<or> fx_checks_off env \<or> fx_stmt_txn env = None then Some (HA_OK, st)
      else fk_parent_update_each lib env code tables (fx_parent env) r n st)"

section \<open>Lemmas\<close>

lemma append_order: "pre @ x < pre @ y \<longleftrightarrow> x < (y :: bytes)" "pre \<le> pre @ x"
  by (induction pre) auto

lemma top_byte: "y < 0xFF \<longleftrightarrow> y \<noteq> (0xFF :: u8)"
proof -
  have "unat y < 256"
    using unsigned_less [of y] by simp
  then have "y \<le> 0xFF"
    by (simp add: word_le_nat_alt)
  then show ?thesis
    by (simp add: less_le)
qed

text \<open>A key that starts with the prefix is below the upper bound of the scan unless its next byte is the top one.\<close>

lemma prefix_below: "pre @ x < pre @ [0xFF] \<longleftrightarrow> x = [] \<or> hd x \<noteq> (0xFF :: u8)"
  unfolding append_order by (cases x) (auto simp: top_byte)

definition referenced :: "store \<Rightarrow> cf \<Rightarrow> bytes \<Rightarrow> bool" where
  "referenced d c pre \<longleftrightarrow> (\<exists>x. d (c, pre @ x) \<noteq> None \<and> (x = [] \<or> hd x \<noteq> 0xFF))"

lemma prefix_scan_exact:
  assumes "lib_stores lib s" "lib_owns lib g D" "lib_reliable lib g good" "lib_iterates lib s" "running g good s h l"
  shows "\<exists>l'. fk_prefix_scan lib h c pre l = Some (referenced (fst (s_txn s l h)) c pre, l') \<and> running g good s h l' \<and>
    s_db s l' = s_db s l \<and> s_txn s l' = s_txn s l"
proof -
  have r: "good l" "h \<in> g_live g l" "consistent s h l"
    using assms(5) by (simp_all add: running_def)
  let ?v = "\<lambda>k. if in_range c pre (pre @ [0xFF]) (c, k) then fst (s_txn s l h) (c, k) else None"
  obtain it l1 where i: "iter_new_range lib h c pre (pre @ [0xFF]) l = (TDB_SUCCESS, Some it, l1)" "good l1"
    using lib_reliable_rules(15) [OF assms(3) r(1,2)] by blast
  obtain es where es: "es_sorted es" "map_of es = ?v" "sem_iter_set s it (Some (es, -1)) l l1"
    using lib_iterates_rules(9) [OF assms(4) i(1)] by (auto simp: sem_opened_def)
  have d: "distinct (map fst es)"
    using es(1) by (auto simp: es_sorted_def strict_sorted_iff)
  have mem: "(k, v) \<in> set es \<longleftrightarrow> ?v k = Some v" for k v
    using map_of_eq_Some_iff [OF d, of k v] unfolding es(2) by (rule sym)
  have "\<not> fst e < pre" if "e \<in> set es" for e
    using that mem [of "fst e" "snd e"] by (auto simp: in_range_def split: if_splits)
  then have "takeWhile (\<lambda>e. fst e < pre) es = []"
    by (cases es) simp_all
  define l2 where "l2 = iter_seek lib it pre l1"
  have l2: "sem_iter_set s it (Some (es, int 0)) l1 l2"
    using seek_position [OF assms(4), of l1 it es "-1" pre] es(3) \<open>takeWhile _ es = []\<close> by (simp add: l2_def sem_iter_set_def)
  then have "s_iter s l2 it = Some (es, int 0)"
    by (simp add: sem_iter_set_def)
  moreover have live: "g_live g (iter_free lib it l) = g_live g l" "g_live g (iter_next lib it l) = g_live g l"
      "g_live g (iter_seek lib it k l) = g_live g l" for l k
    using lib_owns_iter [OF assms(2)] by (auto simp: own_iter_free_def own_iter_def same_handles_def)
  moreover have "g_live g l1 = g_live g l"
    using lib_owns_iter [OF assms(2)] i(1) by (auto simp: own_iter_new_def)
  then have "good l2 \<and> h \<in> g_live g l2"
    using lib_reliable_rules(5) [OF assms(3) i(2)] r(2) by (simp add: l2_def live)
  ultimately obtain l3 w where l3: "scan_prefix lib it pre l2 = Some (\<exists>e \<in> set es. take (length pre) (fst e) = pre, l3)"
      "sem_iter_set s it (Some w) l2 l3" "good l3" "h \<in> g_live g l3"
    using scan_prefix_finds [OF assms(4), of l2 it es 0 "\<lambda>l. good l \<and> h \<in> g_live g l" pre]
      lib_reliable_rules(6) [OF assms(3)] by auto
  have "(\<exists>e \<in> set es. take (length pre) (fst e) = pre) \<longleftrightarrow> referenced (fst (s_txn s l h)) c pre"
  proof
    assume "\<exists>e \<in> set es. take (length pre) (fst e) = pre"
    then obtain k v where kv: "(k, v) \<in> set es" "take (length pre) k = pre"
      by auto
    then have "k = pre @ drop (length pre) k"
      by (metis append_take_drop_id)
    then obtain x where "k = pre @ x"
      by blast
    then show "referenced (fst (s_txn s l h)) c pre"
      using kv(1) mem [of k v] prefix_below [of pre x] by (auto simp: referenced_def in_range_def split: if_splits)
  next
    assume "referenced (fst (s_txn s l h)) c pre"
    then obtain x v where "fst (s_txn s l h) (c, pre @ x) = Some v" "x = [] \<or> hd x \<noteq> 0xFF"
      by (auto simp: referenced_def)
    then have "(pre @ x, v) \<in> set es"
      unfolding mem using prefix_below [of pre x] by (simp add: in_range_def append_order)
    then show "\<exists>e \<in> set es. take (length pre) (fst e) = pre"
      by force
  qed
  then have "fk_prefix_scan lib h c pre l = Some (referenced (fst (s_txn s l h)) c pre, iter_free lib it l3)"
    using l3(1) by (simp add: fk_prefix_scan_def i(1) l2_def)
  moreover have "sem_iter_set s it None l3 (iter_free lib it l3)"
    by (rule lib_iterates_rules(2) [OF assms(4)])
  ultimately show ?thesis
    using es(3) l2 l3(2,3,4) r(3) lib_reliable_rules(4) [OF assms(3) l3(3)] live(1) [of l3]
    by (auto simp: sem_iter_set_def running_def consistent_def)
qed

text \<open>What the probe for one constraint asks of the transaction's view; \<open>fam\<close> is the family a name stands for.\<close>

definition child_prefix :: "fk_env \<Rightarrow> tdb_fk_def \<Rightarrow> row \<Rightarrow> bytes" where
  "child_prefix env d r =
     make_comparable_key (fx_ss env) (fx_stale env) (fx_keys env ! the (fd_child_key_no d)) r (length (fd_child_fields d))
       (Some (fd_parent_nullable d))"

definition parent_there :: "fk_env \<Rightarrow> (string \<Rightarrow> cf) \<Rightarrow> store \<Rightarrow> tdb_fk_def \<Rightarrow> row \<Rightarrow> bool" where
  "parent_there env fam v d r \<longleftrightarrow>
     list_ex (\<lambda>fi. fst (r fi)) (fd_child_fields d) \<or>
     (if fd_parent_is_pk d then v (fam (fd_parent_cf d), data_key (child_prefix env d r)) \<noteq> None
      else referenced v (fam (index_cf_name (fd_parent_cf d) (fd_parent_index_name d))) (child_prefix env d r))"

definition child_refers :: "fk_env \<Rightarrow> (string \<Rightarrow> cf) \<Rightarrow> store \<Rightarrow> tdb_fk_def \<Rightarrow> row \<Rightarrow> bool" where
  "child_refers env fam v d r \<longleftrightarrow>
     referenced v (fam (index_cf_name (fd_child_cf d) (fd_child_index_name d)))
       (fk_encode_child_prefix (fx_ss env) (fx_keys env ! the (fd_parent_key_no d)) (length (fd_parent_fields d)) r
          (fd_child_nullable d))"

definition same_view :: "'l lib_sem \<Rightarrow> 'l \<Rightarrow> 'l \<Rightarrow> bool" where
  "same_view s l l' \<longleftrightarrow> s_db s l' = s_db s l \<and> s_txn s l' = s_txn s l"

lemma check_one_exact:
  assumes "lib_stores lib s" "lib_owns lib g D" "lib_reliable lib g good" "lib_iterates lib s" "running g good s h l"
    "\<And>n l. good l \<Longrightarrow> n \<in> names \<Longrightarrow> get_column_family lib n l = Some (fam n)"
    "fd_child_key_no d \<noteq> None" "(if fd_parent_is_pk d then fd_parent_cf d else index_cf_name (fd_parent_cf d) (fd_parent_index_name d)) \<in> names"
  shows "\<exists>l'. fk_check_one lib env h d r l =
      Some (if parent_there env fam (fst (s_txn s l h)) d r then HA_OK else HA_ERR_NO_REFERENCED_ROW, l') \<and>
    running g good s h l' \<and> same_view s l l'"
proof -
  have run: "good l" "h \<in> g_live g l" "consistent s h l"
    using assms(5) by (simp_all add: running_def)
  obtain kno where k: "fd_child_key_no d = Some kno"
    using assms(7) by blast
  have pre: "make_comparable_key (fx_ss env) (fx_stale env) (fx_keys env ! kno) r (length (fd_child_fields d))
      (Some (fd_parent_nullable d)) = child_prefix env d r"
    by (simp add: child_prefix_def k)
  show ?thesis
  proof (cases "list_ex (\<lambda>fi. fst (r fi)) (fd_child_fields d)")
    case True
    then show ?thesis
      using assms(5) by (simp add: fk_check_one_def k parent_there_def same_view_def)
  next
    case nn: False
    show ?thesis
    proof (cases "fd_parent_is_pk d")
      case True
      then have f: "get_column_family lib (fd_parent_cf d) l = Some (fam (fd_parent_cf d))"
        using assms(6) [OF run(1)] assms(8) by simp
      let ?c = "fam (fd_parent_cf d)" and ?k = "data_key (child_prefix env d r)"
      obtain rc l1 where q: "txn_contains lib h ?c ?k l = (rc, l1)" "rc \<in> {TDB_SUCCESS, TDB_ERR_NOT_FOUND}" "good l1"
        using lib_reliable_rules(16) [OF assms(3) run(1,2)] by blast
      have "sem_same s l l1"
        by (rule lib_stores_txn(18) [OF assms(1) q(1)])
      moreover have "own_txn g h l l1"
        by (rule lib_owns_txn(16) [OF assms(2) q(1)])
      moreover have "rc = TDB_SUCCESS \<longleftrightarrow> fst (s_txn s l h) (?c, ?k) \<noteq> None"
        using q(1,2) lib_stores_txn(19,20) [OF assms(1), of h ?c ?k l l1] by auto
      ultimately show ?thesis
        using q run nn True f
        by (auto simp: fk_check_one_def k pre parent_there_def Let_def same_view_def sem_same_def running_def consistent_def
            own_txn_def same_handles_def)
    next
      case False
      let ?n = "index_cf_name (fd_parent_cf d) (fd_parent_index_name d)"
      have f: "get_column_family lib ?n l = Some (fam ?n)"
        using assms(6) [OF run(1)] assms(8) False by simp
      obtain l' where "fk_prefix_scan lib h (fam ?n) (child_prefix env d r) l =
          Some (referenced (fst (s_txn s l h)) (fam ?n) (child_prefix env d r), l')"
        "running g good s h l'" "s_db s l' = s_db s l" "s_txn s l' = s_txn s l"
        using prefix_scan_exact [OF assms(1-5)] by blast
      then show ?thesis
        using nn False f by (simp add: fk_check_one_def k pre parent_there_def Let_def same_view_def)
    qed
  qed
qed

lemma check_each_exact:
  assumes "lib_stores lib s" "lib_owns lib g D" "lib_reliable lib g good" "lib_iterates lib s" "running g good s h l"
    "\<And>n l. good l \<Longrightarrow> n \<in> names \<Longrightarrow> get_column_family lib n l = Some (fam n)"
    "\<forall>d \<in> set ds. fd_child_key_no d \<noteq> None \<and>
       (if fd_parent_is_pk d then fd_parent_cf d else index_cf_name (fd_parent_cf d) (fd_parent_index_name d)) \<in> names"
  shows "\<exists>l'. fk_check_each lib env h ds r l =
      Some (if \<forall>d \<in> set ds. parent_there env fam (fst (s_txn s l h)) d r then HA_OK else HA_ERR_NO_REFERENCED_ROW, l') \<and>
    running g good s h l' \<and> same_view s l l'"
  using assms(5,7)
proof (induction ds arbitrary: l)
  case (Cons d ds)
  obtain l1 where l1: "fk_check_one lib env h d r l =
      Some (if parent_there env fam (fst (s_txn s l h)) d r then HA_OK else HA_ERR_NO_REFERENCED_ROW, l1)"
    "running g good s h l1" "same_view s l l1"
    using check_one_exact [OF assms(1-4) Cons.prems(1) assms(6), of names d env r] Cons.prems(2) by auto
  then show ?case
    using Cons.IH [OF l1(2)] Cons.prems(2) by (auto simp: same_view_def)
qed (simp add: same_view_def)

lemma restrict_exact:
  assumes "lib_stores lib s" "lib_owns lib g D" "lib_reliable lib g good" "lib_iterates lib s" "running g good s h l"
    "\<And>n l. good l \<Longrightarrow> n \<in> names \<Longrightarrow> get_column_family lib n l = Some (fam n)" "fx_stmt_txn env = Some h"
    "fd_parent_key_no d = Some kno" "index_cf_name (fd_child_cf d) (fd_child_index_name d) \<in> names"
  shows "\<exists>l'. fk_restrict lib env d r l =
      Some (if child_refers env fam (fst (s_txn s l h)) d r then HA_ERR_ROW_IS_REFERENCED else HA_OK, l') \<and>
    running g good s h l' \<and> same_view s l l'"
proof -
  let ?n = "index_cf_name (fd_child_cf d) (fd_child_index_name d)"
  have f: "get_column_family lib ?n l = Some (fam ?n)"
    using assms(6) [of l ?n] assms(5,9) by (simp add: running_def)
  define pre where "pre = fk_encode_child_prefix (fx_ss env) (fx_keys env ! kno) (length (fd_parent_fields d)) r (fd_child_nullable d)"
  obtain l' where "fk_prefix_scan lib h (fam ?n) pre l = Some (referenced (fst (s_txn s l h)) (fam ?n) pre, l')"
    "running g good s h l'" "s_db s l' = s_db s l" "s_txn s l' = s_txn s l"
    using prefix_scan_exact [OF assms(1-5)] by blast
  then show ?thesis
    by (simp add: fk_restrict_def fk_child_ref_exists_def assms(7,8) f pre_def [symmetric] child_refers_def same_view_def)
qed

lemma delete_each_exact:
  assumes "lib_stores lib s" "lib_owns lib g D" "lib_reliable lib g good" "lib_iterates lib s" "running g good s h l"
    "\<And>n l. good l \<Longrightarrow> n \<in> names \<Longrightarrow> get_column_family lib n l = Some (fam n)" "fx_stmt_txn env = Some h"
    "\<forall>d \<in> set ds. fd_parent_key_no d \<noteq> None \<and> index_cf_name (fd_child_cf d) (fd_child_index_name d) \<in> names \<and>
       fd_on_delete d \<noteq> code FK_OPTION_CASCADE \<and> fd_on_delete d \<noteq> code FK_OPTION_SET_NULL"
  shows "\<exists>l'. fk_parent_delete_each lib env code tables ds r (x, l) =
      Some (if \<exists>d \<in> set ds. child_refers env fam (fst (s_txn s l h)) d r then HA_ERR_ROW_IS_REFERENCED else HA_OK, (x, l')) \<and>
    running g good s h l' \<and> same_view s l l'"
  using assms(5,8)
proof (induction ds arbitrary: l)
  case (Cons d ds)
  obtain kno where k: "fd_parent_key_no d = Some kno"
    using Cons.prems(2) by auto
  obtain l1 where l1: "fk_restrict lib env d r l =
      Some (if child_refers env fam (fst (s_txn s l h)) d r then HA_ERR_ROW_IS_REFERENCED else HA_OK, l1)"
    "running g good s h l1" "same_view s l l1"
    using restrict_exact [OF assms(1-4) Cons.prems(1) assms(6,7) k, of names r] Cons.prems(2) by auto
  show ?case
    using l1 Cons.IH [OF l1(2)] Cons.prems(2) by (auto simp: same_view_def k)
qed (simp add: same_view_def)

text \<open>A changed parent key is looked for the same way.\<close>

definition key_moves :: "fk_env \<Rightarrow> tdb_fk_def \<Rightarrow> row \<Rightarrow> row \<Rightarrow> bool" where
  "key_moves env d r n \<longleftrightarrow>
     (let ki = fx_keys env ! the (fd_parent_key_no d); m = length (fd_parent_fields d)
      in fk_encode_child_prefix (fx_ss env) ki m r (fd_child_nullable d) \<noteq> fk_encode_child_prefix (fx_ss env) ki m n (fd_child_nullable d))"

lemma update_each_exact:
  assumes "lib_stores lib s" "lib_owns lib g D" "lib_reliable lib g good" "lib_iterates lib s" "running g good s h l"
    "\<And>n l. good l \<Longrightarrow> n \<in> names \<Longrightarrow> get_column_family lib n l = Some (fam n)" "fx_stmt_txn env = Some h"
    "\<forall>d \<in> set ds. fd_parent_key_no d \<noteq> None \<and> index_cf_name (fd_child_cf d) (fd_child_index_name d) \<in> names \<and>
       fd_on_update d \<noteq> code FK_OPTION_CASCADE \<and> fd_on_update d \<noteq> code FK_OPTION_SET_NULL"
  shows "\<exists>l'. fk_parent_update_each lib env code tables ds r n (x, l) =
      Some (if \<exists>d \<in> set ds. key_moves env d r n \<and> child_refers env fam (fst (s_txn s l h)) d r
            then HA_ERR_ROW_IS_REFERENCED else HA_OK, (x, l')) \<and>
    running g good s h l' \<and> same_view s l l'"
  using assms(5,8)
proof (induction ds arbitrary: l)
  case (Cons d ds)
  obtain kno where k: "fd_parent_key_no d = Some kno"
    using Cons.prems(2) by auto
  show ?case
  proof (cases "key_moves env d r n")
    case False
    then have "fk_parent_update_each lib env code tables (d # ds) r n (x, l) = fk_parent_update_each lib env code tables ds r n (x, l)"
      by (simp add: k key_moves_def Let_def)
    then show ?thesis
      using Cons.IH [OF Cons.prems(1)] Cons.prems(2) False by auto
  next
    case True
    obtain l1 where l1: "fk_restrict lib env d r l =
        Some (if child_refers env fam (fst (s_txn s l h)) d r then HA_ERR_ROW_IS_REFERENCED else HA_OK, l1)"
      "running g good s h l1" "same_view s l l1"
      using restrict_exact [OF assms(1-4) Cons.prems(1) assms(6,7) k, of names r] Cons.prems(2) by auto
    then show ?thesis
      using l1 Cons.IH [OF l1(2)] Cons.prems(2) True by (auto simp: same_view_def k key_moves_def Let_def)
  qed
qed (simp add: same_view_def)

text \<open>The whole checks, for a table whose families exist.\<close>

lemma check_child_exact:
  assumes "lib_stores lib s" "lib_owns lib g D" "lib_reliable lib g good" "lib_iterates lib s" "running g good s h l"
    "\<And>n l. good l \<Longrightarrow> n \<in> names \<Longrightarrow> get_column_family lib n l = Some (fam n)" "fx_stmt_txn env = Some h" "\<not> fx_checks_off env"
    "\<not> fx_in_cascade env"
    "\<forall>d \<in> set (fx_child env). fd_child_key_no d \<noteq> None \<and>
       (if fd_parent_is_pk d then fd_parent_cf d else index_cf_name (fd_parent_cf d) (fd_parent_index_name d)) \<in> names"
  shows "\<exists>l'. fk_check_child lib env r l =
      Some (if \<forall>d \<in> set (fx_child env). parent_there env fam (fst (s_txn s l h)) d r then HA_OK else HA_ERR_NO_REFERENCED_ROW, l') \<and>
    running g good s h l' \<and> same_view s l l'"
proof -
  have "fk_check_child lib env r l = fk_check_each lib env h (fx_child env) r l"
    using assms(7-9) by (cases "fx_child env") (simp_all add: fk_check_child_def)
  then show ?thesis
    using check_each_exact [OF assms(1-6,10), of env r] by simp
qed

lemma parent_delete_exact:
  assumes "lib_stores lib s" "lib_owns lib g D" "lib_reliable lib g good" "lib_iterates lib s" "running g good s h l"
    "\<And>n l. good l \<Longrightarrow> n \<in> names \<Longrightarrow> get_column_family lib n l = Some (fam n)" "fx_stmt_txn env = Some h" "\<not> fx_checks_off env"
    "\<forall>d \<in> set (fx_parent env). fd_parent_key_no d \<noteq> None \<and> index_cf_name (fd_child_cf d) (fd_child_index_name d) \<in> names \<and>
       fd_on_delete d \<noteq> code FK_OPTION_CASCADE \<and> fd_on_delete d \<noteq> code FK_OPTION_SET_NULL"
  shows "\<exists>l'. fk_enforce_parent_delete lib env code tables r (x, l) =
      Some (if \<exists>d \<in> set (fx_parent env). child_refers env fam (fst (s_txn s l h)) d r then HA_ERR_ROW_IS_REFERENCED else HA_OK, (x, l')) \<and>
    running g good s h l' \<and> same_view s l l'"
proof -
  have "fk_enforce_parent_delete lib env code tables r (x, l) = fk_parent_delete_each lib env code tables (fx_parent env) r (x, l)"
    using assms(7,8) by (cases "fx_parent env") (simp_all add: fk_enforce_parent_delete_def)
  then show ?thesis
    using delete_each_exact [OF assms(1-7,9), of tables r x] by simp
qed

lemma parent_update_exact:
  assumes "lib_stores lib s" "lib_owns lib g D" "lib_reliable lib g good" "lib_iterates lib s" "running g good s h l"
    "\<And>n l. good l \<Longrightarrow> n \<in> names \<Longrightarrow> get_column_family lib n l = Some (fam n)" "fx_stmt_txn env = Some h" "\<not> fx_checks_off env"
    "\<forall>d \<in> set (fx_parent env). fd_parent_key_no d \<noteq> None \<and> index_cf_name (fd_child_cf d) (fd_child_index_name d) \<in> names \<and>
       fd_on_update d \<noteq> code FK_OPTION_CASCADE \<and> fd_on_update d \<noteq> code FK_OPTION_SET_NULL"
  shows "\<exists>l'. fk_enforce_parent_update lib env code tables r n (x, l) =
      Some (if \<exists>d \<in> set (fx_parent env). key_moves env d r n \<and> child_refers env fam (fst (s_txn s l h)) d r
            then HA_ERR_ROW_IS_REFERENCED else HA_OK, (x, l')) \<and>
    running g good s h l' \<and> same_view s l l'"
proof -
  have "fk_enforce_parent_update lib env code tables r n (x, l) = fk_parent_update_each lib env code tables (fx_parent env) r n (x, l)"
    using assms(7,8) by (cases "fx_parent env") (simp_all add: fk_enforce_parent_update_def)
  then show ?thesis
    using update_each_exact [OF assms(1-7,9), of tables r n x] by simp
qed

section \<open>Properties\<close>


text \<open>A parent with an integer key, one constraint that restricts, and one row of the child, whose primary key is given.\<close>

definition demo_fk_parent :: tdb_fk_def where
  "demo_fk_parent =
     \<lparr>fd_name = ''f'', fd_child_cf = ''d__c'', fd_child_db = ''d'', fd_child_table = ''c'', fd_child_fields = [],
      fd_child_nullable = [1], fd_ref_db = ''d'', fd_ref_table = ''p'', fd_parent_cf = ''d__p'', fd_parent_fields = [0],
      fd_ref_column_names = [''id''], fd_child_index_name = ''kp'', fd_parent_index_name = [], fd_parent_nullable = [],
      fd_on_delete = 1, fd_on_update = 1, fd_child_key_no = None, fd_parent_key_no = Some 0, fd_parent_is_pk = True\<rparr>"

definition demo_fk_env :: fk_env where
  "demo_fk_env =
     \<lparr>fx_ss = \<lambda>f v n. v, fx_stale = \<lambda>_. 0,
      fx_keys = [\<lparr>key_parts = [\<lparr>kp_field = demo_int, kp_fieldnr = 1, kp_length = 4, kp_reverse = False\<rparr>], key_nosame = True,
                  key_fulltext = False, key_spatial = False, key_alg = HA_KEY_ALG_BTREE\<rparr>],
      fx_child = [], fx_parent = [demo_fk_parent], fx_in_cascade = False, fx_checks_off = False, fx_stmt_txn = Some 100\<rparr>"

definition demo_fk_row :: row where
  "demo_fk_row = (\<lambda>_. (False, [0x80, 0, 0, 7]))"

definition demo_fk_mem :: "bytes \<Rightarrow> mem" where
  "demo_fk_mem child_pk =
     snd (snd (m_begin (mem_init\<lparr>m_cfs := [(''d__c__idx_kp'', 5)], m_db := [((5, [1, 0x80, 0, 0, 7] @ child_pk), [0])]\<rparr>)))"

definition demo_fk_code :: "fk_option \<Rightarrow> u8" where
  "demo_fk_code opt = (case opt of FK_OPTION_UNDEF \<Rightarrow> 0 | FK_OPTION_RESTRICT \<Rightarrow> 1 | FK_OPTION_CASCADE \<Rightarrow> 2
     | FK_OPTION_SET_NULL \<Rightarrow> 3 | FK_OPTION_NO_ACTION \<Rightarrow> 4 | FK_OPTION_DEFAULT \<Rightarrow> 5)"

lemma demo_fk_setup:
  "running mem_ghost (mem_good (\<lambda>cfs. map_of cfs ''d__c__idx_kp'' = Some 5)) mem_sem 100 (demo_fk_mem k)"
  "fst (s_txn mem_sem (demo_fk_mem k) 100) = [(5, [1, 0x80, 0, 0, 7] @ k) \<mapsto> [0]]"
  "mem_good (\<lambda>cfs. map_of cfs ''d__c__idx_kp'' = Some 5) l \<Longrightarrow> n \<in> {''d__c__idx_kp''} \<Longrightarrow>
     get_column_family (mem_lib []) n l = Some 5"
  "fx_stmt_txn demo_fk_env = Some 100" "\<not> fx_checks_off demo_fk_env" "\<not> fx_in_cascade demo_fk_env" "fx_child demo_fk_env = []"
  "\<forall>d \<in> set (fx_parent demo_fk_env). fd_parent_key_no d \<noteq> None \<and> index_cf_name (fd_child_cf d) (fd_child_index_name d) \<in> {''d__c__idx_kp''} \<and>
      fd_on_delete d \<noteq> demo_fk_code FK_OPTION_CASCADE \<and> fd_on_delete d \<noteq> demo_fk_code FK_OPTION_SET_NULL"
  "child_refers demo_fk_env (\<lambda>_. 5) v demo_fk_parent demo_fk_row = referenced v 5 [1, 0x80, 0, 0, 7]"
  by (auto simp: running_def consistent_def mem_good_def mem_ghost_def mem_sem_def demo_fk_mem_def m_begin_def m_faulty_def mem_init_def
      m_new_id_def m_fresh_def m_set_def m_ids_def c_abs_def mem_lib_def demo_fk_env_def demo_fk_parent_def index_cf_name_def CF_INDEX_INFIX_def
      demo_fk_code_def child_refers_def fk_encode_child_prefix_def demo_fk_row_def field_of_def SORT_KEY_NOT_NULL_def apply_writes_def)



end
