(* ===== verification/Dml_Index.thy ===== *)
theory Dml_Index
  imports Txn Tdb_Scan Key_Codec Spatial
begin

text \<open>
  Index maintenance of the row operations, \<^verbatim>\<open>src/tidesdb/src/handler/ha_tidesdb_dml.cc\<close> and
  \<^verbatim>\<open>ha_tidesdb_dml_update.cc\<close>, with the tokenizing of a row from \<^verbatim>\<open>ha_tidesdb_fts.cc\<close>. A row is the null bit and the bytes of
  each column; an index entry is a key and a value. The lemmas show that the three maintainers keep every index a mirror of
  the table: an index family holds exactly the entries of the rows. A word map is listed in the order of the first occurrence of
  its words; the order of the hash table does not matter to what is stored. The midpoint of two doubles is a
  parameter, and so are the server's \<open>val_str\<close> and its character sets.
\<close>

section \<open>Entries of a row\<close>

record index_env =
  ix_ss :: sort_string
  ix_stale :: "nat \<Rightarrow> u8"
  ix_has_user_pk :: bool
  ix_pk_index :: nat
  ix_keys :: "key_info list"
  ix_num_secondary :: nat
  ix_cf :: cf
  ix_idx_cfs :: "cf option list"
  ix_is_fts :: "bool list"
  ix_is_spatial :: "bool list"
  ix_val_str :: "field \<Rightarrow> bytes \<Rightarrow> bytes"
  ix_charset :: "Key_Codec.charset \<Rightarrow> Fts_Text.charset"
  ix_opts :: tokenize_opts
  ix_mid :: "double \<Rightarrow> double \<Rightarrow> double"
  ix_write_set :: "nat \<Rightarrow> bool"

definition ix_pk_key :: "index_env \<Rightarrow> key_info option" where
  "ix_pk_key env = (if ix_has_user_pk env then Some (ix_keys env ! ix_pk_index env) else None)"

text \<open>The family of a secondary index, where it has one: the first two lines of every loop over the keys.\<close>

definition index_cf :: "index_env \<Rightarrow> nat \<Rightarrow> cf option" where
  "index_cf env i =
     (if ix_has_user_pk env \<and> i = ix_pk_index env \<or> length (ix_idx_cfs env) \<le> i then None else ix_idx_cfs env ! i)"

definition FTS_DOC_DELTA_ADD :: u64 where "FTS_DOC_DELTA_ADD = 1"
definition FTS_DOC_DELTA_DEL :: u64 where "FTS_DOC_DELTA_DEL = -1"
definition tdb_empty_val :: bytes where "tdb_empty_val = [0]"

text \<open>The document of a full-text key: the non-null columns, separated by a blank.\<close>

fun fts_document :: "index_env \<Rightarrow> row \<Rightarrow> key_part list \<Rightarrow> bytes \<Rightarrow> bytes" where
  "fts_document env r [] doc = doc"
| "fts_document env r (kp # kps) doc =
     fts_document env r kps
       (if fst (field_of kp r) then doc
        else (if doc \<noteq> [] then doc @ [SPACE] else doc) @ ix_val_str env (kp_field kp) (snd (field_of kp r)))"

definition fts_extract_and_tokenize :: "index_env \<Rightarrow> key_info \<Rightarrow> row \<Rightarrow> bytes list" where
  "fts_extract_and_tokenize env ki r =
     tokenize (ix_charset env (field_charset (kp_field (key_parts ki ! 0)))) (ix_opts env)
       (fts_document env r (key_parts ki) []) []"

definition tf_map :: "bytes list \<Rightarrow> (bytes \<times> u16) list" where
  "tf_map toks = map (\<lambda>t. (t, of_nat (count_list toks t))) (remdups toks)"

definition word_count :: "bytes list \<Rightarrow> u32" where
  "word_count toks = of_nat (length toks)"

definition fts_build_key :: "bytes \<Rightarrow> bytes \<Rightarrow> bytes" where
  "fts_build_key word pk = fst (build_key word pk)"

definition fts_entry :: "u32 \<Rightarrow> bytes \<Rightarrow> bytes \<times> u16 \<Rightarrow> bytes \<times> bytes" where
  "fts_entry wc pk kv = (fts_build_key (fst kv) pk, encode_entry_value (snd kv) wc)"

definition fts_entries :: "index_env \<Rightarrow> key_info \<Rightarrow> bytes \<Rightarrow> row \<Rightarrow> (bytes \<times> bytes) list" where
  "fts_entries env ki pk r =
     (let toks = fts_extract_and_tokenize env ki r in map (fts_entry (word_count toks) pk) (tf_map toks))"

text \<open>The one entry of a geometry, if its rectangle can be computed.\<close>

definition spatial_entry :: "index_env \<Rightarrow> key_info \<Rightarrow> bytes \<Rightarrow> row \<Rightarrow> (bytes \<times> bytes) option" where
  "spatial_entry env ki pk r =
     (let kp = key_parts ki ! 0;
          gs = ix_val_str env (kp_field kp) (snd (field_of kp r))
      in if gs = [] then None
         else case compute_mbr gs \<lparr>xmin = 0, ymin = 0, xmax = 0, ymax = 0\<rparr> of
           (ok, m) \<Rightarrow>
             if ok then Some (fst (sp_build_key (ix_mid env (xmin m) (xmax m)) (ix_mid env (ymin m) (ymax m)) pk), build_value m)
             else None)"

section \<open>Writes\<close>

fun put_each :: "'l tdb_lib \<Rightarrow> txn \<Rightarrow> cf \<Rightarrow> int \<Rightarrow> (bytes \<times> bytes) list \<Rightarrow> 'l \<Rightarrow> tdb_rc \<times> 'l" where
  "put_each lib h c ttl [] l = (TDB_SUCCESS, l)"
| "put_each lib h c ttl (kv # kvs) l =
     (case txn_put lib h c (fst kv) (snd kv) ttl l of
        (rc, l1) \<Rightarrow> if rc \<noteq> TDB_SUCCESS then (rc, l1) else put_each lib h c ttl kvs l1)"

definition tidesdb_txn_delete_cf :: "'l tdb_lib \<Rightarrow> txn \<Rightarrow> cf \<Rightarrow> bytes \<Rightarrow> bool \<Rightarrow> 'l \<Rightarrow> tdb_rc \<times> 'l" where
  "tidesdb_txn_delete_cf lib h c k use_single_delete l =
     (if use_single_delete then txn_single_delete lib h c k l else txn_delete lib h c k l)"

text \<open>Deletes whose result is not looked at.\<close>

definition drop_each :: "'l tdb_lib \<Rightarrow> txn \<Rightarrow> cf \<Rightarrow> bytes list \<Rightarrow> 'l \<Rightarrow> 'l" where
  "drop_each lib h c ks l = fold (\<lambda>k l. snd (tidesdb_txn_delete_cf lib h c k True l)) ks l"

text \<open>The loop over the secondary indexes, left at the first error.\<close>

fun for_indexes :: "(nat \<Rightarrow> cf \<Rightarrow> 's \<Rightarrow> tdb_rc \<times> 's) \<Rightarrow> index_env \<Rightarrow> nat list \<Rightarrow> 's \<Rightarrow> tdb_rc \<times> 's" where
  "for_indexes f env [] s = (TDB_SUCCESS, s)"
| "for_indexes f env (i # is) s =
     (case index_cf env i of
        None \<Rightarrow> for_indexes f env is s
      | Some c \<Rightarrow> (case f i c s of (rc, s1) \<Rightarrow> if rc \<noteq> TDB_SUCCESS then (rc, s1) else for_indexes f env is s1))"

definition all_indexes :: "(nat \<Rightarrow> cf \<Rightarrow> 's \<Rightarrow> tdb_rc \<times> 's) \<Rightarrow> index_env \<Rightarrow> 's \<Rightarrow> tdb_rc \<times> 's" where
  "all_indexes f env s =
     (if ix_num_secondary env = 0 then (TDB_SUCCESS, s) else for_indexes f env [0..<length (ix_keys env)] s)"

section \<open>Insert\<close>

definition write_one_index ::
  "'l tdb_lib \<Rightarrow> index_env \<Rightarrow> txn \<Rightarrow> bytes \<Rightarrow> bytes \<Rightarrow> row \<Rightarrow> int \<Rightarrow> nat \<Rightarrow> cf \<Rightarrow> tidesdb_trx_t option \<times> 'l
     \<Rightarrow> tdb_rc \<times> tidesdb_trx_t option \<times> 'l" where
  "write_one_index lib env h cur pk r ttl i c s =
     (case s of
        (trx, l) \<Rightarrow>
          let ki = ix_keys env ! i
          in if key_alg ki = HA_KEY_ALG_FULLTEXT
             then (case put_each lib h c ttl (fts_entries env ki pk r) l of
                     (rc, l1) \<Rightarrow>
                       if rc \<noteq> TDB_SUCCESS then (rc, trx, l1)
                       else (TDB_SUCCESS,
                             trx_fts_meta_accumulate trx (ix_cf env) i FTS_DOC_DELTA_ADD
                               (ucast (word_count (fts_extract_and_tokenize env ki r))), l1))
             else if is_spatial_index ki
             then (case spatial_entry env ki pk r of
                     None \<Rightarrow> (TDB_SUCCESS, trx, l)
                   | Some kv \<Rightarrow> (case txn_put lib h c (fst kv) (snd kv) ttl l of (rc, l1) \<Rightarrow> (rc, trx, l1)))
             else (case txn_put lib h c (sec_idx_key (ix_ss env) (ix_stale env) (ix_pk_key env) cur ki r) tdb_empty_val ttl l of
                     (rc, l1) \<Rightarrow> (rc, trx, l1)))"

definition write_maintain_indexes ::
  "'l tdb_lib \<Rightarrow> index_env \<Rightarrow> txn \<Rightarrow> bytes \<Rightarrow> bytes \<Rightarrow> row \<Rightarrow> int \<Rightarrow> tidesdb_trx_t option \<times> 'l
     \<Rightarrow> tdb_rc \<times> tidesdb_trx_t option \<times> 'l" where
  "write_maintain_indexes lib env h cur pk r ttl s = all_indexes (write_one_index lib env h cur pk r ttl) env s"

section \<open>Delete\<close>

definition delete_one_index ::
  "'l tdb_lib \<Rightarrow> index_env \<Rightarrow> txn \<Rightarrow> bytes \<Rightarrow> row \<Rightarrow> nat \<Rightarrow> cf \<Rightarrow> tidesdb_trx_t option \<times> 'l
     \<Rightarrow> tdb_rc \<times> tidesdb_trx_t option \<times> 'l" where
  "delete_one_index lib env h cur r i c s =
     (case s of
        (trx, l) \<Rightarrow>
          let ki = ix_keys env ! i
          in if ix_is_fts env ! i
             then (TDB_SUCCESS,
                   trx_fts_meta_accumulate trx (ix_cf env) i FTS_DOC_DELTA_DEL
                     (- ucast (word_count (fts_extract_and_tokenize env ki r))),
                   drop_each lib h c (map fst (fts_entries env ki cur r)) l)
             else if ix_is_spatial env ! i
             then (TDB_SUCCESS, trx,
                   case spatial_entry env ki cur r of
                     None \<Rightarrow> l
                   | Some kv \<Rightarrow> snd (tidesdb_txn_delete_cf lib h c (fst kv) True l))
             else (case tidesdb_txn_delete_cf lib h c (sec_idx_key (ix_ss env) (ix_stale env) (ix_pk_key env) cur ki r) True l of
                     (rc, l1) \<Rightarrow> (rc, trx, l1)))"

definition delete_maintain_indexes ::
  "'l tdb_lib \<Rightarrow> index_env \<Rightarrow> txn \<Rightarrow> bytes \<Rightarrow> row \<Rightarrow> tidesdb_trx_t option \<times> 'l
     \<Rightarrow> tdb_rc \<times> tidesdb_trx_t option \<times> 'l" where
  "delete_maintain_indexes lib env h cur r s = all_indexes (delete_one_index lib env h cur r) env s"

section \<open>Update\<close>

definition touched :: "index_env \<Rightarrow> key_info \<Rightarrow> bool" where
  "touched env ki \<longleftrightarrow> list_ex (\<lambda>kp. ix_write_set env (kp_fieldnr kp - 1)) (key_parts ki)"

text \<open>The words whose entry has to be written when the primary key stays.\<close>

definition need_put :: "(bytes \<times> u16) list \<Rightarrow> bool \<Rightarrow> bytes \<times> u16 \<Rightarrow> bool" where
  "need_put old_tf doc_len_changed kv =
     (case map_of old_tf (fst kv) of
        None \<Rightarrow> True
      | Some cnt \<Rightarrow> doc_len_changed \<or> cnt \<noteq> snd kv)"

definition update_fts_index_diff ::
  "'l tdb_lib \<Rightarrow> txn \<Rightarrow> cf \<Rightarrow> (bytes \<times> u16) list \<Rightarrow> (bytes \<times> u16) list \<Rightarrow> bytes \<Rightarrow> bytes \<Rightarrow> u32 \<Rightarrow> bool \<Rightarrow> int \<Rightarrow> 'l
     \<Rightarrow> tdb_rc \<times> 'l" where
  "update_fts_index_diff lib h c old_tf new_tf old_pk new_pk new_wc doc_len_changed ttl l =
     (let gone = filter (\<lambda>kv. map_of new_tf (fst kv) = None) old_tf
      in put_each lib h c ttl (map (fts_entry new_wc new_pk) (filter (need_put old_tf doc_len_changed) new_tf))
           (drop_each lib h c (map (\<lambda>kv. fts_build_key (fst kv) old_pk) gone) l))"

definition update_fts_index ::
  "'l tdb_lib \<Rightarrow> index_env \<Rightarrow> txn \<Rightarrow> nat \<Rightarrow> cf \<Rightarrow> row \<Rightarrow> row \<Rightarrow> bytes \<Rightarrow> bytes \<Rightarrow> int \<Rightarrow> tidesdb_trx_t option \<Rightarrow> 'l
     \<Rightarrow> tdb_rc \<times> tidesdb_trx_t option \<times> 'l" where
  "update_fts_index lib env h i c old_r new_r old_pk new_pk ttl trx l =
     (let ki = ix_keys env ! i
      in if \<not> touched env ki then (TDB_SUCCESS, trx, l)
         else let old_toks = fts_extract_and_tokenize env ki old_r; new_toks = fts_extract_and_tokenize env ki new_r;
                  old_wc = word_count old_toks; new_wc = word_count new_toks
           in (case (if old_pk \<noteq> new_pk
                     then put_each lib h c ttl (map (fts_entry new_wc new_pk) (tf_map new_toks))
                            (drop_each lib h c (map (\<lambda>kv. fts_build_key (fst kv) old_pk) (tf_map old_toks)) l)
                     else update_fts_index_diff lib h c (tf_map old_toks) (tf_map new_toks) old_pk new_pk new_wc
                            (old_wc \<noteq> new_wc) ttl l) of
                 (rc, l1) \<Rightarrow>
                   if rc \<noteq> TDB_SUCCESS then (rc, trx, l1)
                   else let wc_delta = (ucast new_wc - ucast old_wc :: u64)
                     in (TDB_SUCCESS,
                         if wc_delta \<noteq> 0 then trx_fts_meta_accumulate trx (ix_cf env) i 0 wc_delta else trx, l1)))"

definition update_spatial_index ::
  "'l tdb_lib \<Rightarrow> index_env \<Rightarrow> txn \<Rightarrow> nat \<Rightarrow> cf \<Rightarrow> row \<Rightarrow> row \<Rightarrow> bytes \<Rightarrow> bytes \<Rightarrow> int \<Rightarrow> 'l \<Rightarrow> tdb_rc \<times> 'l" where
  "update_spatial_index lib env h i c old_r new_r old_pk new_pk ttl l =
     (let ki = ix_keys env ! i
      in if \<not> ix_write_set env (kp_fieldnr (key_parts ki ! 0) - 1) then (TDB_SUCCESS, l)
         else let l1 = (case spatial_entry env ki old_pk old_r of
                          None \<Rightarrow> l
                        | Some kv \<Rightarrow> snd (tidesdb_txn_delete_cf lib h c (fst kv) True l))
           in (case spatial_entry env ki new_pk new_r of
                 None \<Rightarrow> (TDB_SUCCESS, l1)
               | Some kv \<Rightarrow> txn_put lib h c (fst kv) (snd kv) ttl l1))"

text \<open>The handler's current key becomes the new one where the new entry is built.\<close>

definition update_regular_index ::
  "'l tdb_lib \<Rightarrow> index_env \<Rightarrow> txn \<Rightarrow> nat \<Rightarrow> cf \<Rightarrow> row \<Rightarrow> row \<Rightarrow> bytes \<Rightarrow> bytes \<Rightarrow> int \<Rightarrow> bytes \<Rightarrow> 'l \<Rightarrow> tdb_rc \<times> bytes \<times> 'l" where
  "update_regular_index lib env h i c old_r new_r old_pk new_pk ttl cur l =
     (let ki = ix_keys env ! i
      in if old_pk = new_pk \<and> \<not> touched env ki then (TDB_SUCCESS, cur, l)
         else let old_ik = make_comparable_key (ix_ss env) (ix_stale env) ki old_r (length (key_parts ki)) None @ old_pk;
                  new_ik = sec_idx_key (ix_ss env) (ix_stale env) (ix_pk_key env) new_pk ki new_r
           in if old_ik = new_ik then (TDB_SUCCESS, new_pk, l)
              else (case tidesdb_txn_delete_cf lib h c old_ik True l of
                      (rc, l1) \<Rightarrow>
                        if rc \<noteq> TDB_SUCCESS then (rc, new_pk, l1)
                        else (case txn_put lib h c new_ik tdb_empty_val ttl l1 of (rc2, l2) \<Rightarrow> (rc2, new_pk, l2))))"

definition update_one_index ::
  "'l tdb_lib \<Rightarrow> index_env \<Rightarrow> txn \<Rightarrow> row \<Rightarrow> row \<Rightarrow> bytes \<Rightarrow> bytes \<Rightarrow> int \<Rightarrow> nat \<Rightarrow> cf \<Rightarrow> bytes \<times> tidesdb_trx_t option \<times> 'l
     \<Rightarrow> tdb_rc \<times> bytes \<times> tidesdb_trx_t option \<times> 'l" where
  "update_one_index lib env h old_r new_r old_pk new_pk ttl i c s =
     (case s of
        (cur, trx, l) \<Rightarrow>
          if ix_is_fts env ! i
          then (case update_fts_index lib env h i c old_r new_r old_pk new_pk ttl trx l of (rc, trx1, l1) \<Rightarrow> (rc, cur, trx1, l1))
          else if ix_is_spatial env ! i
          then (case update_spatial_index lib env h i c old_r new_r old_pk new_pk ttl l of (rc, l1) \<Rightarrow> (rc, cur, trx, l1))
          else (case update_regular_index lib env h i c old_r new_r old_pk new_pk ttl cur l of
                  (rc, cur1, l1) \<Rightarrow> (rc, cur1, trx, l1)))"

definition update_maintain_indexes ::
  "'l tdb_lib \<Rightarrow> index_env \<Rightarrow> txn \<Rightarrow> row \<Rightarrow> row \<Rightarrow> bytes \<Rightarrow> bytes \<Rightarrow> int \<Rightarrow> bytes \<times> tidesdb_trx_t option \<times> 'l
     \<Rightarrow> tdb_rc \<times> bytes \<times> tidesdb_trx_t option \<times> 'l" where
  "update_maintain_indexes lib env h old_r new_r old_pk new_pk ttl s =
     all_indexes (update_one_index lib env h old_r new_r old_pk new_pk ttl) env s"

section \<open>Index families as mirrors of the table\<close>

text \<open>An index holds exactly the entries of the rows. A change of one row replaces its entries.\<close>

definition mirror :: "(bytes \<Rightarrow> 'r \<Rightarrow> (bytes \<times> bytes) list) \<Rightarrow> (bytes \<rightharpoonup> 'r) \<Rightarrow> store \<Rightarrow> cf \<Rightarrow> bool" where
  "mirror E rows w c \<longleftrightarrow> (\<forall>k v. w (c, k) = Some v \<longleftrightarrow> (\<exists>pk r. rows pk = Some r \<and> (k, v) \<in> set (E pk r)))"

fun ents :: "(bytes \<Rightarrow> 'r \<Rightarrow> (bytes \<times> bytes) list) \<Rightarrow> (bytes \<times> 'r) option \<Rightarrow> (bytes \<times> bytes) list" where
  "ents E None = []"
| "ents E (Some (pk, r)) = E pk r"

fun drop_row :: "(bytes \<times> 'r) option \<Rightarrow> (bytes \<rightharpoonup> 'r) \<Rightarrow> (bytes \<rightharpoonup> 'r)" where
  "drop_row None rows = rows"
| "drop_row (Some (pk, r)) rows = rows(pk := None)"

fun put_row :: "(bytes \<times> 'r) option \<Rightarrow> (bytes \<rightharpoonup> 'r) \<Rightarrow> (bytes \<rightharpoonup> 'r)" where
  "put_row None rows = rows"
| "put_row (Some (pk, r)) rows = rows(pk \<mapsto> r)"

definition swapped :: "cf \<Rightarrow> (bytes \<times> bytes) list \<Rightarrow> (bytes \<times> bytes) list \<Rightarrow> store \<Rightarrow> store \<Rightarrow> bool" where
  "swapped c old new w w' \<longleftrightarrow>
     (\<forall>c' k. w' (c', k) =
        (if c' = c then (case map_of new k of Some v \<Rightarrow> Some v | None \<Rightarrow> if k \<in> fst ` set old then None else w (c, k))
         else w (c', k)))"

text \<open>What an index codec promises: a key ends in the primary key of its row, and a row has one entry per key.\<close>

locale index_codec =
  fixes E :: "bytes \<Rightarrow> 'r \<Rightarrow> (bytes \<times> bytes) list" and ok :: "'r \<Rightarrow> bool"
  assumes ends: "(k, v) \<in> set (E pk r) \<Longrightarrow> \<exists>pre. k = pre @ pk"
    and single: "ok r \<Longrightarrow> distinct (map fst (E pk r))"
begin

lemma same_pk: "(k, v) \<in> set (E pk r) \<Longrightarrow> (k, v') \<in> set (E pk' r') \<Longrightarrow> length pk = length pk' \<Longrightarrow> pk = pk'"
  using ends by (metis append_eq_append_conv)

lemma mirror_swap:
  assumes m: "mirror E rows w c" and fixed: "\<And>p r. rows p = Some r \<Longrightarrow> length p = n"
    and old: "\<And>p r. old = Some (p, r) \<Longrightarrow> rows p = Some r"
    and new: "\<And>q r. new = Some (q, r) \<Longrightarrow> ok r \<and> length q = n \<and> drop_row old rows q = None"
    and w': "swapped c (ents E old) (ents E new) w w'"
  shows "mirror E (put_row new (drop_row old rows)) w' c"
proof -
  define rows' where "rows' = put_row new (drop_row old rows)"
  have len: "length p = n" if "rows' p = Some r" for p r
    using that fixed new unfolding rows'_def
    by (cases old; cases new) (fastforce split: if_splits)+
  have "w' (c, k) = Some v \<longleftrightarrow> (\<exists>pk r. rows' pk = Some r \<and> (k, v) \<in> set (E pk r))" for k v
  proof (cases "map_of (ents E new) k")
    case (Some v')
    then obtain q rq where q: "new = Some (q, rq)" "(k, v') \<in> set (E q rq)"
      by (cases new) (auto dest: map_of_SomeD)
    have u: "v = v' \<longleftrightarrow> (k, v) \<in> set (E q rq)"
      using q(2) single [of rq q] new [OF q(1)] by (metis eq_key_imp_eq_value)
    have "w' (c, k) = Some v'"
      using w' Some by (simp add: swapped_def)
    moreover have "rows' q = Some rq"
      by (simp add: rows'_def q(1))
    moreover have "pk = q" if "rows' pk = Some r" "(k, v) \<in> set (E pk r)" for pk r
      using same_pk [OF that(2) q(2)] len [OF that(1)] new [OF q(1)] by simp
    ultimately show ?thesis
      using u by auto
  next
    case None
    then have no: "(k, v) \<notin> set (ents E new)"
      by (metis map_of_eq_None_iff image_eqI fst_conv)
    show ?thesis
    proof (cases "k \<in> fst ` set (ents E old)")
      case True
      then obtain p rp v0 where p: "old = Some (p, rp)" "(k, v0) \<in> set (E p rp)"
        by (cases old) auto
      have "w' (c, k) = None"
        using w' None True by (simp add: swapped_def)
      moreover have False if "rows' pk = Some r" "(k, v) \<in> set (E pk r)" for pk r
        using same_pk [OF that(2) p(2)] len [OF that(1)] fixed [OF old [OF p(1)]] that no
        by (cases new) (auto simp: rows'_def p(1) split: if_splits)
      ultimately show ?thesis
        by auto
    next
      case False
      have same: "w' (c, k) = w (c, k)"
        using w' None False by (simp add: swapped_def)
      have "rows' pk = Some r" if r: "rows pk = Some r" "(k, v) \<in> set (E pk r)" for pk r
      proof -
        have d: "drop_row old rows pk = Some r"
          using r False old by (cases old) force+
        then show ?thesis
          using new by (cases new) (auto simp: rows'_def)
      qed
      moreover have "rows pk = Some r" if "rows' pk = Some r" "(k, v) \<in> set (E pk r)" for pk r
        using that no by (cases old; cases new) (auto simp: rows'_def split: if_splits)
      ultimately have "(\<exists>pk r. rows pk = Some r \<and> (k, v) \<in> set (E pk r)) \<longleftrightarrow> (\<exists>pk r. rows' pk = Some r \<and> (k, v) \<in> set (E pk r))"
        by blast
      then show ?thesis
        using m same by (simp add: mirror_def)
    qed
  qed
  then show ?thesis
    by (simp add: mirror_def rows'_def)
qed

end

section \<open>The three codecs\<close>

definition idx_entries :: "index_env \<Rightarrow> nat \<Rightarrow> bytes \<Rightarrow> row \<Rightarrow> (bytes \<times> bytes) list" where
  "idx_entries env i pk r =
     (let ki = ix_keys env ! i
      in if ix_is_fts env ! i then fts_entries env ki pk r
         else if ix_is_spatial env ! i then (case spatial_entry env ki pk r of None \<Rightarrow> [] | Some kv \<Rightarrow> [kv])
         else [(make_comparable_key (ix_ss env) (ix_stale env) ki r (length (key_parts ki)) None @ pk, tdb_empty_val)])"

text \<open>No word of the row is so long that its key is cut.\<close>

definition short_words :: "index_env \<Rightarrow> nat \<Rightarrow> row \<Rightarrow> bool" where
  "short_words env i r \<longleftrightarrow>
     (ix_is_fts env ! i \<longrightarrow> (\<forall>t \<in> set (fts_extract_and_tokenize env (ix_keys env ! i) r). length t \<le> MAX_TERM_BYTES))"

lemma map_fst_tf_map [simp]: "map fst (tf_map toks) = remdups toks"
  by (simp add: tf_map_def comp_def)

lemma fts_build_key_inj:
  assumes "length t \<le> MAX_TERM_BYTES" "length t' \<le> MAX_TERM_BYTES" "fts_build_key t pk = fts_build_key t' pk"
  shows "t = t'"
proof -
  have "length t = length t'"
    using arg_cong [OF assms(3), of length] assms(1,2)
    by (simp add: fts_build_key_def build_key_def Let_def store_u16le_def)
  then show ?thesis
    using assms by (simp add: fts_build_key_def build_key_def Let_def)
qed

interpretation ix: index_codec "idx_entries env i" "short_words env i" for env i
proof
  fix k v pk r
  assume kv: "(k, v) \<in> set (idx_entries env i pk r)"
  show "\<exists>pre. k = pre @ pk"
    using kv by (fastforce simp: idx_entries_def fts_entries_def fts_entry_def fts_build_key_def build_key_def spatial_entry_def
        sp_build_key_def Let_def split: if_splits option.splits prod.splits)
next
  fix r pk
  assume short: "short_words env i r"
  show "distinct (map fst (idx_entries env i pk r))"
  proof (cases "ix_is_fts env ! i")
    case True
    define toks where "toks = fts_extract_and_tokenize env (ix_keys env ! i) r"
    have "map fst (idx_entries env i pk r) = map (\<lambda>t. fts_build_key t pk) (remdups toks)"
      using True by (simp add: idx_entries_def fts_entries_def fts_entry_def Let_def comp_def toks_def tf_map_def)
    moreover have "inj_on (\<lambda>t. fts_build_key t pk) (set toks)"
      using short True fts_build_key_inj unfolding inj_on_def short_words_def toks_def by blast
    ultimately show ?thesis
      by (simp add: distinct_map)
  qed (auto simp: idx_entries_def Let_def split: option.splits)
qed

section \<open>What the writes do\<close>

text \<open>The transaction is open, nothing was committed, and this is what it sees.\<close>

definition at_view :: "'l lib_ghost \<Rightarrow> ('l \<Rightarrow> bool) \<Rightarrow> 'l lib_sem \<Rightarrow> txn \<Rightarrow> store \<Rightarrow> store \<Rightarrow> 'l \<Rightarrow> bool" where
  "at_view g good s h db w l \<longleftrightarrow> running g good s h l \<and> s_db s l = db \<and> fst (s_txn s l h) = w"

definition puts :: "cf \<Rightarrow> (bytes \<times> bytes) list \<Rightarrow> store \<Rightarrow> store" where
  "puts c kvs w = fold (\<lambda>kv. upd c (fst kv) (Some (snd kv))) kvs w"

definition drops :: "cf \<Rightarrow> bytes list \<Rightarrow> store \<Rightarrow> store" where
  "drops c ks w = fold (\<lambda>k. upd c k None) ks w"

lemma puts_at:
  "distinct (map fst kvs) \<Longrightarrow>
   puts c kvs w (c', k) = (if c' = c then (case map_of kvs k of Some v \<Rightarrow> Some v | None \<Rightarrow> w (c, k)) else w (c', k))"
proof (induction kvs arbitrary: w)
  case (Cons kv kvs)
  have "puts c (kv # kvs) w = puts c kvs (upd c (fst kv) (Some (snd kv)) w)"
    by (simp add: puts_def)
  moreover have "map_of kvs (fst kv) = None"
    using Cons.prems by (simp add: map_of_eq_None_iff)
  ultimately show ?case
    using Cons.IH Cons.prems by (auto simp: upd_def split: option.splits)
qed (simp add: puts_def)

lemma drops_at: "drops c ks w (c', k) = (if c' = c \<and> k \<in> set ks then None else w (c', k))"
  by (induction ks arbitrary: w) (auto simp: drops_def upd_def)

lemma put_at_view:
  assumes "lib_stores lib s" "lib_owns lib g D" "lib_reliable lib g good" "at_view g good s h db w l"
  shows "\<exists>l'. txn_put lib h c k v ttl l = (TDB_SUCCESS, l') \<and> at_view g good s h db (upd c k (Some v) w) l'"
proof -
  obtain l' where "txn_put lib h c k v ttl l = (TDB_SUCCESS, l')"
    using lib_reliable_rules(9) [OF assms(3), of l h c k v ttl] assms(4) unfolding at_view_def running_def by blast
  then show ?thesis
    using write_running(2) [OF assms(1-3), of h l c k v ttl] assms(4) by (auto simp: at_view_def)
qed

lemma delete_at_view:
  assumes "lib_stores lib s" "lib_owns lib g D" "lib_reliable lib g good" "at_view g good s h db w l"
  shows "\<exists>l'. tidesdb_txn_delete_cf lib h c k b l = (TDB_SUCCESS, l') \<and> at_view g good s h db (upd c k None w) l'"
proof -
  have r: "good l" "h \<in> g_live g l" "consistent s h l"
    using assms(4) by (simp_all add: at_view_def running_def)
  obtain l' where l': "tidesdb_txn_delete_cf lib h c k b l = (TDB_SUCCESS, l')" "good l'"
    using lib_reliable_rules(10,11) [OF assms(3) r(1,2)] by (cases b) (fastforce simp: tidesdb_txn_delete_cf_def)+
  have "own_txn g h l l'"
    using l'(1) lib_owns_txn [OF assms(2)] unfolding tidesdb_txn_delete_cf_def by (metis snd_conv)
  moreover have "sem_write s h (c, k) None TDB_SUCCESS l l'"
    using l'(1) lib_stores_txn(16,17) [OF assms(1)] unfolding tidesdb_txn_delete_cf_def by (cases b) auto
  ultimately show ?thesis
    using l' r assms(4)
    by (auto simp: at_view_def running_def own_txn_def same_handles_def sem_write_def sem_content_def consistent_def c_write_def
        apply_writes_upd upd_def)
qed

lemma put_each_at_view:
  assumes "lib_stores lib s" "lib_owns lib g D" "lib_reliable lib g good" "at_view g good s h db w l"
  shows "\<exists>l'. put_each lib h c ttl kvs l = (TDB_SUCCESS, l') \<and> at_view g good s h db (puts c kvs w) l'"
  using assms(4)
proof (induction kvs arbitrary: l w)
  case (Cons kv kvs)
  obtain l1 where l1: "txn_put lib h c (fst kv) (snd kv) ttl l = (TDB_SUCCESS, l1)"
    "at_view g good s h db (upd c (fst kv) (Some (snd kv)) w) l1"
    using put_at_view [OF assms(1-3) Cons.prems] by blast
  then show ?case
    using Cons.IH [OF l1(2)] by (simp add: puts_def)
qed (simp add: puts_def)

lemma drop_each_at_view:
  assumes "lib_stores lib s" "lib_owns lib g D" "lib_reliable lib g good" "at_view g good s h db w l"
  shows "at_view g good s h db (drops c ks w) (drop_each lib h c ks l)"
  using assms(4)
proof (induction ks arbitrary: l w)
  case (Cons k ks)
  obtain l1 where l1: "tidesdb_txn_delete_cf lib h c k True l = (TDB_SUCCESS, l1)" "at_view g good s h db (upd c k None w) l1"
    using delete_at_view [OF assms(1-3) Cons.prems] by blast
  then show ?case
    using Cons.IH [OF l1(2)] by (simp add: drops_def drop_each_def)
qed (simp add: drops_def drop_each_def)

lemmas views = put_at_view delete_at_view put_each_at_view drop_each_at_view

lemma swapped_puts_drops:
  "distinct (map fst new) \<Longrightarrow> swapped c old new w (puts c new (drops c (map fst old) w))"
  by (auto simp: swapped_def puts_at drops_at split: option.splits)

lemma swapped_id: "mirror E rows w c \<Longrightarrow> rows p = Some r \<Longrightarrow> distinct (map fst (E p r)) \<Longrightarrow> swapped c (E p r) (E p r) w w"
  unfolding swapped_def mirror_def
  by (auto split: option.splits simp: map_of_eq_None_iff dest!: map_of_SomeD)

section \<open>One index\<close>

definition wf_indexes :: "index_env \<Rightarrow> bool" where
  "wf_indexes env \<longleftrightarrow>
     (\<forall>i < length (ix_keys env).
        (ix_is_fts env ! i \<longleftrightarrow> key_alg (ix_keys env ! i) = HA_KEY_ALG_FULLTEXT) \<and>
        (ix_is_spatial env ! i \<longleftrightarrow> is_spatial_index (ix_keys env ! i)) \<and>
        index_cf env i \<noteq> Some (ix_cf env) \<and>
        (\<forall>j < length (ix_keys env). \<forall>c. index_cf env i = Some c \<and> index_cf env j = Some c \<longrightarrow> i = j) \<and>
        (ix_num_secondary env = 0 \<longrightarrow> index_cf env i = None)) \<and>
     (case ix_pk_key env of Some ki \<Rightarrow> plain (key_parts ki) | None \<Rightarrow> True)"

text \<open>The primary key the handler builds for a row it is positioned on with \<open>cur\<close>.\<close>

definition pk_of :: "index_env \<Rightarrow> bytes \<Rightarrow> row \<Rightarrow> bytes" where
  "pk_of env cur r = pk_from_record (ix_ss env) (ix_stale env) (ix_pk_key env) cur r"

lemma sec_idx_key_pk:
  assumes "wf_indexes env"
  shows "sec_idx_key (ix_ss env) (ix_stale env) (ix_pk_key env) cur ki r =
    make_comparable_key (ix_ss env) (ix_stale env) ki r (length (key_parts ki)) None @ pk_of env cur r"
  using assms
  by (auto simp: sec_idx_key_def pk_of_def pk_from_record_def wf_indexes_def make_comparable_key_plain Let_def split: option.splits)

lemma write_one_swaps:
  assumes lib: "lib_stores lib s" "lib_owns lib g D" "lib_reliable lib g good" and wf: "wf_indexes env" "i < length (ix_keys env)"
    and r: "short_words env i r" "pk_of env cur r = pk" and l: "at_view g good s h db w l"
  shows "\<exists>trx' l' w'. write_one_index lib env h cur pk r ttl i c (trx, l) = (TDB_SUCCESS, trx', l') \<and>
    (trx' = None \<longleftrightarrow> trx = None) \<and> map_option trx_txn trx' = map_option trx_txn trx \<and>
    at_view g good s h db w' l' \<and> swapped c [] (idx_entries env i pk r) w w'"
proof -
  define kvs where "kvs = idx_entries env i pk r"
  have f: "ix_is_fts env ! i \<longleftrightarrow> key_alg (ix_keys env ! i) = HA_KEY_ALG_FULLTEXT"
    "ix_is_spatial env ! i \<longleftrightarrow> is_spatial_index (ix_keys env ! i)"
    using wf by (auto simp: wf_indexes_def)
  have sw: "swapped c [] kvs w (puts c kvs w)"
    using swapped_puts_drops [where old = "[]" and new = kvs] ix.single [OF r(1)] by (simp add: kvs_def drops_def)
  obtain l' where l': "put_each lib h c ttl kvs l = (TDB_SUCCESS, l')" "at_view g good s h db (puts c kvs w) l'"
    using put_each_at_view [OF lib l] by blast
  have "\<exists>trx'. write_one_index lib env h cur pk r ttl i c (trx, l) = (TDB_SUCCESS, trx', l') \<and>
      (trx' = None \<longleftrightarrow> trx = None) \<and> map_option trx_txn trx' = map_option trx_txn trx"
  proof (cases "ix_is_fts env ! i")
    case True
    then show ?thesis
      using l'(1) f by (simp add: write_one_index_def kvs_def idx_entries_def Let_def trx_fts_meta_accumulate_def option.map_comp comp_def)
  next
    case False
    show ?thesis
      using l'(1) f False wf(1) r(2)
      by (cases "txn_put lib h c (fst (hd kvs)) (snd (hd kvs)) ttl l")
        (auto simp: write_one_index_def kvs_def idx_entries_def sec_idx_key_pk Let_def split: option.splits if_splits)
  qed
  then show ?thesis
    using l'(2) sw kvs_def by blast
qed

lemma delete_one_swaps:
  assumes lib: "lib_stores lib s" "lib_owns lib g D" "lib_reliable lib g good" and wf: "wf_indexes env" "i < length (ix_keys env)"
    and r: "pk_of env cur r = cur" and l: "at_view g good s h db w l"
  shows "\<exists>trx' l' w'. delete_one_index lib env h cur r i c (trx, l) = (TDB_SUCCESS, trx', l') \<and>
    map_option trx_txn trx' = map_option trx_txn trx \<and>
    at_view g good s h db w' l' \<and> swapped c (idx_entries env i cur r) [] w w'"
proof -
  define ks where "ks = map fst (idx_entries env i cur r)"
  have sw: "swapped c (idx_entries env i cur r) [] w (drops c ks w)"
    by (auto simp: swapped_def drops_at ks_def)
  have v: "at_view g good s h db (drops c ks w) (drop_each lib h c ks l)"
    by (rule drop_each_at_view [OF lib l])
  obtain l1 where l1: "tidesdb_txn_delete_cf lib h c (hd ks) True l = (TDB_SUCCESS, l1)"
    using delete_at_view [OF lib l] by blast
  have "\<exists>trx'. delete_one_index lib env h cur r i c (trx, l) = (TDB_SUCCESS, trx', drop_each lib h c ks l) \<and>
      map_option trx_txn trx' = map_option trx_txn trx"
  proof (cases "ix_is_fts env ! i")
    case True
    then show ?thesis
      by (simp add: delete_one_index_def ks_def idx_entries_def Let_def trx_fts_meta_accumulate_def option.map_comp comp_def)
  next
    case False
    then show ?thesis
      using l1 wf(1) r
      by (auto simp: delete_one_index_def ks_def idx_entries_def sec_idx_key_pk Let_def drop_each_def split: option.splits if_splits)
  qed
  then show ?thesis
    using v sw by blast
qed

text \<open>A row that agrees on the columns of an index has the same entries there.\<close>

lemma comparable_parts_agree:
  "\<forall>kp \<in> set kps. field_of kp r = field_of kp r' \<Longrightarrow> comparable_parts ss st fk p pos kps r = comparable_parts ss st fk p pos kps r'"
  by (induction kps arbitrary: p pos) (simp_all add: comparable_part_def Let_def)

lemma fts_document_agree:
  "\<forall>kp \<in> set kps. field_of kp r = field_of kp r' \<Longrightarrow> fts_document env r kps doc = fts_document env r' kps doc"
  by (induction kps arbitrary: doc) simp_all

definition followed :: "index_env \<Rightarrow> nat \<Rightarrow> bool" where
  "followed env i \<longleftrightarrow>
     (if ix_is_fts env ! i then touched env (ix_keys env ! i)
      else ix_is_spatial env ! i \<longrightarrow> ix_write_set env (kp_fieldnr (key_parts (ix_keys env ! i) ! 0) - 1))"

lemma idx_entries_agree:
  assumes "\<forall>n. \<not> ix_write_set env n \<longrightarrow> r n = r' n"
    and "if ix_is_fts env ! i \<or> \<not> ix_is_spatial env ! i then \<not> touched env (ix_keys env ! i) else \<not> followed env i"
  shows "idx_entries env i pk r = idx_entries env i pk r'"
proof (cases "ix_is_spatial env ! i \<and> \<not> ix_is_fts env ! i")
  case True
  then show ?thesis
    using assms by (simp add: idx_entries_def spatial_entry_def followed_def field_of_def)
next
  case False
  then have a: "\<forall>kp \<in> set (key_parts (ix_keys env ! i)). field_of kp r = field_of kp r'"
    using assms by (auto simp: touched_def field_of_def list_ex_iff split: if_splits)
  have "make_comparable_key (ix_ss env) (ix_stale env) (ix_keys env ! i) r n None =
      make_comparable_key (ix_ss env) (ix_stale env) (ix_keys env ! i) r' n None" for n
    unfolding make_comparable_key_def using a by (intro comparable_parts_agree) (auto dest: in_set_takeD)
  then show ?thesis
    using False fts_document_agree [OF a] by (auto simp: idx_entries_def fts_entries_def fts_extract_and_tokenize_def Let_def)
qed

text \<open>The difference of two word maps, applied, is the replacement of the one by the other.\<close>

lemma diff_swaps:
  fixes K :: "bytes \<Rightarrow> bytes" and V V' :: "u16 \<Rightarrow> bytes"
  assumes old: "distinct (map fst old)" and new: "distinct (map fst new)"
    and inj: "inj_on K (fst ` set old \<union> fst ` set new)"
    and w: "\<And>t n. (t, n) \<in> set old \<Longrightarrow> w (c, K t) = Some (V n)" and same: "\<not> changed \<Longrightarrow> V = V'"
  shows "swapped c (map (\<lambda>kv. (K (fst kv), V (snd kv))) old) (map (\<lambda>kv. (K (fst kv), V' (snd kv))) new) w
    (puts c (map (\<lambda>kv. (K (fst kv), V' (snd kv))) (filter (need_put old changed) new))
       (drops c (map (\<lambda>kv. K (fst kv)) (filter (\<lambda>kv. map_of new (fst kv) = None) old)) w))"
proof -
  define N where "N = map (\<lambda>kv. (K (fst kv), V' (snd kv))) new"
  define P where "P = map (\<lambda>kv. (K (fst kv), V' (snd kv))) (filter (need_put old changed) new)"
  define G where "G = map (\<lambda>kv. K (fst kv)) (filter (\<lambda>kv. map_of new (fst kv) = None) old)"
  have "map fst P = map K (map fst (filter (need_put old changed) new))"
    by (simp add: P_def)
  moreover have "inj_on K (set (map fst (filter (need_put old changed) new)))"
    by (rule inj_on_subset [OF inj]) auto
  ultimately have dP: "distinct (map fst P)"
    using distinct_map_filter [OF new] by (metis distinct_map)
  have "puts c P (drops c G w) (c, k) =
      (case map_of N k of Some v \<Rightarrow> Some v | None \<Rightarrow> if k \<in> (\<lambda>kv. K (fst kv)) ` set old then None else w (c, k))" for k
  proof (cases "map_of N k")
    case (Some v)
    then obtain t n where t: "(t, n) \<in> set new" "k = K t" "v = V' n"
      by (auto simp: N_def dest!: map_of_SomeD)
    show ?thesis
    proof (cases "need_put old changed (t, n)")
      case True
      then have "map_of P k = Some v"
        using t dP by (force simp: P_def)
      then show ?thesis
        using Some dP by (simp add: puts_at)
    next
      case False
      then have o: "(t, n) \<in> set old" "V n = v"
        using t same by (auto simp: need_put_def split: option.splits dest: map_of_SomeD)
      have "k \<notin> fst ` set P"
      proof
        assume "k \<in> fst ` set P"
        then obtain t' n' where p: "(t', n') \<in> set new" "need_put old changed (t', n')" "K t' = K t"
          by (auto simp: P_def t(2))
        have "t' = t"
          by (rule inj_onD [OF inj p(3)]) (use p(1) t(1) in force)+
        then show False
          using p(1,2) t(1) False new by (metis eq_key_imp_eq_value)
      qed
      then have "map_of P k = None"
        by (simp add: map_of_eq_None_iff)
      moreover have "k \<notin> set G"
      proof
        assume "k \<in> set G"
        then obtain t' n' where p: "(t', n') \<in> set old" "map_of new t' = None" "K t' = K t"
          by (auto simp: G_def t(2))
        have "t' = t"
          by (rule inj_onD [OF inj p(3)]) (use p(1) t(1) in force)+
        then show False
          using p(2) t(1) by (metis fst_conv image_eqI map_of_eq_None_iff)
      qed
      ultimately show ?thesis
        using Some dP w [OF o(1)] o(2) by (simp add: puts_at drops_at t(2))
    qed
  next
    case None
    then have n: "k \<notin> (\<lambda>kv. K (fst kv)) ` set new"
      by (force simp: N_def map_of_eq_None_iff)
    then have "map_of P k = None"
      by (force simp: P_def map_of_eq_None_iff)
    moreover have "k \<in> set G \<longleftrightarrow> k \<in> (\<lambda>kv. K (fst kv)) ` set old"
      using n by (force simp: G_def map_of_eq_None_iff)
    ultimately show ?thesis
      using None dP by (simp add: puts_at drops_at)
  qed
  then show ?thesis
    unfolding swapped_def N_def [symmetric] P_def [symmetric] G_def [symmetric]
    using dP by (auto simp: image_image puts_at drops_at)
qed

text \<open>An index that already holds the new entries, and one whose entries are all replaced.\<close>

lemma kept_swaps:
  assumes "mirror (idx_entries env i) rows w c" "rows p = Some r" "short_words env i r" "idx_entries env i q r' = idx_entries env i p r"
  shows "swapped c (idx_entries env i p r) (idx_entries env i q r') w w"
  using swapped_id [OF assms(1,2)] ix.single [OF assms(3)] assms(4) by simp

lemma replaced_swaps:
  assumes lib: "lib_stores lib s" "lib_owns lib g D" "lib_reliable lib g good" and l: "at_view g good s h db w l"
    and "short_words env i r'"
  obtains l' w' where "put_each lib h c ttl (idx_entries env i q r') (drop_each lib h c (map fst (idx_entries env i p r)) l) = (TDB_SUCCESS, l')"
    "at_view g good s h db w' l'" "swapped c (idx_entries env i p r) (idx_entries env i q r') w w'"
  using put_each_at_view [OF lib drop_each_at_view [OF lib l]] swapped_puts_drops ix.single [OF assms(5)] by metis

lemma fts_diff_swaps:
  assumes lib: "lib_stores lib s" "lib_owns lib g D" "lib_reliable lib g good" and l: "at_view g good s h db w l"
    and short: "\<forall>t \<in> set ot \<union> set nt. length t \<le> MAX_TERM_BYTES"
    and stored: "\<And>kv. kv \<in> set (map (fts_entry (word_count ot) pk) (tf_map ot)) \<Longrightarrow> w (c, fst kv) = Some (snd kv)"
  shows "\<exists>l' w'. update_fts_index_diff lib h c (tf_map ot) (tf_map nt) pk pk (word_count nt) (word_count ot \<noteq> word_count nt) ttl l =
      (TDB_SUCCESS, l') \<and> at_view g good s h db w' l' \<and>
    swapped c (map (fts_entry (word_count ot) pk) (tf_map ot)) (map (fts_entry (word_count nt) pk) (tf_map nt)) w w'"
proof -
  define P where "P = map (fts_entry (word_count nt) pk) (filter (need_put (tf_map ot) (word_count ot \<noteq> word_count nt)) (tf_map nt))"
  define G where "G = map (\<lambda>kv. fts_build_key (fst kv) pk) (filter (\<lambda>kv. map_of (tf_map nt) (fst kv) = None) (tf_map ot))"
  obtain l' where l': "put_each lib h c ttl P (drop_each lib h c G l) = (TDB_SUCCESS, l')"
    "at_view g good s h db (puts c P (drops c G w)) l'"
    using put_each_at_view [OF lib drop_each_at_view [OF lib l]] by blast
  have inj: "inj_on (\<lambda>t. fts_build_key t pk) (set ot \<union> set nt)"
    using fts_build_key_inj short unfolding inj_on_def by blast
  have w: "w (c, fts_build_key t pk) = Some (encode_entry_value n (word_count ot))" if "(t, n) \<in> set (tf_map ot)" for t n
    using stored [of "fts_entry (word_count ot) pk (t, n)"] imageI [OF that, of "fts_entry (word_count ot) pk"] by (simp add: fts_entry_def)
  have "fst ` set (tf_map ot) = set ot" "fst ` set (tf_map nt) = set nt"
    by (metis map_fst_tf_map set_map set_remdups)+
  then have "swapped c (map (fts_entry (word_count ot) pk) (tf_map ot)) (map (fts_entry (word_count nt) pk) (tf_map nt)) w
      (puts c P (drops c G w))"
    using diff_swaps [where old = "tf_map ot" and new = "tf_map nt" and K = "\<lambda>t. fts_build_key t pk"
        and V = "\<lambda>n. encode_entry_value n (word_count ot)" and V' = "\<lambda>n. encode_entry_value n (word_count nt)"
        and changed = "word_count ot \<noteq> word_count nt" and w = w and c = c] inj w
    by (simp add: P_def G_def fts_entry_def [abs_def])
  then show ?thesis
    using l' by (simp add: update_fts_index_diff_def Let_def P_def G_def) blast
qed

lemma update_fts_swaps:
  assumes lib: "lib_stores lib s" "lib_owns lib g D" "lib_reliable lib g good" and fts: "ix_is_fts env ! i"
    and short: "short_words env i old_r" "short_words env i new_r"
    and m: "mirror (idx_entries env i) rows w c" and row: "rows old_pk = Some old_r"
    and agree: "\<forall>n. \<not> ix_write_set env n \<longrightarrow> old_r n = new_r n" and moved: "old_pk = new_pk \<or> followed env i"
    and l: "at_view g good s h db w l"
  shows "\<exists>trx' l' w'. update_fts_index lib env h i c old_r new_r old_pk new_pk ttl trx l = (TDB_SUCCESS, trx', l') \<and>
    map_option trx_txn trx' = map_option trx_txn trx \<and> at_view g good s h db w' l' \<and>
    swapped c (idx_entries env i old_pk old_r) (idx_entries env i new_pk new_r) w w'"
proof (cases "touched env (ix_keys env ! i)")
  case False
  then have "old_pk = new_pk" "idx_entries env i new_pk new_r = idx_entries env i old_pk old_r"
    using moved fts idx_entries_agree [OF agree, of i] by (auto simp: followed_def)
  then show ?thesis
    using kept_swaps [OF m row short(1)] l False by (auto simp: update_fts_index_def)
next
  case True
  define ot where "ot = fts_extract_and_tokenize env (ix_keys env ! i) old_r"
  define nt where "nt = fts_extract_and_tokenize env (ix_keys env ! i) new_r"
  have e: "idx_entries env i p old_r = map (fts_entry (word_count ot) p) (tf_map ot)"
    "idx_entries env i p new_r = map (fts_entry (word_count nt) p) (tf_map nt)" for p
    using fts by (simp_all add: idx_entries_def fts_entries_def ot_def nt_def Let_def)
  obtain l2 w2 where l2: "(if old_pk \<noteq> new_pk
         then put_each lib h c ttl (map (fts_entry (word_count nt) new_pk) (tf_map nt))
                (drop_each lib h c (map (\<lambda>kv. fts_build_key (fst kv) old_pk) (tf_map ot)) l)
         else update_fts_index_diff lib h c (tf_map ot) (tf_map nt) old_pk new_pk (word_count nt)
                (word_count ot \<noteq> word_count nt) ttl l) = (TDB_SUCCESS, l2)"
      "at_view g good s h db w2 l2" "swapped c (idx_entries env i old_pk old_r) (idx_entries env i new_pk new_r) w w2"
  proof (cases "old_pk = new_pk")
    case False
    then show ?thesis
      using that replaced_swaps [OF lib l short(2), of c ttl new_pk old_pk old_r] by (auto simp: e fts_entry_def comp_def)
  next
    case True
    have "\<forall>t \<in> set ot \<union> set nt. length t \<le> MAX_TERM_BYTES"
      using short fts by (auto simp: short_words_def ot_def nt_def)
    moreover have "w (c, fst kv) = Some (snd kv)" if "kv \<in> set (map (fts_entry (word_count ot) old_pk) (tf_map ot))" for kv
      using that m row unfolding mirror_def e(1) [symmetric] by (metis prod.collapse)
    ultimately show ?thesis
      using fts_diff_swaps [OF lib l, of ot nt old_pk c ttl] that True by (auto simp: e)
  qed
  then show ?thesis
    using True unfolding update_fts_index_def Let_def ot_def [symmetric] nt_def [symmetric]
    by (simp add: trx_fts_meta_accumulate_def option.map_comp comp_def) blast
qed

lemma update_spatial_swaps:
  assumes lib: "lib_stores lib s" "lib_owns lib g D" "lib_reliable lib g good" and sp: "\<not> ix_is_fts env ! i" "ix_is_spatial env ! i"
    and short: "short_words env i old_r" "short_words env i new_r"
    and m: "mirror (idx_entries env i) rows w c" and row: "rows old_pk = Some old_r"
    and agree: "\<forall>n. \<not> ix_write_set env n \<longrightarrow> old_r n = new_r n" and moved: "old_pk = new_pk \<or> followed env i"
    and l: "at_view g good s h db w l"
  shows "\<exists>l' w'. update_spatial_index lib env h i c old_r new_r old_pk new_pk ttl l = (TDB_SUCCESS, l') \<and>
    at_view g good s h db w' l' \<and> swapped c (idx_entries env i old_pk old_r) (idx_entries env i new_pk new_r) w w'"
proof (cases "followed env i")
  case False
  then have "old_pk = new_pk" "idx_entries env i new_pk new_r = idx_entries env i old_pk old_r"
    using moved sp idx_entries_agree [OF agree, of i] by auto
  then show ?thesis
    using kept_swaps [OF m row short(1)] l False sp by (auto simp: update_spatial_index_def followed_def)
next
  case True
  obtain l' w' where l': "put_each lib h c ttl (idx_entries env i new_pk new_r)
        (drop_each lib h c (map fst (idx_entries env i old_pk old_r)) l) = (TDB_SUCCESS, l')" "at_view g good s h db w' l'"
      "swapped c (idx_entries env i old_pk old_r) (idx_entries env i new_pk new_r) w w'"
    using replaced_swaps [OF lib l short(2)] .
  have "update_spatial_index lib env h i c old_r new_r old_pk new_pk ttl l = (TDB_SUCCESS, l')"
    using True sp l'(1)
    by (auto simp: update_spatial_index_def followed_def Let_def idx_entries_def drop_each_def split: option.splits prod.splits if_splits)
  then show ?thesis
    using l'(2,3) by blast
qed

lemma update_regular_swaps:
  assumes lib: "lib_stores lib s" "lib_owns lib g D" "lib_reliable lib g good" and reg: "\<not> ix_is_fts env ! i" "\<not> ix_is_spatial env ! i"
    and wf: "wf_indexes env" and pk: "pk_of env new_pk new_r = new_pk"
    and m: "mirror (idx_entries env i) rows w c" and row: "rows old_pk = Some old_r"
    and agree: "\<forall>n. \<not> ix_write_set env n \<longrightarrow> old_r n = new_r n" and l: "at_view g good s h db w l"
  shows "\<exists>cur' l' w'. update_regular_index lib env h i c old_r new_r old_pk new_pk ttl cur l = (TDB_SUCCESS, cur', l') \<and>
    at_view g good s h db w' l' \<and> swapped c (idx_entries env i old_pk old_r) (idx_entries env i new_pk new_r) w w'"
proof -
  define ki where "ki = ix_keys env ! i"
  define key where "key r p = make_comparable_key (ix_ss env) (ix_stale env) ki r (length (key_parts ki)) None @ p" for r p
  have short: "short_words env i r" for r
    using reg by (simp add: short_words_def)
  have e: "idx_entries env i p r = [(key r p, tdb_empty_val)]" for r p
    using reg by (simp add: idx_entries_def key_def ki_def Let_def)
  have nk: "sec_idx_key (ix_ss env) (ix_stale env) (ix_pk_key env) new_pk ki new_r = key new_r new_pk"
    using sec_idx_key_pk [OF wf] pk by (simp add: key_def)
  note defs = update_regular_index_def ki_def [symmetric] Let_def nk key_def [symmetric]
  show ?thesis
  proof (cases "(old_pk = new_pk \<and> \<not> touched env ki) \<or> key old_r old_pk = key new_r new_pk")
    case True
    then have "key new_r new_pk = key old_r old_pk"
      using idx_entries_agree [OF agree, of i old_pk] reg by (auto simp: e ki_def)
    moreover have "\<exists>cur'. update_regular_index lib env h i c old_r new_r old_pk new_pk ttl cur l = (TDB_SUCCESS, cur', l)"
      using True by (auto simp: defs)
    ultimately show ?thesis
      using kept_swaps [OF m row short, of new_pk new_r] l by (auto simp: e)
  next
    case False
    obtain l' w' where l': "put_each lib h c ttl [(key new_r new_pk, tdb_empty_val)] (drop_each lib h c [key old_r old_pk] l) = (TDB_SUCCESS, l')"
        "at_view g good s h db w' l'" "swapped c (idx_entries env i old_pk old_r) (idx_entries env i new_pk new_r) w w'"
      using replaced_swaps [OF lib l short, of c ttl new_pk _ old_pk old_r] by (auto simp: e)
    obtain l2 where "tidesdb_txn_delete_cf lib h c (key old_r old_pk) True l = (TDB_SUCCESS, l2)"
      using delete_at_view [OF lib l] by blast
    then have "update_regular_index lib env h i c old_r new_r old_pk new_pk ttl cur l = (TDB_SUCCESS, new_pk, l')"
      using False l'(1) by (auto simp: defs drop_each_def split: prod.splits if_splits)
    then show ?thesis
      using l'(2,3) by blast
  qed
qed

lemma update_one_swaps:
  assumes lib: "lib_stores lib s" "lib_owns lib g D" "lib_reliable lib g good" and wf: "wf_indexes env"
    and short: "short_words env i old_r" "short_words env i new_r" and pk: "pk_of env new_pk new_r = new_pk"
    and m: "mirror (idx_entries env i) rows w c" and row: "rows old_pk = Some old_r"
    and agree: "\<forall>n. \<not> ix_write_set env n \<longrightarrow> old_r n = new_r n" and moved: "old_pk = new_pk \<or> followed env i"
    and l: "at_view g good s h db w l"
  shows "\<exists>cur' trx' l' w'. update_one_index lib env h old_r new_r old_pk new_pk ttl i c (cur, trx, l) = (TDB_SUCCESS, cur', trx', l') \<and>
    map_option trx_txn trx' = map_option trx_txn trx \<and> at_view g good s h db w' l' \<and>
    swapped c (idx_entries env i old_pk old_r) (idx_entries env i new_pk new_r) w w'"
  using update_fts_swaps [OF lib _ short m row agree moved l, of ttl trx] update_spatial_swaps [OF lib _ _ short m row agree moved l, of ttl]
    update_regular_swaps [OF lib _ _ wf pk m row agree l, of ttl cur]
  by (cases "ix_is_fts env ! i"; cases "ix_is_spatial env ! i") (fastforce simp: update_one_index_def)+

section \<open>All indexes\<close>

definition mirrors :: "index_env \<Rightarrow> (bytes \<rightharpoonup> row) \<Rightarrow> store \<Rightarrow> bool" where
  "mirrors env rows w \<longleftrightarrow>
     (\<forall>i < length (ix_keys env). \<forall>c. index_cf env i = Some c \<longrightarrow> mirror (idx_entries env i) rows w c)"

lemma swapped_other: "swapped c old new w w' \<Longrightarrow> c' \<noteq> c \<Longrightarrow> w' (c', k) = w (c', k)"
  by (simp add: swapped_def)

lemma mirror_other: "mirror E rows w c \<Longrightarrow> (\<And>k. w' (c, k) = w (c, k)) \<Longrightarrow> mirror E rows w' c"
  by (simp add: mirror_def)

text \<open>The replacement of one row, as every index sees it: \<open>V st w\<close> says that the state \<open>st\<close> of the loop sees \<open>w\<close>.\<close>

definition swaps_row ::
  "index_env \<Rightarrow> (bytes \<rightharpoonup> row) \<Rightarrow> ('s \<Rightarrow> store \<Rightarrow> bool) \<Rightarrow> (nat \<Rightarrow> cf \<Rightarrow> 's \<Rightarrow> tdb_rc \<times> 's) \<Rightarrow> (bytes \<times> row) option \<Rightarrow> (bytes \<times> row) option \<Rightarrow> bool" where
  "swaps_row env rows V f old new \<longleftrightarrow>
     (\<forall>i c st w. i < length (ix_keys env) \<longrightarrow> index_cf env i = Some c \<longrightarrow> V st w \<longrightarrow> mirror (idx_entries env i) rows w c \<longrightarrow>
        (\<exists>st' w'. f i c st = (TDB_SUCCESS, st') \<and> V st' w' \<and>
           swapped c (ents (idx_entries env i) old) (ents (idx_entries env i) new) w w'))"

definition replaceable :: "index_env \<Rightarrow> (bytes \<rightharpoonup> row) \<Rightarrow> nat \<Rightarrow> (bytes \<times> row) option \<Rightarrow> (bytes \<times> row) option \<Rightarrow> bool" where
  "replaceable env rows n old new \<longleftrightarrow>
     (\<forall>p r. rows p = Some r \<longrightarrow> length p = n) \<and> (\<forall>p r. old = Some (p, r) \<longrightarrow> rows p = Some r) \<and>
     (\<forall>q r. new = Some (q, r) \<longrightarrow>
        (\<forall>i < length (ix_keys env). short_words env i r) \<and> length q = n \<and> drop_row old rows q = None)"

lemma for_indexes_mirrors:
  assumes wf: "wf_indexes env" and f: "swaps_row env rows V f old new" and rep: "replaceable env rows n old new"
    and "set is \<subseteq> {..<length (ix_keys env)}" "distinct is" "V st w"
    and "\<And>i c. i < length (ix_keys env) \<Longrightarrow> index_cf env i = Some c \<Longrightarrow>
      mirror (idx_entries env i) (if i \<in> set is then rows else put_row new (drop_row old rows)) w c"
  shows "\<exists>st' w'. for_indexes f env is st = (TDB_SUCCESS, st') \<and> V st' w' \<and> mirrors env (put_row new (drop_row old rows)) w' \<and>
    (\<forall>c k. (\<forall>i < length (ix_keys env). index_cf env i \<noteq> Some c) \<longrightarrow> w' (c, k) = w (c, k))"
  using assms(4-7)
proof (induction "is" arbitrary: st w)
  case Nil
  then show ?case
    by (auto simp: mirrors_def)
next
  case (Cons j js)
  show ?case
  proof (cases "index_cf env j")
    case None
    have "mirror (idx_entries env i) (if i \<in> set js then rows else put_row new (drop_row old rows)) w c"
      if "i < length (ix_keys env)" "index_cf env i = Some c" for i c
      using Cons.prems(4) [OF that] that None by (cases "i = j") auto
    then show ?thesis
      using Cons.IH [of st w] Cons.prems None by simp
  next
    case (Some c)
    have j: "j < length (ix_keys env)" and mj: "mirror (idx_entries env j) rows w c"
      using Cons.prems(1) Cons.prems(4) [of j c] Some by auto
    obtain st1 w1 where s1: "f j c st = (TDB_SUCCESS, st1)" "V st1 w1"
      "swapped c (ents (idx_entries env j) old) (ents (idx_entries env j) new) w w1"
      using f j Some Cons.prems(3) mj unfolding swaps_row_def by blast
    have "mirror (idx_entries env j) (put_row new (drop_row old rows)) w1 c"
      by (rule ix.mirror_swap [OF mj _ _ _ s1(3), where n = n]) (use rep j in \<open>auto simp: replaceable_def\<close>)
    then have mi: "mirror (idx_entries env i) (if i \<in> set js then rows else put_row new (drop_row old rows)) w1 c'"
      if i: "i < length (ix_keys env)" "index_cf env i = Some c'" for i c'
    proof (cases "i = j")
      case True
      then show ?thesis
        using \<open>mirror (idx_entries env j) (put_row new (drop_row old rows)) w1 c\<close> Some i(2) Cons.prems(2) by simp
    next
      case False
      then have "c' \<noteq> c"
        using wf j Some i unfolding wf_indexes_def by blast
      then have "mirror (idx_entries env i) (if i \<in> set (j # js) then rows else put_row new (drop_row old rows)) w1 c'"
        by (intro mirror_other [OF Cons.prems(4) [OF i]] swapped_other [OF s1(3)])
      then show ?thesis
        using False by simp
    qed
    obtain st' w' where s2: "for_indexes f env js st1 = (TDB_SUCCESS, st')" "V st' w'" "mirrors env (put_row new (drop_row old rows)) w'"
      "\<And>c k. (\<forall>i < length (ix_keys env). index_cf env i \<noteq> Some c) \<Longrightarrow> w' (c, k) = w1 (c, k)"
      using Cons.IH [OF _ _ s1(2) mi] Cons.prems(1,2) by auto
    have "w' (c', k) = w (c', k)" if "\<forall>i < length (ix_keys env). index_cf env i \<noteq> Some c'" for c' k
      using s2(4) [OF that] swapped_other [OF s1(3), of c' k] that j Some by auto
    then show ?thesis
      using s1 s2(1-3) Some by (intro exI [of _ st'] exI [of _ w']) simp
  qed
qed

lemma all_indexes_mirrors:
  assumes "wf_indexes env" "swaps_row env rows V f old new" "replaceable env rows n old new" "V st w" "mirrors env rows w"
  shows "\<exists>st' w'. all_indexes f env st = (TDB_SUCCESS, st') \<and> V st' w' \<and> mirrors env (put_row new (drop_row old rows)) w' \<and>
    (\<forall>c k. (\<forall>i < length (ix_keys env). index_cf env i \<noteq> Some c) \<longrightarrow> w' (c, k) = w (c, k))"
proof (cases "ix_num_secondary env = 0")
  case True
  then have "mirrors env (put_row new (drop_row old rows)) w"
    using assms(1) by (simp add: wf_indexes_def mirrors_def)
  then show ?thesis
    using True assms(4) by (auto simp: all_indexes_def)
next
  case False
  then show ?thesis
    using for_indexes_mirrors [OF assms(1-3), of "[0..<length (ix_keys env)]" st w] assms(4,5)
    by (simp add: all_indexes_def mirrors_def atLeast0LessThan)
qed

section \<open>The three maintainers\<close>

text \<open>The loop state of the first two is the transaction record and the library.\<close>

definition sees :: "'l lib_ghost \<Rightarrow> ('l \<Rightarrow> bool) \<Rightarrow> 'l lib_sem \<Rightarrow> txn \<Rightarrow> store \<Rightarrow> txn option option \<Rightarrow> tidesdb_trx_t option \<times> 'l \<Rightarrow> store \<Rightarrow> bool" where
  "sees g good s h db T st w \<longleftrightarrow> at_view g good s h db w (snd st) \<and> map_option trx_txn (fst st) = T"

lemma write_indexes_mirror:
  assumes lib: "lib_stores lib s" "lib_owns lib g D" "lib_reliable lib g good" and wf: "wf_indexes env"
    and rep: "replaceable env rows n None (Some (pk, r))" and pk: "pk_of env cur r = pk"
    and st: "sees g good s h db T st w" and m: "mirrors env rows w"
  shows "\<exists>st' w'. write_maintain_indexes lib env h cur pk r ttl st = (TDB_SUCCESS, st') \<and> sees g good s h db T st' w' \<and>
    mirrors env (rows(pk \<mapsto> r)) w' \<and> (\<forall>c k. (\<forall>i < length (ix_keys env). index_cf env i \<noteq> Some c) \<longrightarrow> w' (c, k) = w (c, k))"
proof -
  have "swaps_row env rows (sees g good s h db T) (write_one_index lib env h cur pk r ttl) None (Some (pk, r))"
    unfolding swaps_row_def
  proof (intro allI impI)
    fix i c st w
    assume i: "i < length (ix_keys env)" and v: "sees g good s h db T st w"
    show "\<exists>st' w'. write_one_index lib env h cur pk r ttl i c st = (TDB_SUCCESS, st') \<and> sees g good s h db T st' w' \<and>
        swapped c (ents (idx_entries env i) None) (ents (idx_entries env i) (Some (pk, r))) w w'"
      using write_one_swaps [OF lib wf i _ pk, of h db w "snd st" ttl c "fst st"] v rep i by (auto simp: sees_def replaceable_def)
  qed
  from all_indexes_mirrors [OF wf this rep st m] show ?thesis
    by (simp add: write_maintain_indexes_def)
qed

lemma delete_indexes_mirror:
  assumes lib: "lib_stores lib s" "lib_owns lib g D" "lib_reliable lib g good" and wf: "wf_indexes env"
    and rep: "replaceable env rows n (Some (cur, r)) None" and pk: "pk_of env cur r = cur"
    and st: "sees g good s h db T st w" and m: "mirrors env rows w"
  shows "\<exists>st' w'. delete_maintain_indexes lib env h cur r st = (TDB_SUCCESS, st') \<and> sees g good s h db T st' w' \<and>
    mirrors env (rows(cur := None)) w' \<and> (\<forall>c k. (\<forall>i < length (ix_keys env). index_cf env i \<noteq> Some c) \<longrightarrow> w' (c, k) = w (c, k))"
proof -
  have "swaps_row env rows (sees g good s h db T) (delete_one_index lib env h cur r) (Some (cur, r)) None"
    unfolding swaps_row_def
  proof (intro allI impI)
    fix i c st w
    assume i: "i < length (ix_keys env)" and v: "sees g good s h db T st w"
    show "\<exists>st' w'. delete_one_index lib env h cur r i c st = (TDB_SUCCESS, st') \<and> sees g good s h db T st' w' \<and>
        swapped c (ents (idx_entries env i) (Some (cur, r))) (ents (idx_entries env i) None) w w'"
      using delete_one_swaps [OF lib wf i pk, of h db w "snd st" c "fst st"] v by (auto simp: sees_def)
  qed
  from all_indexes_mirrors [OF wf this rep st m] show ?thesis
    by (simp add: delete_maintain_indexes_def)
qed

lemma update_indexes_mirror:
  assumes lib: "lib_stores lib s" "lib_owns lib g D" "lib_reliable lib g good" and wf: "wf_indexes env"
    and rep: "replaceable env rows n (Some (old_pk, old_r)) (Some (new_pk, new_r))" and pk: "pk_of env new_pk new_r = new_pk"
    and short: "\<forall>i < length (ix_keys env). short_words env i old_r"
    and agree: "\<forall>n. \<not> ix_write_set env n \<longrightarrow> old_r n = new_r n"
    and moved: "old_pk = new_pk \<or> (\<forall>i < length (ix_keys env). index_cf env i \<noteq> None \<longrightarrow> followed env i)"
    and st: "sees g good s h db T (snd st) w" and m: "mirrors env rows w"
  shows "\<exists>st' w'. update_maintain_indexes lib env h old_r new_r old_pk new_pk ttl st = (TDB_SUCCESS, st') \<and>
    sees g good s h db T (snd st') w' \<and> mirrors env (rows(old_pk := None, new_pk \<mapsto> new_r)) w' \<and>
    (\<forall>c k. (\<forall>i < length (ix_keys env). index_cf env i \<noteq> Some c) \<longrightarrow> w' (c, k) = w (c, k))"
proof -
  have "swaps_row env rows (\<lambda>st. sees g good s h db T (snd st)) (update_one_index lib env h old_r new_r old_pk new_pk ttl)
      (Some (old_pk, old_r)) (Some (new_pk, new_r))"
    unfolding swaps_row_def
  proof (intro allI impI)
    fix i c w and st :: "bytes \<times> tidesdb_trx_t option \<times> 'a"
    assume i: "i < length (ix_keys env)" "index_cf env i = Some c" and v: "sees g good s h db T (snd st) w"
      and mi: "mirror (idx_entries env i) rows w c"
    have "rows old_pk = Some old_r" "short_words env i new_r" "short_words env i old_r" "old_pk = new_pk \<or> followed env i"
      using rep short moved i by (auto simp: replaceable_def)
    then show "\<exists>st' w'. update_one_index lib env h old_r new_r old_pk new_pk ttl i c st = (TDB_SUCCESS, st') \<and>
        sees g good s h db T (snd st') w' \<and>
        swapped c (ents (idx_entries env i) (Some (old_pk, old_r))) (ents (idx_entries env i) (Some (new_pk, new_r))) w w'"
      using update_one_swaps [OF lib wf _ _ pk mi _ agree, of old_pk h db "snd (snd st)" ttl "fst st" "fst (snd st)"] v
      by (fastforce simp: sees_def)
  qed
  from all_indexes_mirrors [OF wf this rep st m] show ?thesis
    by (simp add: update_maintain_indexes_def)
qed

end
