(* ===== verification/Dml.thy ===== *)
theory Dml
  imports Dml_Index Fk_Check Row_Codec
begin

text \<open>
  The row operations, \<^verbatim>\<open>src/tidesdb/src/handler/ha_tidesdb_dml.cc\<close> and \<^verbatim>\<open>ha_tidesdb_dml_update.cc\<close>, with the expiry of a row from
  \<^verbatim>\<open>ha_tidesdb_read.cc\<close>. \<open>dml_env\<close> is what a statement does not change, \<open>dml\<close> is the state: the handler's transaction fields, the
  connection, the engine, the other handlers a cascade reaches, and the fields of the handler and the share that the row
  operations use. A record buffer is an \<open>image\<close>; the row the key code reads is \<open>row_of\<close>. The server's column bitmaps
  are not modelled. \<open>None\<close> is a cascade that does not return. A null transaction is the error the library has for it.
\<close>

section \<open>State\<close>

record dml_session =
  dv_skip_unique :: bool
  dv_ttl :: int
  dv_single_delete_primary :: bool
  dv_compact_min_rows :: nat

text \<open>\<open>de_auto_inc\<close> is the server's \<open>update_auto_increment\<close>, where the buffer is the one with the counter column: it completes the
  buffer from the counter. \<open>de_next_number\<close> reads that column.\<close>

record ('x, 'l) dml_env =
  de_ix :: index_env
  de_fk :: fk_env
  de_code :: "fk_option \<Rightarrow> u8"
  de_tables :: "('x, 'l) child_table list"
  de_ops :: field_ops
  de_crypto :: crypto
  de_thd :: thd
  de_session :: dml_session
  de_name :: "(bytes \<times> bytes) option"
  de_has_ttl :: bool
  de_ttl_field :: "nat option"
  de_default_ttl :: int
  de_val_int :: "nat \<Rightarrow> bytes \<Rightarrow> int"
  de_now :: int
  de_auto_inc :: "(image \<Rightarrow> u64 \<Rightarrow> ha_rc \<times> image \<times> u64) option"
  de_next_number :: "image \<Rightarrow> u64"
  de_write_can_replace :: bool
  de_ref_length :: nat
  de_triggers :: bool

record ('x, 'l) dml =
  d_ha :: ha_tidesdb
  d_conn :: conn
  d_eng :: "'l engine"
  d_peers :: 'x
  d_current_pk :: bytes
  d_errkey :: "nat option"
  d_dup_ref :: bytes
  d_next_row_id :: u64
  d_auto_inc_val :: u64
  d_schema :: row_schema
  d_enc_key_ver :: u32
  d_vars :: dml_session
  d_in_bulk_insert :: bool
  d_in_bulk_update :: bool
  d_in_bulk_delete :: bool
  d_bulk_insert_ops :: nat
  d_bulk_delete_defer :: bool
  d_bulk_delete_rows :: nat
  d_bulk_delete_min :: bytes
  d_bulk_delete_max :: bytes
  d_bulk_delete_keys :: "bytes list"

definition row_of :: "row_schema \<Rightarrow> image \<Rightarrow> row" where
  "row_of s img n =
     (if n < length (rs_plan s) \<and> n < length (im_slots img) then (is_real_null (rs_plan s ! n) img, im_slots img ! n) else (False, []))"

definition d_lib :: "('x, 'l) dml \<Rightarrow> 'l" where
  "d_lib st = e_lib (d_eng st)"

definition set_d_lib :: "'l \<Rightarrow> ('x, 'l) dml \<Rightarrow> ('x, 'l) dml" where
  "set_d_lib l st = st\<lparr>d_eng := set_lib l (d_eng st)\<rparr>"

text \<open>The transaction record behind the cached pointer.\<close>

definition d_trx :: "('x, 'l) dml \<Rightarrow> tidesdb_trx_t option" where
  "d_trx st = (if cached_trx (d_ha st) then c_trx (d_conn st) else None)"

definition set_d_trx :: "tidesdb_trx_t option \<Rightarrow> ('x, 'l) dml \<Rightarrow> ('x, 'l) dml" where
  "set_d_trx trx st = (if cached_trx (d_ha st) then st\<lparr>d_conn := (d_conn st)\<lparr>c_trx := trx\<rparr>\<rparr> else st)"

section \<open>Shared steps\<close>

definition cache_stmt_thdvars :: "('x, 'l) dml_env \<Rightarrow> ('x, 'l) dml \<Rightarrow> ('x, 'l) dml" where
  "cache_stmt_thdvars env st =
     (if cached_thdvars_valid (d_ha st) then st
      else st\<lparr>d_vars := de_session env, d_ha := (d_ha st)\<lparr>cached_thdvars_valid := True\<rparr>\<rparr>)"

definition open_stmt_txn :: "'l tdb_lib \<Rightarrow> ('x, 'l) dml_env \<Rightarrow> ('x, 'l) dml \<Rightarrow> ha_rc \<times> ('x, 'l) dml" where
  "open_stmt_txn lib env st =
     (case ensure_stmt_txn lib (de_thd env) (d_ha st) (d_conn st) (d_eng st) of
        (rc, ha, c, e) \<Rightarrow> (rc, st\<lparr>d_ha := ha, d_conn := c, d_eng := e\<rparr>))"

text \<open>The statement writes: the handler and the transaction are dirty, and the table is noted.\<close>

definition mark_modified :: "('x, 'l) dml_env \<Rightarrow> ('x, 'l) dml \<Rightarrow> ('x, 'l) dml" where
  "mark_modified env st =
     (let st1 = set_d_trx (map_option (\<lambda>t. t\<lparr>dirty := True\<rparr>) (d_trx st)) (st\<lparr>d_ha := (d_ha st)\<lparr>stmt_txn_dirty := True\<rparr>\<rparr>)
      in case note_modified_table (de_name env) (mod_table_noted_generation (d_ha st1)) (d_trx st1) of
           (noted, trx) \<Rightarrow> set_d_trx trx (st1\<lparr>d_ha := (d_ha st1)\<lparr>mod_table_noted_generation := noted\<rparr>\<rparr>))"

definition serialize_buf :: "('x, 'l) dml_env \<Rightarrow> bytes option \<Rightarrow> image \<Rightarrow> ('x, 'l) dml \<Rightarrow> bytes \<times> ('x, 'l) dml" where
  "serialize_buf env iv img st =
     (case serialize_row (de_ops env) (de_crypto env) iv
             (if enc_key_ver_valid (d_ha st) then Some (d_enc_key_ver st) else None) (d_schema st) img of
        (bs, cached, s) \<Rightarrow>
          (bs, st\<lparr>d_schema := s, d_ha := (d_ha st)\<lparr>enc_key_ver_valid := cached \<noteq> None\<rparr>,
                  d_enc_key_ver := (case cached of Some v \<Rightarrow> v | None \<Rightarrow> d_enc_key_ver st)\<rparr>))"

definition compute_row_ttl :: "('x, 'l) dml_env \<Rightarrow> row \<Rightarrow> ('x, 'l) dml \<Rightarrow> int \<times> ('x, 'l) dml" where
  "compute_row_ttl env r st =
     (let t0 = (case de_ttl_field env of
                  None \<Rightarrow> 0
                | Some f \<Rightarrow> if fst (r f) then 0 else de_val_int env f (snd (r f)));
          t1 = (if t0 \<le> 0 \<and> dv_ttl (d_vars st) > 0 then dv_ttl (d_vars st) else t0);
          t2 = (if t1 \<le> 0 \<and> de_default_ttl env > 0 then de_default_ttl env else t1)
      in if t2 \<le> 0 then (TIDESDB_TTL_NONE, st)
         else (t2, if cached_time_valid (d_ha st) then st
                   else st\<lparr>d_ha := (d_ha st)\<lparr>cached_time := de_now env, cached_time_valid := True\<rparr>\<rparr>))"

definition row_ttl :: "('x, 'l) dml_env \<Rightarrow> row \<Rightarrow> ('x, 'l) dml \<Rightarrow> int \<times> ('x, 'l) dml" where
  "row_ttl env r st =
     (if de_has_ttl env \<or> dv_ttl (d_vars st) > 0 then compute_row_ttl env r st else (TIDESDB_TTL_NONE, st))"

definition note_dup_key :: "nat \<Rightarrow> ('x, 'l) dml \<Rightarrow> ('x, 'l) dml" where
  "note_dup_key i st = st\<lparr>d_errkey := Some i\<rparr>"

definition copy_dup_ref :: "bytes \<Rightarrow> ('x, 'l) dml \<Rightarrow> ('x, 'l) dml" where
  "copy_dup_ref pk st = st\<lparr>d_dup_ref := pk @ drop (length pk) (d_dup_ref st)\<rparr>"

section \<open>Uniqueness\<close>

text \<open>Whether a primary key exists: an error, or the answer.\<close>

definition probe_pk_exists :: "'l tdb_lib \<Rightarrow> ('x, 'l) dml_env \<Rightarrow> bytes \<Rightarrow> ('x, 'l) dml \<Rightarrow> (ha_rc + bool) \<times> ('x, 'l) dml" where
  "probe_pk_exists lib env dk st =
     (case (case Option.bind (d_trx st) trx_txn of Some h \<Rightarrow> Some h | None \<Rightarrow> stmt_txn (d_ha st)) of
        None \<Rightarrow> (Inl (tdb_rc_to_ha TDB_ERR_INVALID_ARGS), st)
      | Some h \<Rightarrow>
          (case txn_contains lib h (ix_cf (de_ix env)) dk (d_lib st) of
             (rc, l) \<Rightarrow>
               (if rc = TDB_SUCCESS then Inr True else if rc = TDB_ERR_NOT_FOUND then Inr False else Inl (tdb_rc_to_ha rc),
                set_d_lib l st)))"

definition check_pk :: "'l tdb_lib \<Rightarrow> ('x, 'l) dml_env \<Rightarrow> bytes \<Rightarrow> ('x, 'l) dml \<Rightarrow> ha_rc \<times> ('x, 'l) dml" where
  "check_pk lib env pk st =
     (case probe_pk_exists lib env (data_key pk) st of
        (Inl rc, st1) \<Rightarrow> (rc, st1)
      | (Inr False, st1) \<Rightarrow> (HA_OK, st1)
      | (Inr True, st1) \<Rightarrow> (HA_ERR_FOUND_DUPP_KEY, copy_dup_ref pk (note_dup_key (ix_pk_index (de_ix env)) st1)))"

definition write_check_pk_unique :: "'l tdb_lib \<Rightarrow> ('x, 'l) dml_env \<Rightarrow> bytes \<Rightarrow> bool \<Rightarrow> ('x, 'l) dml \<Rightarrow> ha_rc \<times> ('x, 'l) dml" where
  "write_check_pk_unique lib env pk skip_pk_unique st =
     (if \<not> ix_has_user_pk (de_ix env) \<or> skip_pk_unique \<or> (de_write_can_replace env \<and> ix_num_secondary (de_ix env) = 0)
      then (HA_OK, st) else check_pk lib env pk st)"

text \<open>The prefix a unique index has to be free of, unless the index does not constrain the row.\<close>

definition unique_prefix :: "index_env \<Rightarrow> row \<Rightarrow> nat \<Rightarrow> bytes option" where
  "unique_prefix ix r i =
     (let ki = ix_keys ix ! i
      in if ix_is_fts ix ! i \<or> ix_is_spatial ix ! i \<or> \<not> key_nosame ki \<or>
            list_ex (\<lambda>kp. is_nullable (kp_field kp) \<and> fst (field_of kp r)) (key_parts ki)
         then None else Some (make_comparable_key (ix_ss ix) (ix_stale ix) ki r (length (key_parts ki)) None))"

text \<open>One look into an index through an iterator of its own: an error, or the rest of the first key that starts with the prefix.\<close>

definition probe_prefix :: "'l tdb_lib \<Rightarrow> txn \<Rightarrow> cf \<Rightarrow> bytes \<Rightarrow> 'l \<Rightarrow> (ha_rc + bytes option) \<times> 'l" where
  "probe_prefix lib h c pre l =
     (case iter_new lib h c l of
        (rc, out, l1) \<Rightarrow>
          (case (if rc = TDB_SUCCESS then out else None) of
             None \<Rightarrow> (Inl (tdb_rc_to_ha rc), l1)
           | Some it \<Rightarrow>
               let l2 = iter_seek lib it pre l1;
                   found = (if iter_valid lib it l2
                            then (case iter_key lib it l2 of
                                    (krc, k) \<Rightarrow>
                                      if krc = TDB_SUCCESS \<and> take (length pre) k = pre then Some (drop (length pre) k) else None)
                            else None)
               in (Inr found, iter_free lib it l2)))"

fun check_unique_each ::
  "'l tdb_lib \<Rightarrow> ('x, 'l) dml_env \<Rightarrow> txn \<Rightarrow> (nat \<Rightarrow> bytes option) \<Rightarrow> nat list \<Rightarrow> ('x, 'l) dml \<Rightarrow> ha_rc \<times> ('x, 'l) dml" where
  "check_unique_each lib env h P [] st = (HA_OK, st)"
| "check_unique_each lib env h P (i # is) st =
     (case (index_cf (de_ix env) i, P i) of
        (Some c, Some pre) \<Rightarrow>
          (case probe_prefix lib h c pre (d_lib st) of
             (Inl rc, l) \<Rightarrow> (rc, set_d_lib l st)
           | (Inr None, l) \<Rightarrow> check_unique_each lib env h P is (set_d_lib l st)
           | (Inr (Some rest), l) \<Rightarrow>
               (HA_ERR_FOUND_DUPP_KEY,
                note_dup_key i
                  (if 0 < length rest \<and> length rest \<le> de_ref_length env then copy_dup_ref rest (set_d_lib l st) else set_d_lib l st)))
      | _ \<Rightarrow> check_unique_each lib env h P is st)"

definition write_check_secondary_unique :: "'l tdb_lib \<Rightarrow> ('x, 'l) dml_env \<Rightarrow> txn \<Rightarrow> row \<Rightarrow> ('x, 'l) dml \<Rightarrow> ha_rc \<times> ('x, 'l) dml" where
  "write_check_secondary_unique lib env h r st =
     (if \<not> (ix_num_secondary (de_ix env) > 0 \<and> \<not> dv_skip_unique (d_vars st)) then (HA_OK, st)
      else check_unique_each lib env h (unique_prefix (de_ix env) r) [0..<length (ix_keys (de_ix env))] st)"

definition changed_prefix :: "index_env \<Rightarrow> row \<Rightarrow> row \<Rightarrow> nat \<Rightarrow> bytes option" where
  "changed_prefix ix old_r new_r i =
     (let ki = ix_keys ix ! i
      in case unique_prefix ix new_r i of
           None \<Rightarrow> None
         | Some pre \<Rightarrow>
             if make_comparable_key (ix_ss ix) (ix_stale ix) ki old_r (length (key_parts ki)) None = pre then None else Some pre)"

definition update_check_unique ::
  "'l tdb_lib \<Rightarrow> ('x, 'l) dml_env \<Rightarrow> txn \<Rightarrow> row \<Rightarrow> row \<Rightarrow> bytes \<Rightarrow> bool \<Rightarrow> ('x, 'l) dml \<Rightarrow> ha_rc \<times> ('x, 'l) dml" where
  "update_check_unique lib env h old_r new_r new_pk pk_changed st =
     (case (if pk_changed \<and> ix_has_user_pk (de_ix env) then check_pk lib env new_pk st else (HA_OK, st)) of
        (rc, st1) \<Rightarrow>
          if rc \<noteq> HA_OK then (rc, st1)
          else if ix_num_secondary (de_ix env) = 0 then (HA_OK, st1)
          else check_unique_each lib env h (changed_prefix (de_ix env) old_r new_r) [0..<length (ix_keys (de_ix env))] st1)"

section \<open>Committing in the middle of a statement\<close>

definition TIDESDB_BULK_INSERT_BATCH_OPS :: nat where "TIDESDB_BULK_INSERT_BATCH_OPS = 500"
definition TIDESDB_BULK_DELETE_DEFER_CAP :: nat where "TIDESDB_BULK_DELETE_DEFER_CAP = 262144"
definition TIDESDB_BULK_DELETE_MIN_RANGE :: nat where "TIDESDB_BULK_DELETE_MIN_RANGE = 64"

text \<open>The handler's iterator is freed, and the handler points at the given transaction.\<close>

definition repoint :: "'l tdb_lib \<Rightarrow> txn option \<Rightarrow> ('x, 'l) dml \<Rightarrow> ('x, 'l) dml" where
  "repoint lib out st =
     (case scan_iter (d_ha st) of
        None \<Rightarrow> st\<lparr>d_ha := (d_ha st)\<lparr>stmt_txn := out, scan_txn := out\<rparr>\<rparr>
      | Some it \<Rightarrow>
          (set_d_lib (iter_free lib it (d_lib st)) st)
            \<lparr>d_ha := (d_ha st)\<lparr>stmt_txn := out, scan_txn := out, scan_iter := None, scan_iter_txn := None\<rparr>\<rparr>)"

definition disarm :: "tidesdb_trx_t \<Rightarrow> tidesdb_trx_t" where
  "disarm t = t\<lparr>stmt_savepoint_active := False, stmt_fts_snapshot := []\<rparr>"

definition next_generation :: "tidesdb_trx_t \<Rightarrow> tidesdb_trx_t" where
  "next_generation t = t\<lparr>txn_generation := txn_generation t + 1\<rparr>"

definition maybe_bulk_commit :: "'l tdb_lib \<Rightarrow> ('x, 'l) dml \<Rightarrow> ha_rc \<times> ('x, 'l) dml" where
  "maybe_bulk_commit lib st =
     (case d_trx st of
        None \<Rightarrow> (HA_OK, st)
      | Some t \<Rightarrow>
          (case trx_txn t of
             None \<Rightarrow> (HA_OK, st)
           | Some h \<Rightarrow>
               (case flush_trx_fts_meta_pending lib t (d_lib st) of
                  (frc, t1, l1) \<Rightarrow>
                    if frc \<noteq> TDB_SUCCESS then (tdb_rc_to_ha frc, set_d_trx (Some t1) (set_d_lib l1 st))
                    else (case txn_commit lib h l1 of
                      (crc, l2) \<Rightarrow>
                        if crc \<noteq> TDB_SUCCESS
                        then (case txn_begin_iso lib (tidesdb_trx_t.isolation_level t1) (txn_free lib h (snd (txn_rollback lib h l2))) of
                                (brc, out, l3) \<Rightarrow>
                                  let t2 = t1\<lparr>trx_txn := out\<rparr>; st2 = set_d_lib l3 st
                                  in if brc \<noteq> TDB_SUCCESS then (tdb_rc_to_ha brc, set_d_trx (Some t2) st2)
                                     else (tdb_rc_to_ha crc, set_d_trx (Some (disarm (next_generation t2))) (repoint lib out st2)))
                        else (case txn_reset lib h (tidesdb_trx_t.isolation_level t1) l2 of
                                (rrc, l3) \<Rightarrow>
                                  (case (if rrc \<noteq> TDB_SUCCESS then txn_begin_iso lib (tidesdb_trx_t.isolation_level t1) (txn_free lib h l3)
                                         else (TDB_SUCCESS, Some h, l3)) of
                                     (brc, out, l4) \<Rightarrow>
                                       let t2 = t1\<lparr>trx_txn := out\<rparr>; st2 = set_d_lib l4 st
                                       in if brc \<noteq> TDB_SUCCESS then (tdb_rc_to_ha brc, set_d_trx (Some t2) st2)
                                          else (HA_OK, set_d_trx (Some ((disarm (next_generation t2))\<lparr>dirty := False\<rparr>))
                                                         (repoint lib out st2))))))))"

definition bulk_flush_if_threshold :: "'l tdb_lib \<Rightarrow> nat \<Rightarrow> ('x, 'l) dml \<Rightarrow> ha_rc \<times> ('x, 'l) dml" where
  "bulk_flush_if_threshold lib weight st =
     (let st1 = st\<lparr>d_bulk_insert_ops := d_bulk_insert_ops st + weight\<rparr>
      in if d_bulk_insert_ops st1 \<ge> TIDESDB_BULK_INSERT_BATCH_OPS
         then (case maybe_bulk_commit lib st1 of
                 (rc, st2) \<Rightarrow> if rc \<noteq> HA_OK then (rc, st2) else (HA_OK, st2\<lparr>d_bulk_insert_ops := 0\<rparr>))
         else (HA_OK, st1))"

section \<open>Insert\<close>

text \<open>The counter is raised to a value the statement supplied; whether the whole primary key comes from the counter is the flag.\<close>

definition write_row_auto_increment ::
  "('x, 'l) dml_env \<Rightarrow> (image \<Rightarrow> u64 \<Rightarrow> ha_rc \<times> image \<times> u64) \<Rightarrow> image \<Rightarrow> ('x, 'l) dml \<Rightarrow> ha_rc \<times> bool \<times> image \<times> ('x, 'l) dml" where
  "write_row_auto_increment env update_auto_increment img st =
     (let ix = de_ix env;
          auto = (de_next_number env img = 0 \<and> ix_has_user_pk ix \<and> length (key_parts (ix_keys ix ! ix_pk_index ix)) = 1)
      in case update_auto_increment img (d_auto_inc_val st) of
           (rc, img1, cur) \<Rightarrow>
             if rc \<noteq> HA_OK then (rc, auto, img1, st\<lparr>d_auto_inc_val := cur\<rparr>)
             else let val = de_next_number env img1
               in (HA_OK, auto, img1, st\<lparr>d_auto_inc_val := if val > cur then val else cur\<rparr>))"

definition write_build_pk :: "('x, 'l) dml_env \<Rightarrow> row \<Rightarrow> ('x, 'l) dml \<Rightarrow> bytes \<times> ('x, 'l) dml" where
  "write_build_pk env r st =
     (if ix_has_user_pk (de_ix env) then (pk_of (de_ix env) (d_current_pk st) r, st)
      else (encode_be64 (d_next_row_id st), st\<lparr>d_next_row_id := d_next_row_id st + 1\<rparr>))"

definition fk_now :: "('x, 'l) dml_env \<Rightarrow> ('x, 'l) dml \<Rightarrow> fk_env" where
  "fk_now env st = (de_fk env)\<lparr>fx_stmt_txn := stmt_txn (d_ha st)\<rparr>"

text \<open>The part of an insert after the checks: the row, its index entries, and the batch boundary.\<close>

definition write_store ::
  "'l tdb_lib \<Rightarrow> ('x, 'l) dml_env \<Rightarrow> txn \<Rightarrow> bytes \<Rightarrow> row \<Rightarrow> bytes \<Rightarrow> ('x, 'l) dml \<Rightarrow> ha_rc \<times> ('x, 'l) dml" where
  "write_store lib env h pk r row_data st0 =
     (case row_ttl env r st0 of
        (due, st) \<Rightarrow>
          (case txn_put lib h (ix_cf (de_ix env)) (data_key pk) row_data due (d_lib st) of
             (rc, l1) \<Rightarrow>
               if rc \<noteq> TDB_SUCCESS then (tdb_rc_to_ha rc, set_d_lib l1 st)
               else let st1 = (set_d_lib l1 st)\<lparr>d_current_pk := pk\<rparr>
                 in (case write_maintain_indexes lib (de_ix env) h pk pk r due (d_trx st1, d_lib st1) of
                       (rc2, trx, l2) \<Rightarrow>
                         let st2 = set_d_trx trx (set_d_lib l2 st1)
                         in if rc2 \<noteq> TDB_SUCCESS then (tdb_rc_to_ha rc2, st2)
                            else if d_in_bulk_insert st2 then bulk_flush_if_threshold lib (1 + ix_num_secondary (de_ix env)) st2
                            else (HA_OK, st2))))"

text \<open>The checks, in the order of the code, and then the part above.\<close>

definition write_checked ::
  "'l tdb_lib \<Rightarrow> ('x, 'l) dml_env \<Rightarrow> txn \<Rightarrow> bytes \<Rightarrow> row \<Rightarrow> bytes \<Rightarrow> bool \<Rightarrow> ('x, 'l) dml \<Rightarrow> (ha_rc \<times> ('x, 'l) dml) option" where
  "write_checked lib env h pk r row_data pk_auto_generated st =
     (case write_check_pk_unique lib env pk (dv_skip_unique (d_vars st) \<or> pk_auto_generated) st of
        (rc1, st1) \<Rightarrow>
          if rc1 \<noteq> HA_OK then Some (rc1, st1)
          else (case write_check_secondary_unique lib env h r st1 of
            (rc2, st2) \<Rightarrow>
              if rc2 \<noteq> HA_OK then Some (rc2, st2)
              else (case fk_check_child lib (fk_now env st2) r (d_lib st2) of
                None \<Rightarrow> None
              | Some (rc3, l3) \<Rightarrow>
                  let st3 = set_d_lib l3 st2
                  in Some (if rc3 \<noteq> HA_OK then (rc3, st3) else write_store lib env h pk r row_data st3))))"

definition write_row :: "'l tdb_lib \<Rightarrow> ('x, 'l) dml_env \<Rightarrow> bytes option \<Rightarrow> image \<Rightarrow> ('x, 'l) dml \<Rightarrow> (ha_rc \<times> ('x, 'l) dml) option" where
  "write_row lib env iv buf st0 =
     (case (case de_auto_inc env of None \<Rightarrow> (HA_OK, False, buf, st0) | Some f \<Rightarrow> write_row_auto_increment env f buf st0) of
        (arc, auto, img, st1) \<Rightarrow>
          if arc \<noteq> HA_OK then Some (arc, st1)
          else let r = row_of (d_schema st1) img
            in (case write_build_pk env r st1 of
                  (pk, st2) \<Rightarrow>
                    (case serialize_buf env iv img st2 of
                       (row_data, st3) \<Rightarrow>
                         if rs_encrypted (d_schema st3) \<and> row_data = [] then Some (HA_ERR_GENERIC, st3)
                         else (case open_stmt_txn lib env st3 of
                           (erc, st4) \<Rightarrow>
                             if erc \<noteq> HA_OK then Some (erc, st4)
                             else let st5 = cache_stmt_thdvars env (mark_modified env st4)
                               in (case stmt_txn (d_ha st5) of
                                     None \<Rightarrow> Some (tdb_rc_to_ha TDB_ERR_INVALID_ARGS, st5)
                                   | Some h \<Rightarrow> write_checked lib env h pk r row_data auto st5)))))"

section \<open>Delete\<close>

fun bulk_flush_keys :: "'l tdb_lib \<Rightarrow> txn \<Rightarrow> cf \<Rightarrow> bool \<Rightarrow> bytes list \<Rightarrow> 'l \<Rightarrow> tdb_rc \<times> 'l" where
  "bulk_flush_keys lib h c single [] l = (TDB_SUCCESS, l)"
| "bulk_flush_keys lib h c single (k # ks) l =
     (case tidesdb_txn_delete_cf lib h c k single l of
        (rc, l1) \<Rightarrow> if rc \<noteq> TDB_SUCCESS then (rc, l1) else bulk_flush_keys lib h c single ks l1)"

definition bulk_delete_flush_buffered :: "'l tdb_lib \<Rightarrow> ('x, 'l) dml_env \<Rightarrow> txn \<Rightarrow> ('x, 'l) dml \<Rightarrow> ha_rc \<times> ('x, 'l) dml" where
  "bulk_delete_flush_buffered lib env h st =
     (case bulk_flush_keys lib h (ix_cf (de_ix env)) (dv_single_delete_primary (d_vars st)) (d_bulk_delete_keys st) (d_lib st) of
        (rc, l) \<Rightarrow>
          if rc \<noteq> TDB_SUCCESS then (tdb_rc_to_ha rc, set_d_lib l st)
          else (HA_OK, (set_d_lib l st)\<lparr>d_bulk_delete_keys := []\<rparr>))"

definition track_range :: "bytes \<Rightarrow> ('x, 'l) dml \<Rightarrow> ('x, 'l) dml" where
  "track_range dk st =
     (if d_in_bulk_delete st \<and> (d_bulk_delete_defer st \<or> dv_compact_min_rows (d_vars st) > 0)
      then let st1 = (if d_bulk_delete_rows st = 0 then st\<lparr>d_bulk_delete_min := dk, d_bulk_delete_max := dk\<rparr>
                      else let st2 = (if dk < d_bulk_delete_min st then st\<lparr>d_bulk_delete_min := dk\<rparr> else st)
                        in if d_bulk_delete_max st2 < dk then st2\<lparr>d_bulk_delete_max := dk\<rparr> else st2)
        in st1\<lparr>d_bulk_delete_rows := d_bulk_delete_rows st1 + 1\<rparr>
      else st)"

text \<open>The primary row: buffered while the statement defers its tombstones, deleted otherwise.\<close>

definition delete_primary :: "'l tdb_lib \<Rightarrow> ('x, 'l) dml_env \<Rightarrow> txn \<Rightarrow> bytes \<Rightarrow> ('x, 'l) dml \<Rightarrow> ha_rc \<times> ('x, 'l) dml" where
  "delete_primary lib env h dk st =
     (if d_bulk_delete_defer st
      then let st1 = st\<lparr>d_bulk_delete_keys := d_bulk_delete_keys st @ [dk]\<rparr>
        in if length (d_bulk_delete_keys st1) \<ge> TIDESDB_BULK_DELETE_DEFER_CAP
           then (case bulk_delete_flush_buffered lib env h st1 of
                   (rc, st2) \<Rightarrow> if rc \<noteq> HA_OK then (rc, st2) else (HA_OK, st2\<lparr>d_bulk_delete_defer := False\<rparr>))
           else (HA_OK, st1)
      else (case tidesdb_txn_delete_cf lib h (ix_cf (de_ix env)) dk (dv_single_delete_primary (d_vars st)) (d_lib st) of
              (rc, l) \<Rightarrow> (tdb_rc_to_ha rc, set_d_lib l st)))"

definition delete_indexes :: "'l tdb_lib \<Rightarrow> ('x, 'l) dml_env \<Rightarrow> txn \<Rightarrow> row \<Rightarrow> ('x, 'l) dml \<Rightarrow> ha_rc \<times> ('x, 'l) dml" where
  "delete_indexes lib env h r st =
     (case delete_maintain_indexes lib (de_ix env) h (d_current_pk st) r (d_trx st, d_lib st) of
        (rc, trx, l) \<Rightarrow>
          let st1 = set_d_trx trx (set_d_lib l st)
          in if rc \<noteq> TDB_SUCCESS then (tdb_rc_to_ha rc, st1)
             else if d_in_bulk_delete st1 \<and> \<not> d_bulk_delete_defer st1
             then bulk_flush_if_threshold lib (1 + ix_num_secondary (de_ix env)) st1
             else (HA_OK, st1))"

definition delete_row :: "'l tdb_lib \<Rightarrow> ('x, 'l) dml_env \<Rightarrow> image \<Rightarrow> ('x, 'l) dml \<Rightarrow> (ha_rc \<times> ('x, 'l) dml) option" where
  "delete_row lib env buf st0 =
     (case open_stmt_txn lib env (cache_stmt_thdvars env st0) of
        (erc, st1) \<Rightarrow>
          if erc \<noteq> HA_OK then Some (erc, st1)
          else let st2 = mark_modified env st1; r = row_of (d_schema st2) buf
            in (case fk_enforce_parent_delete lib (fk_now env st2) (de_code env) (de_tables env) r (d_peers st2, d_lib st2) of
                  None \<Rightarrow> None
                | Some (frc, x, l) \<Rightarrow>
                    let st3 = (set_d_lib l st2)\<lparr>d_peers := x\<rparr>
                    in if frc \<noteq> HA_OK then Some (frc, st3)
                       else (case stmt_txn (d_ha st3) of
                               None \<Rightarrow> Some (tdb_rc_to_ha TDB_ERR_INVALID_ARGS, st3)
                             | Some h \<Rightarrow>
                                 let dk = data_key (d_current_pk st3); st4 = track_range dk st3
                                 in (case delete_primary lib env h dk st4 of
                                       (rc, st5) \<Rightarrow> Some (if rc \<noteq> HA_OK then (rc, st5) else delete_indexes lib env h r st5)))))"

section \<open>Update\<close>

definition update_rewrite_primary ::
  "'l tdb_lib \<Rightarrow> ('x, 'l) dml_env \<Rightarrow> txn \<Rightarrow> bytes \<Rightarrow> bytes \<Rightarrow> bytes \<Rightarrow> int \<Rightarrow> bool \<Rightarrow> ('x, 'l) dml \<Rightarrow> tdb_rc \<times> 'l" where
  "update_rewrite_primary lib env h old_pk new_pk row_data due pk_changed st =
     (let c = ix_cf (de_ix env)
      in case (if pk_changed then tidesdb_txn_delete_cf lib h c (data_key old_pk) (dv_single_delete_primary (d_vars st)) (d_lib st)
               else (TDB_SUCCESS, d_lib st)) of
           (rc, l1) \<Rightarrow> if rc \<noteq> TDB_SUCCESS then (rc, l1) else txn_put lib h c (data_key new_pk) row_data due l1)"

definition update_store ::
  "'l tdb_lib \<Rightarrow> ('x, 'l) dml_env \<Rightarrow> txn \<Rightarrow> bytes \<Rightarrow> bytes \<Rightarrow> row \<Rightarrow> row \<Rightarrow> bytes \<Rightarrow> int \<Rightarrow> ('x, 'l) dml \<Rightarrow> ha_rc \<times> ('x, 'l) dml" where
  "update_store lib env h old_pk new_pk old_r new_r row_data due st =
     (case update_rewrite_primary lib env h old_pk new_pk row_data due (old_pk \<noteq> new_pk) st of
        (rc, l1) \<Rightarrow>
          let st1 = set_d_lib l1 st
          in if rc \<noteq> TDB_SUCCESS then (tdb_rc_to_ha rc, st1)
             else (case update_maintain_indexes lib (de_ix env) h old_r new_r old_pk new_pk due (d_current_pk st1, d_trx st1, d_lib st1) of
                     (rc2, cur, trx, l2) \<Rightarrow>
                       let st2 = (set_d_trx trx (set_d_lib l2 st1))\<lparr>d_current_pk := cur\<rparr>
                       in if rc2 \<noteq> TDB_SUCCESS then (tdb_rc_to_ha rc2, st2)
                          else let st3 = st2\<lparr>d_current_pk := new_pk\<rparr>
                            in if d_in_bulk_update st3 then bulk_flush_if_threshold lib (1 + 2 * ix_num_secondary (de_ix env)) st3
                               else (HA_OK, st3)))"

definition update_checked ::
  "'l tdb_lib \<Rightarrow> ('x, 'l) dml_env \<Rightarrow> txn \<Rightarrow> bytes \<Rightarrow> bytes \<Rightarrow> row \<Rightarrow> row \<Rightarrow> bytes \<Rightarrow> ('x, 'l) dml \<Rightarrow> (ha_rc \<times> ('x, 'l) dml) option" where
  "update_checked lib env h old_pk new_pk old_r new_r row_data st0 =
     (case row_ttl env new_r st0 of
        (due, st) \<Rightarrow>
          (case (if dv_skip_unique (d_vars st) then (HA_OK, st)
                 else update_check_unique lib env h old_r new_r new_pk (old_pk \<noteq> new_pk) st) of
             (rc1, st1) \<Rightarrow>
               if rc1 \<noteq> HA_OK then Some (rc1, st1)
               else (case fk_check_child lib (fk_now env st1) new_r (d_lib st1) of
                 None \<Rightarrow> None
               | Some (rc2, l2) \<Rightarrow>
                   let st2 = set_d_lib l2 st1
                   in if rc2 \<noteq> HA_OK then Some (rc2, st2)
                      else (case fk_enforce_parent_update lib (fk_now env st2) (de_code env) (de_tables env) old_r new_r
                                   (d_peers st2, d_lib st2) of
                        None \<Rightarrow> None
                      | Some (rc3, x, l3) \<Rightarrow>
                          let st3 = (set_d_lib l3 st2)\<lparr>d_peers := x\<rparr>
                          in Some (if rc3 \<noteq> HA_OK then (rc3, st3)
                                   else update_store lib env h old_pk new_pk old_r new_r row_data due st3)))))"

definition update_row :: "'l tdb_lib \<Rightarrow> ('x, 'l) dml_env \<Rightarrow> bytes option \<Rightarrow> image \<Rightarrow> image \<Rightarrow> ('x, 'l) dml \<Rightarrow> (ha_rc \<times> ('x, 'l) dml) option" where
  "update_row lib env iv old_data new_data st0 =
     (let old_pk = d_current_pk st0;
          old_r = row_of (d_schema st0) old_data; new_r = row_of (d_schema st0) new_data;
          new_pk = pk_of (de_ix env) old_pk new_r
      in case serialize_buf env iv new_data st0 of
           (row_data, st1) \<Rightarrow>
             if rs_encrypted (d_schema st1) \<and> row_data = [] then Some (HA_ERR_GENERIC, st1)
             else (case open_stmt_txn lib env st1 of
               (erc, st2) \<Rightarrow>
                 if erc \<noteq> HA_OK then Some (erc, st2)
                 else let st3 = cache_stmt_thdvars env (mark_modified env st2)
                   in (case stmt_txn (d_ha st3) of
                         None \<Rightarrow> Some (tdb_rc_to_ha TDB_ERR_INVALID_ARGS, st3)
                       | Some h \<Rightarrow> update_checked lib env h old_pk new_pk old_r new_r row_data st3)))"

definition bulk_update_row :: "'l tdb_lib \<Rightarrow> ('x, 'l) dml_env \<Rightarrow> bytes option \<Rightarrow> image \<Rightarrow> image \<Rightarrow> ('x, 'l) dml \<Rightarrow> nat \<times> (ha_rc \<times> ('x, 'l) dml) option" where
  "bulk_update_row lib env iv old_data new_data st = (0, update_row lib env iv old_data new_data st)"

section \<open>Bulk statements\<close>

definition start_bulk_insert :: "('x, 'l) dml \<Rightarrow> ('x, 'l) dml" where
  "start_bulk_insert st = st\<lparr>d_in_bulk_insert := True, d_bulk_insert_ops := 0\<rparr>"

definition end_bulk_insert :: "('x, 'l) dml \<Rightarrow> ('x, 'l) dml" where
  "end_bulk_insert st = st\<lparr>d_in_bulk_insert := False\<rparr>"

text \<open>True declines the server's batched updates.\<close>

definition start_bulk_update :: bool where "start_bulk_update = True"

definition end_bulk_update :: "('x, 'l) dml \<Rightarrow> ('x, 'l) dml" where
  "end_bulk_update st = st\<lparr>d_in_bulk_update := False\<rparr>"

definition start_bulk_delete :: "('x, 'l) dml_env \<Rightarrow> ('x, 'l) dml \<Rightarrow> ('x, 'l) dml" where
  "start_bulk_delete env st =
     st\<lparr>d_in_bulk_delete := True, d_bulk_insert_ops := 0, d_bulk_delete_rows := 0, d_bulk_delete_min := [], d_bulk_delete_max := [],
        d_bulk_delete_keys := [], d_bulk_delete_defer := ix_has_user_pk (de_ix env) \<and> \<not> de_triggers env\<rparr>"

definition KEY_INF_HI_BYTE :: u8 where "KEY_INF_HI_BYTE = 0xFF"

text \<open>The last byte below the top one is raised and the rest dropped.\<close>

fun succ_rev :: "bytes \<Rightarrow> bytes option" where
  "succ_rev [] = None"
| "succ_rev (b # bs) = (if b \<noteq> KEY_INF_HI_BYTE then Some (rev ((b + 1) # bs)) else succ_rev bs)"

definition data_key_successor :: "bytes \<Rightarrow> bytes option" where
  "data_key_successor k = succ_rev (rev k)"

partial_function (option) scan_keys :: "'l tdb_lib \<Rightarrow> iter \<Rightarrow> (bytes \<Rightarrow> 'a \<Rightarrow> 'a) \<Rightarrow> 'a \<Rightarrow> 'l \<Rightarrow> ('a \<times> 'l) option" where
  "scan_keys lib it f acc l =
     (if \<not> iter_valid lib it l then Some (acc, l)
      else case iter_key lib it l of
        (krc, k) \<Rightarrow> scan_keys lib it f (if krc = TDB_SUCCESS then f k acc else acc) (iter_next lib it l))"

definition count_live_data_keys :: "'l tdb_lib \<Rightarrow> txn \<Rightarrow> cf \<Rightarrow> bytes \<Rightarrow> bytes \<Rightarrow> 'l \<Rightarrow> (tdb_rc \<times> nat \<times> 'l) option" where
  "count_live_data_keys lib h c lo hi l =
     (case iter_new_range lib h c lo hi l of
        (rc, out, l1) \<Rightarrow>
          (case (if rc = TDB_SUCCESS then out else None) of
             None \<Rightarrow> Some (if rc \<noteq> TDB_SUCCESS then rc else TDB_ERR_IO, 0, l1)
           | Some it \<Rightarrow>
               map_option (\<lambda>(n, l2). (TDB_SUCCESS, n, iter_free lib it l2))
                 (scan_keys lib it (\<lambda>k n. if is_data_key k then Suc n else n) 0 (iter_seek_to_first lib it l1))))"

text \<open>Whether the whole run could be replaced by one range tombstone.\<close>

definition try_range_tombstone :: "'l tdb_lib \<Rightarrow> ('x, 'l) dml_env \<Rightarrow> txn \<Rightarrow> ('x, 'l) dml \<Rightarrow> (bool \<times> ('x, 'l) dml) option" where
  "try_range_tombstone lib env h st =
     (if length (d_bulk_delete_keys st) \<ge> TIDESDB_BULK_DELETE_MIN_RANGE \<and> d_bulk_delete_min st \<noteq> [] \<and> d_bulk_delete_max st \<noteq> []
      then (case data_key_successor (d_bulk_delete_max st) of
              None \<Rightarrow> Some (False, st)
            | Some hi \<Rightarrow>
                (case count_live_data_keys lib h (ix_cf (de_ix env)) (d_bulk_delete_min st) hi (d_lib st) of
                   None \<Rightarrow> None
                 | Some (rc, live, l1) \<Rightarrow>
                     let st1 = set_d_lib l1 st
                     in if rc \<noteq> TDB_SUCCESS \<or> live \<noteq> length (d_bulk_delete_keys st) then Some (False, st1)
                        else (case txn_delete_range lib h (ix_cf (de_ix env)) (d_bulk_delete_min st) hi l1 of
                                (rc2, l2) \<Rightarrow>
                                  Some (if rc2 \<noteq> TDB_SUCCESS then (False, set_d_lib l2 st1)
                                        else (True, set_d_trx (map_option (\<lambda>t. t\<lparr>dirty := True\<rparr>) (d_trx st1))
                                                ((set_d_lib l2 st1)\<lparr>d_ha := (d_ha st1)\<lparr>stmt_txn_dirty := True\<rparr>, d_bulk_delete_keys := []\<rparr>))))))
      else Some (False, st))"

definition resolve_deferred :: "'l tdb_lib \<Rightarrow> ('x, 'l) dml_env \<Rightarrow> ('x, 'l) dml \<Rightarrow> (ha_rc \<times> bool \<times> ('x, 'l) dml) option" where
  "resolve_deferred lib env st =
     (if \<not> (d_bulk_delete_defer st \<and> d_bulk_delete_keys st \<noteq> []) then Some (HA_OK, False, st)
      else (case open_stmt_txn lib env st of
        (erc, st1) \<Rightarrow>
          if erc \<noteq> HA_OK then Some (erc, False, st1)
          else (case stmt_txn (d_ha st1) of
                  None \<Rightarrow> Some (tdb_rc_to_ha TDB_ERR_INVALID_ARGS, False, st1)
                | Some h \<Rightarrow>
                    (case try_range_tombstone lib env h st1 of
                       None \<Rightarrow> None
                     | Some (True, st2) \<Rightarrow> Some (HA_OK, True, st2)
                     | Some (False, st2) \<Rightarrow> (case bulk_delete_flush_buffered lib env h st2 of (rc, st3) \<Rightarrow> Some (rc, False, st3))))))"

definition end_bulk_delete :: "'l tdb_lib \<Rightarrow> ('x, 'l) dml_env \<Rightarrow> ('x, 'l) dml \<Rightarrow> (ha_rc \<times> ('x, 'l) dml) option" where
  "end_bulk_delete lib env st0 =
     (case resolve_deferred lib env (st0\<lparr>d_in_bulk_delete := False\<rparr>) of
        None \<Rightarrow> None
      | Some (rc, ranged, st1) \<Rightarrow>
          if rc \<noteq> HA_OK then Some (rc, st1)
          else let st2 = st1\<lparr>d_bulk_delete_keys := [], d_bulk_delete_defer := False\<rparr>;
                   st3 = (if \<not> ranged \<and> dv_compact_min_rows (d_vars st2) > 0 \<and> d_bulk_delete_rows st2 \<ge> dv_compact_min_rows (d_vars st2) \<and>
                            d_bulk_delete_min st2 \<noteq> [] \<and> d_bulk_delete_max st2 \<noteq> []
                          then set_d_lib (snd (compact_range lib (ix_cf (de_ix env)) (d_bulk_delete_min st2) (d_bulk_delete_max st2) (d_lib st2))) st2
                          else st2)
            in Some (HA_OK, st3\<lparr>d_bulk_delete_rows := 0, d_bulk_delete_min := [], d_bulk_delete_max := []\<rparr>))"

end
