(* ===== verification/Dml_Table.thy ===== *)
theory Dml_Table
  imports Dml
begin

text \<open>
  The table a transaction sees. The abstract table maps a primary key to a record buffer; \<open>table_in\<close> says that a transaction's
  view holds it, with every index family a mirror of it. The checks of a row operation decide questions about that table and
  change nothing; storing, moving and deleting a row change the table as the operation on the map does.
\<close>

section \<open>The look into an index\<close>

lemma between_prefix: "pre \<le> y \<Longrightarrow> y \<le> pre @ x \<Longrightarrow> take (length pre) y = (pre :: bytes)"
proof (induction pre arbitrary: y)
  case (Cons a pre)
  then show ?case
    by (cases y) auto
qed simp

lemma prefix_le: "take (length pre) k = (pre :: bytes) \<Longrightarrow> pre \<le> k"
  by (metis append_order(2) append_take_drop_id)

lemma first_with_prefix:
  assumes "es_sorted es" and p: "p = length (takeWhile (\<lambda>e. fst e < pre) es)"
  shows "(\<exists>e \<in> set es. take (length pre) (fst e) = pre) \<longleftrightarrow> p < length es \<and> take (length pre) (fst (es ! p)) = pre"
proof
  assume "\<exists>e \<in> set es. take (length pre) (fst e) = pre"
  then obtain j where j: "j < length es" "take (length pre) (fst (es ! j)) = pre"
    by (auto simp: in_set_conv_nth)
  have "p \<le> j"
  proof (rule ccontr)
    assume "\<not> p \<le> j"
    then have "fst (es ! j) < pre"
      using p nth_mem [of j "takeWhile (\<lambda>e. fst e < pre) es"] takeWhile_nth [of j "\<lambda>e. fst e < pre" es]
      by (auto dest: set_takeWhileD)
    then show False
      using prefix_le [OF j(2)] by simp
  qed
  then have lt: "p < length es"
    using j(1) by simp
  then have "pre \<le> fst (es ! p)"
    using p nth_length_takeWhile [of "\<lambda>e. fst e < pre" es] by simp
  moreover have "fst (es ! p) \<le> fst (es ! j)"
    using \<open>p \<le> j\<close> assms(1) j(1) sorted_wrt_nth_less [of "(<)" "map fst es" p j]
    by (cases "p = j") (auto simp: es_sorted_def)
  moreover have "fst (es ! j) = pre @ drop (length pre) (fst (es ! j))"
    using j(2) by (metis append_take_drop_id)
  ultimately show "p < length es \<and> take (length pre) (fst (es ! p)) = pre"
    using lt between_prefix [of pre "fst (es ! p)" "drop (length pre) (fst (es ! j))"] by simp
qed auto

lemma probe_prefix_exact:
  assumes "lib_stores lib s" "lib_owns lib g D" "lib_reliable lib g good" "lib_iterates lib s" "at_view g good s h db w l"
  shows "\<exists>res l'. probe_prefix lib h c pre l = (Inr res, l') \<and> at_view g good s h db w l' \<and>
    (res = None \<longleftrightarrow> (\<forall>k. take (length pre) k = pre \<longrightarrow> w (c, k) = None))"
proof -
  have r: "good l" "h \<in> g_live g l" "consistent s h l"
    using assms(5) by (simp_all add: at_view_def running_def)
  obtain it l1 where i: "iter_new lib h c l = (TDB_SUCCESS, Some it, l1)" "good l1"
    using lib_reliable_rules(14) [OF assms(3) r(1,2)] by blast
  obtain es where es: "es_sorted es" "map_of es = (\<lambda>k. fst (s_txn s l h) (c, k))" "sem_iter_set s it (Some (es, -1)) l l1"
    using lib_iterates_rules(1) [OF assms(4) i(1)] by (auto simp: sem_opened_def)
  define p where "p = length (takeWhile (\<lambda>e. fst e < pre) es)"
  define l2 where "l2 = iter_seek lib it pre l1"
  have l2: "sem_iter_set s it (Some (es, int p)) l1 l2"
    using seek_position [OF assms(4), of l1 it es "-1" pre] es(3) by (simp add: l2_def p_def sem_iter_set_def)
  then have at: "s_iter s l2 it = Some (es, int p)"
    by (simp add: sem_iter_set_def)
  have live: "g_live g (iter_free lib it l2) = g_live g l2" "g_live g l2 = g_live g l1"
    using lib_owns_iter(3) [OF assms(2), of it l2] lib_owns_iter(5) [OF assms(2), of it l1 pre]
    by (simp_all add: l2_def own_iter_free_def own_iter_def same_handles_def)
  moreover have "g_live g l1 = g_live g l"
    using lib_owns_iter(1) [OF assms(2) i(1)] by (simp add: own_iter_new_def)
  moreover have "good (iter_free lib it l2)"
    unfolding l2_def by (intro lib_reliable_rules(4,5) [OF assms(3)] i(2))
  ultimately have v: "at_view g good s h db w (iter_free lib it l2)"
    using es(3) l2 lib_iterates_rules(2) [OF assms(4), of it l2] r assms(5)
    by (auto simp: at_view_def running_def consistent_def sem_iter_set_def)
  define res where "res = (if p < length es \<and> take (length pre) (fst (es ! p)) = pre then Some (drop (length pre) (fst (es ! p))) else None)"
  have "probe_prefix lib h c pre l = (Inr res, iter_free lib it l2)"
    using lib_iterates_rules(5,6) [OF assms(4) at] by (auto simp: probe_prefix_def i(1) l2_def [symmetric] res_def it_valid_def Let_def)
  moreover have e: "w (c, k) = None \<longleftrightarrow> k \<notin> fst ` set es" for k
    using arg_cong [OF es(2), of "\<lambda>m. m k"] assms(5) map_of_eq_None_iff [of es k] by (simp add: at_view_def)
  have "(\<forall>k. take (length pre) k = pre \<longrightarrow> w (c, k) = None) \<longleftrightarrow> \<not> (\<exists>e \<in> set es. take (length pre) (fst e) = pre)"
    unfolding e by blast
  ultimately show ?thesis
    using v first_with_prefix [OF es(1) p_def] by (auto simp: res_def)
qed

section \<open>The state of a statement\<close>

text \<open>Everything but the library's state and the two fields an error fills in.\<close>

definition core :: "('x, 'l) dml \<Rightarrow> ha_tidesdb \<times> conn \<times> bytes \<times> row_schema \<times> u64 \<times> dml_session \<times> 'x \<times> bool list" where
  "core st = (d_ha st, d_conn st, d_current_pk st, d_schema st, d_next_row_id st, d_vars st, d_peers st,
     [d_in_bulk_insert st, d_in_bulk_update st, d_in_bulk_delete st, d_bulk_delete_defer st])"

lemma d_lib_set [simp]: "d_lib (set_d_lib l st) = l"
  by (simp add: d_lib_def set_d_lib_def set_lib_def)

lemma core_set_lib [simp]: "core (set_d_lib l st) = core st"
  by (simp add: core_def set_d_lib_def)

lemma core_errors [simp]: "core (note_dup_key i st) = core st" "core (copy_dup_ref p st) = core st"
    "d_lib (note_dup_key i st) = d_lib st" "d_lib (copy_dup_ref p st) = d_lib st"
  by (simp_all add: core_def note_dup_key_def copy_dup_ref_def d_lib_def)

lemma core_eqD:
  "core st' = core st \<Longrightarrow> d_ha st' = d_ha st \<and> d_conn st' = d_conn st \<and> d_current_pk st' = d_current_pk st \<and> d_schema st' = d_schema st \<and>
     d_next_row_id st' = d_next_row_id st \<and> d_vars st' = d_vars st \<and> d_peers st' = d_peers st"
  by (simp add: core_def)

text \<open>A statement that is not a bulk one, with its transaction open.\<close>

definition in_stmt :: "txn \<Rightarrow> ('x, 'l) dml \<Rightarrow> bool" where
  "in_stmt h st \<longleftrightarrow>
     stmt_txn (d_ha st) = Some h \<and> cached_trx (d_ha st) \<and> map_option trx_txn (c_trx (d_conn st)) = Some (Some h) \<and>
     \<not> d_in_bulk_insert st \<and> \<not> d_in_bulk_update st \<and> \<not> d_in_bulk_delete st \<and> \<not> d_bulk_delete_defer st"

lemma in_stmt_core: "core st' = core st \<Longrightarrow> in_stmt h st' = in_stmt h st"
  by (simp add: core_def in_stmt_def)

section \<open>Uniqueness\<close>

lemma check_pk_exact:
  assumes "lib_stores lib s" "lib_owns lib g D" "lib_reliable lib g good" "at_view g good s h db w (d_lib st)" "in_stmt h st"
  shows "\<exists>st'. check_pk lib env pk st = (if w (ix_cf (de_ix env), data_key pk) \<noteq> None then HA_ERR_FOUND_DUPP_KEY else HA_OK, st') \<and>
    core st' = core st \<and> at_view g good s h db w (d_lib st')"
proof -
  let ?c = "ix_cf (de_ix env)"
  have r: "good (d_lib st)" "h \<in> g_live g (d_lib st)" "consistent s h (d_lib st)" "fst (s_txn s (d_lib st) h) = w"
    using assms(4) by (simp_all add: at_view_def running_def)
  obtain rc l1 where q: "txn_contains lib h ?c (data_key pk) (d_lib st) = (rc, l1)" "rc \<in> {TDB_SUCCESS, TDB_ERR_NOT_FOUND}" "good l1"
    using lib_reliable_rules(16) [OF assms(3) r(1,2)] by blast
  have "sem_same s (d_lib st) l1"
    by (rule lib_stores_txn(18) [OF assms(1) q(1)])
  moreover have "own_txn g h (d_lib st) l1"
    by (rule lib_owns_txn(16) [OF assms(2) q(1)])
  ultimately have v: "at_view g good s h db w l1"
    using r q(3) assms(4) by (auto simp: at_view_def running_def own_txn_def same_handles_def sem_same_def consistent_def)
  have a: "rc = TDB_SUCCESS \<longleftrightarrow> w (?c, data_key pk) \<noteq> None"
    using q(1,2) lib_stores_txn(19,20) [OF assms(1), of h ?c "data_key pk" "d_lib st" l1] r(4) by auto
  have "Option.bind (d_trx st) trx_txn = Some h"
    using assms(5) by (auto simp: in_stmt_def d_trx_def)
  then have "probe_pk_exists lib env (data_key pk) st = (Inr (w (?c, data_key pk) \<noteq> None), set_d_lib l1 st)"
    using q(1,2) a by (auto simp: probe_pk_exists_def)
  then show ?thesis
    using v by (cases "w (?c, data_key pk)") (simp_all add: check_pk_def)
qed

definition has_prefix :: "store \<Rightarrow> cf \<Rightarrow> bytes \<Rightarrow> bool" where
  "has_prefix w c pre \<longleftrightarrow> (\<exists>k. take (length pre) k = pre \<and> w (c, k) \<noteq> None)"

definition taken :: "index_env \<Rightarrow> (nat \<Rightarrow> bytes option) \<Rightarrow> store \<Rightarrow> nat \<Rightarrow> bool" where
  "taken ix P w i \<longleftrightarrow>
     (case (index_cf ix i, P i) of (Some c, Some pre) \<Rightarrow> has_prefix w c pre | _ \<Rightarrow> False)"

lemma check_unique_exact:
  assumes "lib_stores lib s" "lib_owns lib g D" "lib_reliable lib g good" "lib_iterates lib s" "at_view g good s h db w (d_lib st)"
  shows "\<exists>st'. check_unique_each lib env h P is st =
      (if \<exists>i \<in> set is. taken (de_ix env) P w i then HA_ERR_FOUND_DUPP_KEY else HA_OK, st') \<and>
    core st' = core st \<and> at_view g good s h db w (d_lib st')"
  using assms(5)
proof (induction "is" arbitrary: st)
  case (Cons i js)
  show ?case
  proof (cases "index_cf (de_ix env) i = None \<or> P i = None")
    case True
    then have "check_unique_each lib env h P (i # js) st = check_unique_each lib env h P js st"
      by (auto split: option.splits)
    moreover have "\<not> taken (de_ix env) P w i"
      using True by (auto simp: taken_def split: option.splits)
    ultimately show ?thesis
      using Cons.IH [OF Cons.prems] by simp
  next
    case False
    then obtain c pre where c: "index_cf (de_ix env) i = Some c" "P i = Some pre"
      by auto
    obtain res l1 where l1: "probe_prefix lib h c pre (d_lib st) = (Inr res, l1)" "at_view g good s h db w l1"
      and p: "res = None \<longleftrightarrow> (\<forall>k. take (length pre) k = pre \<longrightarrow> w (c, k) = None)"
      using probe_prefix_exact [OF assms(1-4) Cons.prems, of c pre] by (elim exE conjE)
    have p: "res = None \<longleftrightarrow> \<not> has_prefix w c pre"
      unfolding p has_prefix_def by auto
    have t: "taken (de_ix env) P w i \<longleftrightarrow> has_prefix w c pre"
      by (simp add: taken_def c)
    show ?thesis
    proof (cases res)
      case None
      then have "check_unique_each lib env h P (i # js) st = check_unique_each lib env h P js (set_d_lib l1 st)"
        using l1(1) c by simp
      then show ?thesis
        using Cons.IH [of "set_d_lib l1 st"] l1(2) p None t by simp
    next
      case (Some rest)
      then show ?thesis
        using l1 p c t by simp
    qed
  qed
qed simp

section \<open>The table a transaction sees\<close>

definition row_bytes :: "('x, 'l) dml_env \<Rightarrow> row_schema \<Rightarrow> image \<Rightarrow> bytes \<Rightarrow> bool" where
  "row_bytes env s img v \<longleftrightarrow>
     (\<exists>iv cached ver. v = fst (serialize_row (de_ops env) (de_crypto env) iv cached (s\<lparr>rs_key_version := ver\<rparr>) img))"

definition table_in :: "('x, 'l) dml_env \<Rightarrow> row_schema \<Rightarrow> nat \<Rightarrow> (bytes \<rightharpoonup> image) \<Rightarrow> store \<Rightarrow> bool" where
  "table_in env s n rows w \<longleftrightarrow>
     (\<forall>pk img. rows pk = Some img \<longrightarrow>
        length pk = n \<and> pk_of (de_ix env) pk (row_of s img) = pk \<and>
        (\<forall>i < length (ix_keys (de_ix env)). short_words (de_ix env) i (row_of s img)) \<and>
        (\<exists>v. w (ix_cf (de_ix env), data_key pk) = Some v \<and> row_bytes env s img v)) \<and>
     (\<forall>pk. rows pk = None \<longrightarrow> w (ix_cf (de_ix env), data_key pk) = None) \<and>
     mirrors (de_ix env) (\<lambda>pk. map_option (row_of s) (rows pk)) w"

definition dml_wf :: "index_env \<Rightarrow> nat \<Rightarrow> bool" where
  "dml_wf ix n \<longleftrightarrow>
     wf_indexes ix \<and> widths (ix_ss ix) \<and> (\<forall>i < length (ix_keys ix). key_nosame (ix_keys ix ! i) \<longrightarrow> plain (key_parts (ix_keys ix ! i))) \<and>
     n = (case ix_pk_key ix of Some ki \<Rightarrow> sum_list (map part_len (key_parts ki)) | None \<Rightarrow> HIDDEN_PK_SIZE)"

lemma data_key_inj [simp]: "data_key p = data_key q \<longleftrightarrow> p = q"
  by (simp add: build_data_key_def)

lemma row_of_version [simp]: "row_of (s\<lparr>rs_key_version := v\<rparr>) = row_of s"
  by (rule ext)+ (simp add: row_of_def)

lemma row_bytes_version [simp]: "row_bytes env (s\<lparr>rs_key_version := v\<rparr>) img b = row_bytes env s img b"
  by (simp add: row_bytes_def)

lemma table_in_version [simp]: "table_in env (s\<lparr>rs_key_version := v\<rparr>) n rows w = table_in env s n rows w"
  by (simp add: table_in_def)

lemma pk_length: "dml_wf ix n \<Longrightarrow> ix_has_user_pk ix \<Longrightarrow> length (pk_of ix cur r) = n"
  by (auto simp: dml_wf_def wf_indexes_def pk_of_def pk_from_record_def ix_pk_key_def make_comparable_key_plain length_concat comp_def)

text \<open>A primary key does not depend on the row the handler is positioned on, unless it is hidden.\<close>

lemma pk_of_cur: "ix_has_user_pk ix \<Longrightarrow> pk_of ix cur r = pk_of ix cur' r" "\<not> ix_has_user_pk ix \<Longrightarrow> pk_of ix cur r = cur"
  by (simp_all add: pk_of_def pk_from_record_def ix_pk_key_def)

definition key_bytes :: "index_env \<Rightarrow> nat \<Rightarrow> row \<Rightarrow> bytes" where
  "key_bytes ix i r = make_comparable_key (ix_ss ix) (ix_stale ix) (ix_keys ix ! i) r (length (key_parts (ix_keys ix ! i))) None"

definition key_used :: "index_env \<Rightarrow> row_schema \<Rightarrow> (bytes \<rightharpoonup> image) \<Rightarrow> nat \<Rightarrow> row \<Rightarrow> bool" where
  "key_used ix s rows i r \<longleftrightarrow> (\<exists>pk img. rows pk = Some img \<and> key_bytes ix i (row_of s img) = key_bytes ix i r)"

lemma unique_prefix_key: "unique_prefix ix r i = Some pre \<Longrightarrow> pre = key_bytes ix i r \<and> key_nosame (ix_keys ix ! i) \<and> \<not> ix_is_fts ix ! i \<and> \<not> ix_is_spatial ix ! i"
  by (auto simp: unique_prefix_def key_bytes_def Let_def split: if_splits)

lemma taken_iff_used:
  assumes wf: "dml_wf (de_ix env) n" and tab: "table_in env s n rows w" and i: "i < length (ix_keys (de_ix env))" "index_cf (de_ix env) i = Some c"
    and pre: "unique_prefix (de_ix env) r i = Some pre"
  shows "has_prefix w c pre \<longleftrightarrow> key_used (de_ix env) s rows i r"
proof -
  note u = unique_prefix_key [OF pre]
  have pl: "plain (key_parts (ix_keys (de_ix env) ! i))" and ws: "widths (ix_ss (de_ix env))"
    using wf i(1) u by (auto simp: dml_wf_def)
  have len: "length (key_bytes (de_ix env) i r') = length pre" for r'
    using pl ws by (simp add: u key_bytes_def make_comparable_key_plain length_concat comp_def)
  have e: "idx_entries (de_ix env) i pk r' = [(key_bytes (de_ix env) i r' @ pk, tdb_empty_val)]" for pk r'
    using u by (simp add: idx_entries_def key_bytes_def Let_def)
  have "mirror (idx_entries (de_ix env) i) (\<lambda>pk. map_option (row_of s) (rows pk)) w c"
    using tab i by (simp add: table_in_def mirrors_def)
  then have "w (c, k) = Some v \<longleftrightarrow> (\<exists>pk img. rows pk = Some img \<and> k = key_bytes (de_ix env) i (row_of s img) @ pk \<and> v = tdb_empty_val)" for k v
    unfolding mirror_def by (auto simp: e)
  then have m: "w (c, k) \<noteq> None \<longleftrightarrow> (\<exists>pk img. rows pk = Some img \<and> k = key_bytes (de_ix env) i (row_of s img) @ pk)" for k
    by auto
  have "take (length pre) (key_bytes (de_ix env) i r' @ pk) = key_bytes (de_ix env) i r'" for r' pk
    by (simp flip: len [of r'])
  then show ?thesis
    unfolding has_prefix_def m key_used_def u [THEN conjunct1, symmetric] by metis
qed

section \<open>Storing a row\<close>

lemma row_ttl_steady:
  "\<exists>due st'. row_ttl env r st = (due, st') \<and> d_lib st' = d_lib st \<and> in_stmt h st' = in_stmt h st \<and> d_schema st' = d_schema st \<and>
     d_next_row_id st' = d_next_row_id st \<and> d_current_pk st' = d_current_pk st \<and> d_vars st' = d_vars st \<and> d_peers st' = d_peers st \<and>
     stmt_txn (d_ha st') = stmt_txn (d_ha st)"
  by (simp add: row_ttl_def compute_row_ttl_def Let_def in_stmt_def d_lib_def)

lemma mirrors_other:
  assumes "mirrors ix rows w" "wf_indexes ix" "\<And>c k. c \<noteq> ix_cf ix \<Longrightarrow> w' (c, k) = w (c, k)"
  shows "mirrors ix rows w'"
  unfolding mirrors_def
proof (intro allI impI)
  fix i c
  assume i: "i < length (ix_keys ix)" "index_cf ix i = Some c"
  then have "c \<noteq> ix_cf ix"
    using assms(2) by (auto simp: wf_indexes_def)
  then show "mirror (idx_entries ix i) rows w' c"
    using mirror_other assms(1,3) i by (metis mirrors_def)
qed

lemma no_index_cf: "wf_indexes ix \<Longrightarrow> \<forall>i < length (ix_keys ix). index_cf ix i \<noteq> Some (ix_cf ix)"
  by (auto simp: wf_indexes_def)

lemma in_stmt_trx: "in_stmt h st \<Longrightarrow> map_option trx_txn (d_trx st) = Some (Some h)"
  by (simp add: in_stmt_def d_trx_def)

lemma set_trx_simps [simp]:
  "d_lib (set_d_trx t st) = d_lib st" "d_schema (set_d_trx t st) = d_schema st" "d_current_pk (set_d_trx t st) = d_current_pk st"
  "d_next_row_id (set_d_trx t st) = d_next_row_id st" "d_ha (set_d_trx t st) = d_ha st" "d_vars (set_d_trx t st) = d_vars st"
  "d_in_bulk_insert (set_d_trx t st) = d_in_bulk_insert st" "d_in_bulk_update (set_d_trx t st) = d_in_bulk_update st"
  "d_in_bulk_delete (set_d_trx t st) = d_in_bulk_delete st" "d_bulk_delete_defer (set_d_trx t st) = d_bulk_delete_defer st"
  by (simp_all add: set_d_trx_def d_lib_def)

lemma set_lib_simps [simp]:
  "d_schema (set_d_lib l st) = d_schema st" "d_current_pk (set_d_lib l st) = d_current_pk st"
  "d_next_row_id (set_d_lib l st) = d_next_row_id st" "d_ha (set_d_lib l st) = d_ha st" "d_vars (set_d_lib l st) = d_vars st"
  "d_conn (set_d_lib l st) = d_conn st" "d_peers (set_d_lib l st) = d_peers st" "d_trx (set_d_lib l st) = d_trx st"
  "d_in_bulk_insert (set_d_lib l st) = d_in_bulk_insert st" "d_in_bulk_update (set_d_lib l st) = d_in_bulk_update st"
  "d_in_bulk_delete (set_d_lib l st) = d_in_bulk_delete st" "d_bulk_delete_defer (set_d_lib l st) = d_bulk_delete_defer st"
  "in_stmt h (set_d_lib l st) = in_stmt h st"
  by (simp_all add: set_d_lib_def in_stmt_def d_trx_def)

lemma in_stmt_set_trx: "in_stmt h st \<Longrightarrow> map_option trx_txn t = Some (Some h) \<Longrightarrow> in_stmt h (set_d_trx t st)"
  by (simp add: in_stmt_def set_d_trx_def)

lemma in_stmt_set_pk [simp]: "in_stmt h (st\<lparr>d_current_pk := p\<rparr>) = in_stmt h st" "d_trx (st\<lparr>d_current_pk := p\<rparr>) = d_trx st"
    "d_lib (st\<lparr>d_current_pk := p\<rparr>) = d_lib st"
  by (simp_all add: in_stmt_def d_trx_def d_lib_def)

lemma table_in_put:
  assumes "table_in env s n rows w" "length pk = n" "pk_of (de_ix env) pk (row_of s img) = pk"
    "\<forall>i < length (ix_keys (de_ix env)). short_words (de_ix env) i (row_of s img)" "row_bytes env s img v"
    "\<And>p. w' (ix_cf (de_ix env), data_key p) = (if p = pk then Some v else if p = old then None else w (ix_cf (de_ix env), data_key p))"
    "mirrors (de_ix env) ((\<lambda>p. map_option (row_of s) (rows p))(old := None, pk \<mapsto> row_of s img)) w'"
  shows "table_in env s n (rows(old := None, pk \<mapsto> img)) w'"
proof -
  have "(\<lambda>p. map_option (row_of s) ((rows(old := None, pk \<mapsto> img)) p)) = (\<lambda>p. map_option (row_of s) (rows p))(old := None, pk \<mapsto> row_of s img)"
    by (rule ext) simp
  then show ?thesis
    using assms by (simp add: table_in_def)
qed

lemma table_in_del:
  assumes "table_in env s n rows w"
    "\<And>p. w' (ix_cf (de_ix env), data_key p) = (if p = old then None else w (ix_cf (de_ix env), data_key p))"
    "mirrors (de_ix env) ((\<lambda>p. map_option (row_of s) (rows p))(old := None)) w'"
  shows "table_in env s n (rows(old := None)) w'"
proof -
  have "(\<lambda>p. map_option (row_of s) ((rows(old := None)) p)) = (\<lambda>p. map_option (row_of s) (rows p))(old := None)"
    by (rule ext) simp
  then show ?thesis
    using assms by (simp add: table_in_def)
qed

lemma table_inD:
  "table_in env s n rows w \<Longrightarrow> mirrors (de_ix env) (\<lambda>p. map_option (row_of s) (rows p)) w"
  "table_in env s n rows w \<Longrightarrow> rows pk = Some img \<Longrightarrow> length pk = n"
  "table_in env s n rows w \<Longrightarrow> rows pk = Some img \<Longrightarrow> pk_of (de_ix env) pk (row_of s img) = pk"
  "table_in env s n rows w \<Longrightarrow> rows pk = Some img \<Longrightarrow> \<forall>i < length (ix_keys (de_ix env)). short_words (de_ix env) i (row_of s img)"
  "table_in env s n rows w \<Longrightarrow> w (ix_cf (de_ix env), data_key pk) = None \<longleftrightarrow> rows pk = None"
  unfolding table_in_def by (blast, blast, blast, blast, metis option.exhaust option.distinct(1))

lemma upd_data: "upd c k v w (c, data_key p) = (if data_key p = k then v else w (c, data_key p))"
  by (simp add: upd_def)

text \<open>Nothing changes outside the families of the table.\<close>

definition elsewhere :: "index_env \<Rightarrow> store \<Rightarrow> store \<Rightarrow> bool" where
  "elsewhere ix w w' \<longleftrightarrow>
     (\<forall>c k. c \<noteq> ix_cf ix \<and> (\<forall>i < length (ix_keys ix). index_cf ix i \<noteq> Some c) \<longrightarrow> w' (c, k) = w (c, k))"

lemma elsewhere_refl [simp]: "elsewhere ix w w"
  by (simp add: elsewhere_def)

lemma write_store_exact:
  assumes lib: "lib_stores lib s" "lib_owns lib g D" "lib_reliable lib g good" and wf: "wf_indexes (de_ix env)"
    and st: "in_stmt h st" and v: "at_view g good s h db w (d_lib st)" and tab: "table_in env sc n rows w"
    and new: "rows pk = None" "length pk = n" "pk_of (de_ix env) pk (row_of sc img) = pk"
      "\<forall>i < length (ix_keys (de_ix env)). short_words (de_ix env) i (row_of sc img)" "row_bytes env sc img data"
  shows "\<exists>st' w'. write_store lib env h pk (row_of sc img) data st = (HA_OK, st') \<and> in_stmt h st' \<and> at_view g good s h db w' (d_lib st') \<and>
    table_in env sc n (rows(pk \<mapsto> img)) w' \<and> elsewhere (de_ix env) w w' \<and> d_current_pk st' = pk \<and> d_schema st' = d_schema st"
proof -
  let ?r = "row_of sc img" and ?c = "ix_cf (de_ix env)" and ?rows = "\<lambda>p. map_option (row_of sc) (rows p)"
  obtain due st1 where t: "row_ttl env ?r st = (due, st1)" "d_lib st1 = d_lib st" "in_stmt h st1" "d_schema st1 = d_schema st"
    using row_ttl_steady [of env ?r st h] st by auto
  obtain l1 where p: "txn_put lib h ?c (data_key pk) data due (d_lib st1) = (TDB_SUCCESS, l1)"
    "at_view g good s h db (upd ?c (data_key pk) (Some data) w) l1"
    using put_at_view [OF lib, of h db w "d_lib st1"] v t(2) by metis
  let ?w = "upd ?c (data_key pk) (Some data) w" and ?st = "(set_d_lib l1 st1)\<lparr>d_current_pk := pk\<rparr>"
  have m: "mirrors (de_ix env) ?rows ?w"
    by (rule mirrors_other [OF table_inD(1) [OF tab] wf]) (simp add: upd_def)
  have rep: "replaceable (de_ix env) ?rows n None (Some (pk, ?r))"
    using new table_inD(2) [OF tab] by (auto simp: replaceable_def)
  have "sees g good s h db (Some (Some h)) (d_trx ?st, l1) ?w"
    using p(2) in_stmt_trx [OF t(3)] by (simp add: sees_def)
  then obtain trx l2 w2 where x: "write_maintain_indexes lib (de_ix env) h pk pk ?r due (d_trx ?st, l1) = (TDB_SUCCESS, trx, l2)"
    "sees g good s h db (Some (Some h)) (trx, l2) w2" "mirrors (de_ix env) (?rows(pk \<mapsto> ?r)) w2"
    "\<forall>c k. (\<forall>i < length (ix_keys (de_ix env)). index_cf (de_ix env) i \<noteq> Some c) \<longrightarrow> w2 (c, k) = ?w (c, k)"
    using write_indexes_mirror [OF lib wf rep new(3) _ m] by (metis surj_pair)
  have w2: "w2 (?c, k) = ?w (?c, k)" for k
    using x(4) no_index_cf [OF wf] by blast
  let ?st' = "set_d_trx trx (set_d_lib l2 ?st)"
  have st': "in_stmt h ?st'"
    using x(2) t(3) by (intro in_stmt_set_trx) (simp_all add: sees_def)
  have "write_store lib env h pk ?r data st = (HA_OK, ?st')"
    using st' x(1) by (simp add: write_store_def t(1) p(1) in_stmt_def)
  moreover have "table_in env sc n (rows(pk \<mapsto> img)) w2"
    using table_in_put [OF tab new(2-5), of w2 pk] x(3) by (simp add: w2 upd_data)
  moreover have "elsewhere (de_ix env) w w2"
    using x(4) unfolding elsewhere_def by (simp add: upd_def)
  ultimately show ?thesis
    using st' x(2) t(4) by (intro exI [of _ ?st'] exI [of _ w2]) (simp add: sees_def)
qed

lemma delete_indexes_exact:
  assumes lib: "lib_stores lib s" "lib_owns lib g D" "lib_reliable lib g good" and wf: "wf_indexes (de_ix env)"
    and st: "in_stmt h st" and v: "at_view g good s h db w (d_lib st)" and tab: "table_in env sc n rows w"
    and old: "rows (d_current_pk st) = Some img"
  shows "\<exists>st1 st' w'. delete_primary lib env h (data_key (d_current_pk st)) st = (HA_OK, st1) \<and> delete_indexes lib env h (row_of sc img) st1 = (HA_OK, st') \<and>
    in_stmt h st' \<and> at_view g good s h db w' (d_lib st') \<and> table_in env sc n (rows(d_current_pk st := None)) w' \<and> elsewhere (de_ix env) w w' \<and>
    d_current_pk st' = d_current_pk st \<and> d_schema st' = d_schema st"
proof -
  let ?r = "row_of sc img" and ?c = "ix_cf (de_ix env)" and ?rows = "\<lambda>p. map_option (row_of sc) (rows p)" and ?p = "d_current_pk st"
  obtain l1 where p: "tidesdb_txn_delete_cf lib h ?c (data_key ?p) (dv_single_delete_primary (d_vars st)) (d_lib st) = (TDB_SUCCESS, l1)"
    "at_view g good s h db (upd ?c (data_key ?p) None w) l1"
    using delete_at_view [OF lib v] by blast
  let ?w = "upd ?c (data_key ?p) None w" and ?st = "set_d_lib l1 st"
  have m: "mirrors (de_ix env) ?rows ?w"
    by (rule mirrors_other [OF table_inD(1) [OF tab] wf]) (simp add: upd_def)
  have rep: "replaceable (de_ix env) ?rows n (Some (?p, ?r)) None"
    using old table_inD(2) [OF tab] by (auto simp: replaceable_def)
  have "sees g good s h db (Some (Some h)) (d_trx ?st, l1) ?w"
    using p(2) in_stmt_trx [OF st] by (simp add: sees_def)
  then obtain trx l2 w2 where x: "delete_maintain_indexes lib (de_ix env) h ?p ?r (d_trx ?st, l1) = (TDB_SUCCESS, trx, l2)"
    "sees g good s h db (Some (Some h)) (trx, l2) w2" "mirrors (de_ix env) (?rows(?p := None)) w2"
    "\<forall>c k. (\<forall>i < length (ix_keys (de_ix env)). index_cf (de_ix env) i \<noteq> Some c) \<longrightarrow> w2 (c, k) = ?w (c, k)"
    using delete_indexes_mirror [OF lib wf rep table_inD(3) [OF tab old] _ m] by (metis surj_pair)
  have w2: "w2 (?c, k) = ?w (?c, k)" for k
    using x(4) no_index_cf [OF wf] by blast
  let ?st' = "set_d_trx trx (set_d_lib l2 ?st)"
  have st': "in_stmt h ?st'"
    using x(2) st by (intro in_stmt_set_trx) (simp_all add: sees_def)
  have "delete_primary lib env h (data_key ?p) st = (HA_OK, ?st)"
    using st p(1) by (simp add: delete_primary_def in_stmt_def)
  moreover have "delete_indexes lib env h ?r ?st = (HA_OK, ?st')"
    using st' x(1) by (simp add: delete_indexes_def in_stmt_def)
  moreover have "table_in env sc n (rows(?p := None)) w2"
    using table_in_del [OF tab, of w2 ?p] x(3) by (simp add: w2 upd_data)
  moreover have "elsewhere (de_ix env) w w2"
    using x(4) unfolding elsewhere_def by (simp add: upd_def)
  ultimately show ?thesis
    using st' x(2) by (intro exI [of _ ?st] exI [of _ ?st'] exI [of _ w2]) (simp add: sees_def)
qed

lemma rewrite_primary_exact:
  assumes lib: "lib_stores lib s" "lib_owns lib g D" "lib_reliable lib g good" and v: "at_view g good s h db w (d_lib st)"
  shows "\<exists>l' w'. update_rewrite_primary lib env h old_pk new_pk data due (old_pk \<noteq> new_pk) st = (TDB_SUCCESS, l') \<and> at_view g good s h db w' l' \<and>
    (\<forall>p. w' (ix_cf (de_ix env), data_key p) =
       (if p = new_pk then Some data else if p = old_pk then None else w (ix_cf (de_ix env), data_key p))) \<and>
    (\<forall>c k. c \<noteq> ix_cf (de_ix env) \<longrightarrow> w' (c, k) = w (c, k))"
proof -
  let ?c = "ix_cf (de_ix env)"
  define w1 where "w1 = (if old_pk \<noteq> new_pk then upd ?c (data_key old_pk) None w else w)"
  obtain l1 where l1: "(if old_pk \<noteq> new_pk then tidesdb_txn_delete_cf lib h ?c (data_key old_pk) (dv_single_delete_primary (d_vars st)) (d_lib st)
      else (TDB_SUCCESS, d_lib st)) = (TDB_SUCCESS, l1)" "at_view g good s h db w1 l1"
    using delete_at_view [OF lib v, of ?c "data_key old_pk" "dv_single_delete_primary (d_vars st)"] v
    unfolding w1_def by (cases "old_pk = new_pk") auto
  obtain l2 where l2: "txn_put lib h ?c (data_key new_pk) data due l1 = (TDB_SUCCESS, l2)" "at_view g good s h db (upd ?c (data_key new_pk) (Some data) w1) l2"
    using put_at_view [OF lib l1(2)] by blast
  have "update_rewrite_primary lib env h old_pk new_pk data due (old_pk \<noteq> new_pk) st = (TDB_SUCCESS, l2)"
    unfolding update_rewrite_primary_def Let_def l1(1) using l2(1) by simp
  then show ?thesis
    using l2(2) by (intro exI [of _ l2] exI [of _ "upd ?c (data_key new_pk) (Some data) w1"]) (simp add: upd_data w1_def upd_def)
qed

lemma update_store_exact:
  assumes lib: "lib_stores lib s" "lib_owns lib g D" "lib_reliable lib g good" and wf: "wf_indexes (de_ix env)"
    and st: "in_stmt h st" and v: "at_view g good s h db w (d_lib st)" and tab: "table_in env sc n rows w"
    and old: "rows old_pk = Some old_img" and free: "new_pk = old_pk \<or> rows new_pk = None"
    and new: "length new_pk = n" "pk_of (de_ix env) new_pk (row_of sc img) = new_pk"
      "\<forall>i < length (ix_keys (de_ix env)). short_words (de_ix env) i (row_of sc img)" "row_bytes env sc img data"
    and agree: "\<forall>f. \<not> ix_write_set (de_ix env) f \<longrightarrow> row_of sc old_img f = row_of sc img f"
    and moved: "old_pk = new_pk \<or> (\<forall>i < length (ix_keys (de_ix env)). index_cf (de_ix env) i \<noteq> None \<longrightarrow> followed (de_ix env) i)"
  shows "\<exists>st' w'. update_store lib env h old_pk new_pk (row_of sc old_img) (row_of sc img) data due st = (HA_OK, st') \<and>
    in_stmt h st' \<and> at_view g good s h db w' (d_lib st') \<and>
    table_in env sc n (rows(old_pk := None, new_pk \<mapsto> img)) w' \<and> elsewhere (de_ix env) w w' \<and> d_current_pk st' = new_pk \<and>
    d_schema st' = d_schema st"
proof -
  let ?o = "row_of sc old_img" and ?r = "row_of sc img" and ?c = "ix_cf (de_ix env)" and ?rows = "\<lambda>p. map_option (row_of sc) (rows p)"
  obtain l1 w1 where p: "update_rewrite_primary lib env h old_pk new_pk data due (old_pk \<noteq> new_pk) st = (TDB_SUCCESS, l1)"
    "at_view g good s h db w1 l1"
    "\<And>p. w1 (?c, data_key p) = (if p = new_pk then Some data else if p = old_pk then None else w (?c, data_key p))"
    "\<And>c k. c \<noteq> ?c \<Longrightarrow> w1 (c, k) = w (c, k)"
    using rewrite_primary_exact [OF lib v, of env old_pk new_pk data due] by (elim exE conjE) simp
  let ?st = "set_d_lib l1 st"
  have m: "mirrors (de_ix env) ?rows w1"
    by (rule mirrors_other [OF table_inD(1) [OF tab] wf]) (rule p(4))
  have rep: "replaceable (de_ix env) ?rows n (Some (old_pk, ?o)) (Some (new_pk, ?r))"
    using new old free table_inD(2) [OF tab] by (auto simp: replaceable_def)
  have sees: "sees g good s h db (Some (Some h)) (snd (d_current_pk ?st, d_trx ?st, l1)) w1"
    using p(2) in_stmt_trx [OF st] by (simp add: sees_def)
  obtain cur trx l2 w2 where x:
    "update_maintain_indexes lib (de_ix env) h ?o ?r old_pk new_pk due (d_current_pk ?st, d_trx ?st, l1) = (TDB_SUCCESS, cur, trx, l2)"
    "sees g good s h db (Some (Some h)) (trx, l2) w2" "mirrors (de_ix env) (?rows(old_pk := None, new_pk \<mapsto> ?r)) w2"
    "\<forall>c k. (\<forall>i < length (ix_keys (de_ix env)). index_cf (de_ix env) i \<noteq> Some c) \<longrightarrow> w2 (c, k) = w1 (c, k)"
    using update_indexes_mirror [OF lib wf rep new(2) table_inD(4) [OF tab old] agree moved sees m] by (metis surj_pair snd_conv)
  have w2: "w2 (?c, k) = w1 (?c, k)" for k
    using x(4) no_index_cf [OF wf] by blast
  let ?st' = "(set_d_trx trx (set_d_lib l2 ?st))\<lparr>d_current_pk := new_pk\<rparr>"
  have st': "in_stmt h (set_d_trx trx (set_d_lib l2 ?st))"
    using x(2) st by (intro in_stmt_set_trx) (simp_all add: sees_def)
  have "update_store lib env h old_pk new_pk ?o ?r data due st = (HA_OK, ?st')"
    using st' x(1) by (simp add: update_store_def p(1) in_stmt_def Let_def)
  moreover have "table_in env sc n (rows(old_pk := None, new_pk \<mapsto> img)) w2"
    using table_in_put [OF tab new(1-4), of w2 old_pk] x(3) p(3) by (simp add: w2)
  moreover have "elsewhere (de_ix env) w w2"
    using x(4) unfolding elsewhere_def by (simp add: p(4))
  ultimately show ?thesis
    using st' x(2) by (intro exI [of _ ?st'] exI [of _ w2]) (simp add: sees_def)
qed

section \<open>The statements\<close>

text \<open>What a row runs into: a row with the same value in a unique index that constrains it.\<close>

definition clashes :: "index_env \<Rightarrow> row_schema \<Rightarrow> (bytes \<rightharpoonup> image) \<Rightarrow> row \<Rightarrow> bool" where
  "clashes ix s rows r \<longleftrightarrow>
     (\<exists>i < length (ix_keys ix). index_cf ix i \<noteq> None \<and> unique_prefix ix r i \<noteq> None \<and> key_used ix s rows i r)"

text \<open>An update does not clash with the value it keeps.\<close>

definition clashes_new :: "index_env \<Rightarrow> row_schema \<Rightarrow> (bytes \<rightharpoonup> image) \<Rightarrow> row \<Rightarrow> row \<Rightarrow> bool" where
  "clashes_new ix s rows old_r r \<longleftrightarrow>
     (\<exists>i < length (ix_keys ix). index_cf ix i \<noteq> None \<and> unique_prefix ix r i \<noteq> None \<and> key_bytes ix i old_r \<noteq> key_bytes ix i r \<and>
        key_used ix s rows i r)"

lemma no_secondary: "wf_indexes ix \<Longrightarrow> ix_num_secondary ix = 0 \<Longrightarrow> \<not> clashes ix s rows r \<and> \<not> clashes_new ix s rows r' r"
  by (auto simp: wf_indexes_def clashes_def clashes_new_def)

lemma taken_clashes:
  assumes "dml_wf (de_ix env) n" "table_in env s n rows w"
  shows "(\<exists>i \<in> set [0..<length (ix_keys (de_ix env))]. taken (de_ix env) (unique_prefix (de_ix env) r) w i) \<longleftrightarrow> clashes (de_ix env) s rows r"
    and "(\<exists>i \<in> set [0..<length (ix_keys (de_ix env))]. taken (de_ix env) (changed_prefix (de_ix env) old_r r) w i) \<longleftrightarrow>
      clashes_new (de_ix env) s rows old_r r"
proof -
  let ?ix = "de_ix env"
  have a: "taken ?ix (unique_prefix ?ix r) w i \<longleftrightarrow> index_cf ?ix i \<noteq> None \<and> unique_prefix ?ix r i \<noteq> None \<and> key_used ?ix s rows i r"
    if "i < length (ix_keys ?ix)" for i
    using taken_iff_used [OF assms that] by (auto simp: taken_def split: option.splits)
  have b: "taken ?ix (changed_prefix ?ix old_r r) w i \<longleftrightarrow> key_bytes ?ix i old_r \<noteq> key_bytes ?ix i r \<and> taken ?ix (unique_prefix ?ix r) w i" for i
    by (auto simp: taken_def changed_prefix_def key_bytes_def [symmetric] Let_def split: option.splits dest: unique_prefix_key)
  show "(\<exists>i \<in> set [0..<length (ix_keys ?ix)]. taken ?ix (unique_prefix ?ix r) w i) \<longleftrightarrow> clashes ?ix s rows r"
    unfolding clashes_def using a by auto
  show "(\<exists>i \<in> set [0..<length (ix_keys ?ix)]. taken ?ix (changed_prefix ?ix old_r r) w i) \<longleftrightarrow> clashes_new ?ix s rows old_r r"
    unfolding clashes_new_def b using a by auto
qed

text \<open>The session's variables, as the statement caches them.\<close>

definition stmt_vars :: "('x, 'l) dml_env \<Rightarrow> ('x, 'l) dml \<Rightarrow> dml_session" where
  "stmt_vars env st = (if cached_thdvars_valid (d_ha st) then d_vars st else de_session env)"

definition rekeyed :: "row_schema \<Rightarrow> row_schema \<Rightarrow> bool" where
  "rekeyed s s' \<longleftrightarrow> (\<exists>v. s' = s\<lparr>rs_key_version := v\<rparr>)"

lemma rekeyed_refl [simp]: "rekeyed s s"
proof (cases s)
  case (fields a b c d e f)
  then show ?thesis
    unfolding rekeyed_def by (intro exI [of _ "rs_key_version s"]) simp
qed

lemma rekeyed_upd [simp]: "rekeyed s (s\<lparr>rs_key_version := v\<rparr>)"
  by (auto simp: rekeyed_def)

lemma rekeyed_trans: "rekeyed s s' \<Longrightarrow> rekeyed s' s'' \<Longrightarrow> rekeyed s s''"
  by (auto simp: rekeyed_def)

lemma rekeyed_same: "rekeyed s s' \<Longrightarrow> row_of s' = row_of s \<and> table_in env s' = table_in env s \<and> rs_encrypted s' = rs_encrypted s"
  by (auto simp: rekeyed_def fun_eq_iff)

text \<open>A step that touches neither the database nor what a row operation depends on.\<close>

definition calm :: "('x, 'l) dml_env \<Rightarrow> ('x, 'l) dml \<Rightarrow> ('x, 'l) dml \<Rightarrow> bool" where
  "calm env st st' \<longleftrightarrow>
     d_lib st' = d_lib st \<and> d_peers st' = d_peers st \<and> d_current_pk st' = d_current_pk st \<and> stmt_vars env st' = stmt_vars env st \<and>
     rekeyed (d_schema st) (d_schema st') \<and> (\<forall>h. in_stmt h st \<longrightarrow> in_stmt h st')"

lemma calm_trans: "calm env st st' \<Longrightarrow> calm env st' st'' \<Longrightarrow> calm env st st''"
  by (auto simp: calm_def intro: rekeyed_trans)

lemma calm_refl: "calm env st st"
  by (simp add: calm_def)

lemma calm_row_id: "calm env st (st\<lparr>d_next_row_id := n\<rparr>)"
  by (simp add: calm_def d_lib_def stmt_vars_def in_stmt_def)

lemma open_stmt_id: "in_stmt h st \<Longrightarrow> open_stmt_txn lib env st = (HA_OK, st)"
  by (simp add: open_stmt_txn_def ensure_stmt_txn_def in_stmt_def)

lemma note_modified_txn: "note_modified_table name k trx = (k', trx') \<Longrightarrow> map_option trx_txn trx' = map_option trx_txn trx"
  by (auto simp: note_modified_table_def Let_def split: option.splits if_splits)

lemma set_trx_parts [simp]:
  "d_peers (set_d_trx t st) = d_peers st" "stmt_vars env (set_d_trx t st) = stmt_vars env st"
  by (simp_all add: set_d_trx_def stmt_vars_def)

lemma mark_modified_calm:
  fixes st :: "('x, 'l) dml"
  shows "calm env st (mark_modified env st)"
proof -
  define st1 where "st1 = set_d_trx (map_option (\<lambda>t. t\<lparr>dirty := True\<rparr>) (d_trx st)) (st\<lparr>d_ha := (d_ha st)\<lparr>stmt_txn_dirty := True\<rparr>\<rparr>)"
  obtain k trx where n: "note_modified_table (de_name env) (mod_table_noted_generation (d_ha st1)) (d_trx st1) = (k, trx)"
    by fastforce
  define st2 where "st2 = st1\<lparr>d_ha := (d_ha st1)\<lparr>mod_table_noted_generation := k\<rparr>\<rparr>"
  have m: "mark_modified env st = set_d_trx trx st2"
    using n by (simp add: mark_modified_def st1_def st2_def Let_def)
  have "in_stmt h (set_d_trx trx st2)" if h: "in_stmt h st" for h
  proof -
    have "in_stmt h st1"
      using h by (auto simp: st1_def in_stmt_def set_d_trx_def d_trx_def)
    then have "in_stmt h st2" "map_option trx_txn trx = Some (Some h)"
      using note_modified_txn [OF n] by (auto simp: st2_def in_stmt_def d_trx_def)
    then show ?thesis
      by (rule in_stmt_set_trx)
  qed
  moreover have "d_eng (set_d_trx t x) = d_eng x" for t and x :: "('x, 'l) dml"
    by (simp add: set_d_trx_def)
  ultimately show ?thesis
    unfolding m calm_def by (simp add: st2_def st1_def stmt_vars_def d_lib_def)
qed

lemma cache_thdvars_calm: "calm env st (cache_stmt_thdvars env st)" "d_vars (cache_stmt_thdvars env st) = stmt_vars env st"
    "in_stmt h st \<Longrightarrow> stmt_vars env (cache_stmt_thdvars env st) = stmt_vars env st"
  by (auto simp: calm_def cache_stmt_thdvars_def stmt_vars_def in_stmt_def d_lib_def)

lemma serialize_row_version: "serialize_row ops cr iv cached s img = (bs, cached', s') \<Longrightarrow> rekeyed s s'"
  by (auto simp: serialize_row_def serialize_encrypt_row_def Let_def split: if_splits option.splits prod.splits)

lemma serialize_buf_calm:
  "\<exists>bs st'. serialize_buf env iv img st = (bs, st') \<and> calm env st st' \<and> row_bytes env (d_schema st) img bs"
proof -
  let ?c = "if enc_key_ver_valid (d_ha st) then Some (d_enc_key_ver st) else None"
  obtain bs cached' s' where q: "serialize_row (de_ops env) (de_crypto env) iv ?c (d_schema st) img = (bs, cached', s')"
    by (meson prod_cases3)
  have "row_bytes env (d_schema st) img bs"
    using q rekeyed_refl [of "d_schema st"] unfolding row_bytes_def rekeyed_def by (metis fst_conv)
  then show ?thesis
    using q serialize_row_version [OF q] by (auto simp: serialize_buf_def calm_def d_lib_def stmt_vars_def in_stmt_def)
qed

section \<open>Foreign keys\<close>

definition named_family :: "'l tdb_lib \<Rightarrow> ('l \<Rightarrow> bool) \<Rightarrow> (string \<Rightarrow> cf) \<Rightarrow> string \<Rightarrow> bool" where
  "named_family lib good fam n \<longleftrightarrow> (\<forall>l. good l \<longrightarrow> get_column_family lib n l = Some (fam n))"

text \<open>The constraints are checked, none of them cascades, their keys are resolved and their families exist.\<close>

definition restrict_only :: "'l tdb_lib \<Rightarrow> ('l \<Rightarrow> bool) \<Rightarrow> (string \<Rightarrow> cf) \<Rightarrow> fk_env \<Rightarrow> (fk_option \<Rightarrow> u8) \<Rightarrow> bool" where
  "restrict_only lib good fam env code \<longleftrightarrow>
     \<not> fx_checks_off env \<and> \<not> fx_in_cascade env \<and>
     (\<forall>d \<in> set (fx_child env). fd_child_key_no d \<noteq> None \<and>
        named_family lib good fam (if fd_parent_is_pk d then fd_parent_cf d else index_cf_name (fd_parent_cf d) (fd_parent_index_name d))) \<and>
     (\<forall>d \<in> set (fx_parent env). fd_parent_key_no d \<noteq> None \<and> named_family lib good fam (index_cf_name (fd_child_cf d) (fd_child_index_name d)) \<and>
        fd_on_delete d \<notin> {code FK_OPTION_CASCADE, code FK_OPTION_SET_NULL} \<and> fd_on_update d \<notin> {code FK_OPTION_CASCADE, code FK_OPTION_SET_NULL})"

definition parents_there :: "fk_env \<Rightarrow> (string \<Rightarrow> cf) \<Rightarrow> store \<Rightarrow> row \<Rightarrow> bool" where
  "parents_there env fam w r \<longleftrightarrow> (\<forall>d \<in> set (fx_child env). parent_there env fam w d r)"

definition is_referenced :: "fk_env \<Rightarrow> (string \<Rightarrow> cf) \<Rightarrow> store \<Rightarrow> row \<Rightarrow> bool" where
  "is_referenced env fam w r \<longleftrightarrow> (\<exists>d \<in> set (fx_parent env). child_refers env fam w d r)"

definition moves_referenced :: "fk_env \<Rightarrow> (string \<Rightarrow> cf) \<Rightarrow> store \<Rightarrow> row \<Rightarrow> row \<Rightarrow> bool" where
  "moves_referenced env fam w old_r r \<longleftrightarrow> (\<exists>d \<in> set (fx_parent env). key_moves env d old_r r \<and> child_refers env fam w d old_r)"

lemma fk_env_txn [simp]:
  "parent_there (env\<lparr>fx_stmt_txn := t\<rparr>) = parent_there env" "child_refers (env\<lparr>fx_stmt_txn := t\<rparr>) = child_refers env"
  "key_moves (env\<lparr>fx_stmt_txn := t\<rparr>) = key_moves env"
  by (auto simp: fun_eq_iff parent_there_def child_refers_def key_moves_def child_prefix_def)

lemma fk_exact:
  assumes lib: "lib_stores lib s" "lib_owns lib g D" "lib_reliable lib g good" "lib_iterates lib s"
    and fk: "restrict_only lib good fam (de_fk env) code" and st: "in_stmt h st" and v: "at_view g good s h db w l"
  shows "\<exists>l'. fk_check_child lib (fk_now env st) r l = Some (if parents_there (de_fk env) fam w r then HA_OK else HA_ERR_NO_REFERENCED_ROW, l') \<and>
      at_view g good s h db w l'"
    and "\<exists>l'. fk_enforce_parent_delete lib (fk_now env st) code tables r (x, l) =
        Some (if is_referenced (de_fk env) fam w r then HA_ERR_ROW_IS_REFERENCED else HA_OK, (x, l')) \<and> at_view g good s h db w l'"
    and "\<exists>l'. fk_enforce_parent_update lib (fk_now env st) code tables r r' (x, l) =
        Some (if moves_referenced (de_fk env) fam w r r' then HA_ERR_ROW_IS_REFERENCED else HA_OK, (x, l')) \<and> at_view g good s h db w l'"
proof -
  let ?names = "{n. named_family lib good fam n}"
  have run: "running g good s h l" "fst (s_txn s l h) = w" "s_db s l = db"
    using v by (simp_all add: at_view_def)
  have e: "fk_now env st = (de_fk env)\<lparr>fx_stmt_txn := Some h\<rparr>"
    using st by (simp add: fk_now_def in_stmt_def)
  have view: "at_view g good s h db w l'" if "running g good s h l'" "same_view s l l'" for l'
    using that run by (simp add: at_view_def same_view_def)
  have "\<exists>l'. fk_check_child lib (fk_now env st) r l = Some (if \<forall>d \<in> set (fx_child (fk_now env st)). parent_there (fk_now env st) fam (fst (s_txn s l h)) d r
      then HA_OK else HA_ERR_NO_REFERENCED_ROW, l') \<and> running g good s h l' \<and> same_view s l l'"
    by (rule check_child_exact [where names = ?names, OF lib run(1)]) (use fk in \<open>auto simp: e restrict_only_def named_family_def\<close>)
  then obtain l1 where "fk_check_child lib (fk_now env st) r l = Some (if \<forall>d \<in> set (fx_child (fk_now env st)). parent_there (fk_now env st) fam (fst (s_txn s l h)) d r
      then HA_OK else HA_ERR_NO_REFERENCED_ROW, l1)" "running g good s h l1" "same_view s l l1"
    by (elim exE conjE)
  then show "\<exists>l'. fk_check_child lib (fk_now env st) r l = Some (if parents_there (de_fk env) fam w r then HA_OK else HA_ERR_NO_REFERENCED_ROW, l') \<and>
      at_view g good s h db w l'"
    by (intro exI [of _ l1]) (simp add: view parents_there_def e run(2))
  have "\<exists>l'. fk_enforce_parent_delete lib (fk_now env st) code tables r (x, l) =
      Some (if \<exists>d \<in> set (fx_parent (fk_now env st)). child_refers (fk_now env st) fam (fst (s_txn s l h)) d r then HA_ERR_ROW_IS_REFERENCED else HA_OK, (x, l')) \<and> running g good s h l' \<and> same_view s l l'"
    by (rule parent_delete_exact [where names = ?names, OF lib run(1)]) (use fk in \<open>auto simp: e restrict_only_def named_family_def\<close>)
  then obtain l2 where "fk_enforce_parent_delete lib (fk_now env st) code tables r (x, l) =
      Some (if \<exists>d \<in> set (fx_parent (fk_now env st)). child_refers (fk_now env st) fam (fst (s_txn s l h)) d r then HA_ERR_ROW_IS_REFERENCED else HA_OK, (x, l2))"
      "running g good s h l2" "same_view s l l2"
    by (elim exE conjE)
  then show "\<exists>l'. fk_enforce_parent_delete lib (fk_now env st) code tables r (x, l) =
        Some (if is_referenced (de_fk env) fam w r then HA_ERR_ROW_IS_REFERENCED else HA_OK, (x, l')) \<and> at_view g good s h db w l'"
    by (intro exI [of _ l2]) (simp add: view is_referenced_def e run(2))
  have "\<exists>l'. fk_enforce_parent_update lib (fk_now env st) code tables r r' (x, l) =
      Some (if \<exists>d \<in> set (fx_parent (fk_now env st)). key_moves (fk_now env st) d r r' \<and> child_refers (fk_now env st) fam (fst (s_txn s l h)) d r
        then HA_ERR_ROW_IS_REFERENCED else HA_OK, (x, l')) \<and> running g good s h l' \<and> same_view s l l'"
    by (rule parent_update_exact [where names = ?names, OF lib run(1)]) (use fk in \<open>auto simp: e restrict_only_def named_family_def\<close>)
  then obtain l3 where "fk_enforce_parent_update lib (fk_now env st) code tables r r' (x, l) =
      Some (if \<exists>d \<in> set (fx_parent (fk_now env st)). key_moves (fk_now env st) d r r' \<and> child_refers (fk_now env st) fam (fst (s_txn s l h)) d r
        then HA_ERR_ROW_IS_REFERENCED else HA_OK, (x, l3))"
      "running g good s h l3" "same_view s l l3"
    by (elim exE conjE)
  then show "\<exists>l'. fk_enforce_parent_update lib (fk_now env st) code tables r r' (x, l) =
        Some (if moves_referenced (de_fk env) fam w r r' then HA_ERR_ROW_IS_REFERENCED else HA_OK, (x, l')) \<and> at_view g good s h db w l'"
    by (intro exI [of _ l3]) (simp add: view moves_referenced_def e run(2))
qed

end
