(* ===== verification/Dml_Refine.thy ===== *)
theory Dml_Refine
  imports Dml_Table Txn_Stmt
begin

text \<open>
  What the row operations promise: insert, update and delete act on the table in the transaction's view as the operations on
  a map do, constraint errors included.
\<close>

section \<open>The contract of the row operations\<close>

text \<open>The transaction holds the table \<open>rows\<close> and the rest of its view is that of \<open>w\<close>.\<close>

definition holds ::
  "'l lib_ghost \<Rightarrow> ('l \<Rightarrow> bool) \<Rightarrow> 'l lib_sem \<Rightarrow> txn \<Rightarrow> store \<Rightarrow> store \<Rightarrow> ('x, 'l) dml_env \<Rightarrow> nat \<Rightarrow> (bytes \<rightharpoonup> image) \<Rightarrow> ('x, 'l) dml \<Rightarrow> bool" where
  "holds g good s h db w env n rows st \<longleftrightarrow>
     in_stmt h st \<and> (\<exists>w'. at_view g good s h db w' (d_lib st) \<and> table_in env (d_schema st) n rows w' \<and> elsewhere (de_ix env) w w')"

definition new_pk_of :: "('x, 'l) dml_env \<Rightarrow> image \<Rightarrow> ('x, 'l) dml \<Rightarrow> bytes" where
  "new_pk_of env img st =
     (if ix_has_user_pk (de_ix env) then pk_of (de_ix env) (d_current_pk st) (row_of (d_schema st) img) else encode_be64 (d_next_row_id st))"

text \<open>The row can be stored: it encrypts, its words have their bounds, and the session checks uniqueness.\<close>

definition storable :: "('x, 'l) dml_env \<Rightarrow> bytes option \<Rightarrow> image \<Rightarrow> ('x, 'l) dml \<Rightarrow> bool" where
  "storable env iv img st \<longleftrightarrow>
     (rs_encrypted (d_schema st) \<longrightarrow> fst (serialize_buf env iv img st) \<noteq> []) \<and> \<not> dv_skip_unique (stmt_vars env st) \<and>
     (\<forall>i < length (ix_keys (de_ix env)). short_words (de_ix env) i (row_of (d_schema st) img))"

definition insert_outcome :: "('x, 'l) dml_env \<Rightarrow> (string \<Rightarrow> cf) \<Rightarrow> store \<Rightarrow> (bytes \<rightharpoonup> image) \<Rightarrow> bytes \<Rightarrow> row_schema \<Rightarrow> image \<Rightarrow> ha_rc" where
  "insert_outcome env fam w rows pk s img =
     (if rows pk \<noteq> None \<or> clashes (de_ix env) s rows (row_of s img) then HA_ERR_FOUND_DUPP_KEY
      else if \<not> parents_there (de_fk env) fam w (row_of s img) then HA_ERR_NO_REFERENCED_ROW else HA_OK)"

lemma write_checked_exact:
  assumes lib: "lib_stores lib s" "lib_owns lib g D" "lib_reliable lib g good" "lib_iterates lib s" and wf: "dml_wf (de_ix env) n"
    and fk: "restrict_only lib good fam (de_fk env) (de_code env)" and can: "\<not> de_write_can_replace env" "\<not> dv_skip_unique (d_vars st)"
    and st: "in_stmt h st" and v: "at_view g good s h db w (d_lib st)" and tab: "table_in env sc n rows w" and sc: "rekeyed sc (d_schema st)"
    and new: "ix_has_user_pk (de_ix env) \<or> rows pk = None" "length pk = n" "pk_of (de_ix env) pk (row_of sc img) = pk"
      "\<forall>i < length (ix_keys (de_ix env)). short_words (de_ix env) i (row_of sc img)" "row_bytes env sc img data"
  shows "\<exists>st'. write_checked lib env h pk (row_of sc img) data False st = Some (insert_outcome env fam w rows pk sc img, st') \<and>
    holds g good s h db w env n (if insert_outcome env fam w rows pk sc img = HA_OK then rows(pk \<mapsto> img) else rows) st' \<and>
    (insert_outcome env fam w rows pk sc img = HA_OK \<longrightarrow> d_current_pk st' = pk)"
proof -
  let ?r = "row_of sc img" and ?ix = "de_ix env"
  have wfi: "wf_indexes ?ix"
    using wf by (simp add: dml_wf_def)
  have keep: "holds g good s h db w env n rows st'" if "core st' = core st" "at_view g good s h db w (d_lib st')" for st'
    using that tab st sc in_stmt_core [OF that(1)] core_eqD [OF that(1)] rekeyed_same [OF sc, of env]
    unfolding holds_def by (intro conjI exI [of _ w]) simp_all
  obtain st1 where s1: "write_check_pk_unique lib env pk (dv_skip_unique (d_vars st) \<or> False) st =
      (if rows pk \<noteq> None then HA_ERR_FOUND_DUPP_KEY else HA_OK, st1)" "core st1 = core st" "at_view g good s h db w (d_lib st1)"
    using check_pk_exact [OF lib(1-3) v st, of env pk] can v new(1) table_inD(5) [OF tab, of pk]
    unfolding write_check_pk_unique_def by (cases "ix_has_user_pk ?ix") auto
  obtain st2 where s2: "write_check_secondary_unique lib env h ?r st1 = (if clashes ?ix sc rows ?r then HA_ERR_FOUND_DUPP_KEY else HA_OK, st2)"
    "core st2 = core st" "at_view g good s h db w (d_lib st2)"
  proof (cases "ix_num_secondary ?ix = 0")
    case True
    then show ?thesis
      using that [of st1] s1(2,3) no_secondary [OF wfi, of sc rows ?r] by (simp add: write_check_secondary_unique_def)
  next
    case False
    then show ?thesis
      using check_unique_exact [OF lib s1(3), of env "unique_prefix ?ix ?r" "[0..<length (ix_keys ?ix)]"] that s1(2) can(2) core_eqD [OF s1(2)]
      unfolding taken_clashes(1) [OF wf tab] by (auto simp: write_check_secondary_unique_def)
  qed
  have in2: "in_stmt h st2"
    using in_stmt_core [OF s2(2)] st by simp
  obtain l3 where s3: "fk_check_child lib (fk_now env st2) ?r (d_lib st2) =
      Some (if parents_there (de_fk env) fam w ?r then HA_OK else HA_ERR_NO_REFERENCED_ROW, l3)" "at_view g good s h db w l3"
    using fk_exact(1) [OF lib fk in2 s2(3)] by blast
  show ?thesis
  proof (cases "insert_outcome env fam w rows pk sc img = HA_OK")
    case False
    then show ?thesis
      using s1(1) s2(1) s3(1) keep [OF s1(2,3)] keep [OF s2(2,3)] keep [of "set_d_lib l3 st2"] s2(2) s3(2)
      by (simp add: write_checked_def insert_outcome_def Let_def split: if_splits)
  next
    case True
    then have free: "rows pk = None" "\<not> clashes ?ix sc rows ?r" "parents_there (de_fk env) fam w ?r"
      by (simp_all add: insert_outcome_def split: if_splits)
    obtain st' w' where w': "write_store lib env h pk ?r data (set_d_lib l3 st2) = (HA_OK, st')" "in_stmt h st'" "at_view g good s h db w' (d_lib st')"
      "table_in env sc n (rows(pk \<mapsto> img)) w'" "elsewhere ?ix w w'" "d_current_pk st' = pk" "d_schema st' = d_schema st2"
      using write_store_exact [OF lib(1-3) wfi _ _ tab free(1) new(2-5), of h "set_d_lib l3 st2" db] in2 s3(2) by auto
    have "d_schema st' = d_schema st"
      using w'(7) core_eqD [OF s2(2)] by simp
    then have "holds g good s h db w env n (rows(pk \<mapsto> img)) st'"
      using w' rekeyed_same [OF sc, of env] unfolding holds_def by (intro conjI exI [of _ w']) simp_all
    then show ?thesis
      using True free s1(1) s2(1) s3(1) w'(1,6) by (simp add: write_checked_def Let_def)
  qed
qed

lemma serialize_row_id [simp]: "fst (serialize_buf env iv img (st\<lparr>d_next_row_id := k\<rparr>)) = fst (serialize_buf env iv img st)"
  by (simp add: serialize_buf_def split: prod.splits)

text \<open>The part before the checks of a row: nothing of the database changes, the bytes are those of the row.\<close>

lemma prepare_exact:
  assumes "in_stmt h st" "rs_encrypted (d_schema st) \<longrightarrow> fst (serialize_buf env iv img st) \<noteq> []"
  obtains bs st1 where "serialize_buf env iv img st = (bs, st1)" "\<not> (rs_encrypted (d_schema st1) \<and> bs = [])"
    "open_stmt_txn lib env st1 = (HA_OK, st1)" "calm env st (cache_stmt_thdvars env (mark_modified env st1))"
    "stmt_txn (d_ha (cache_stmt_thdvars env (mark_modified env st1))) = Some h"
    "d_vars (cache_stmt_thdvars env (mark_modified env st1)) = stmt_vars env st" "row_bytes env (d_schema st) img bs"
proof -
  obtain bs st1 where q: "serialize_buf env iv img st = (bs, st1)" "calm env st st1" "row_bytes env (d_schema st) img bs"
    using serialize_buf_calm by metis
  have "in_stmt h st1"
    using q(2) assms(1) by (simp add: calm_def)
  moreover have c: "calm env st (cache_stmt_thdvars env (mark_modified env st1))"
    by (intro calm_trans [OF calm_trans [OF q(2) mark_modified_calm]] cache_thdvars_calm)
  moreover have "d_vars (cache_stmt_thdvars env (mark_modified env st1)) = stmt_vars env st"
    using cache_thdvars_calm(2) [of env "mark_modified env st1"] calm_trans [OF q(2) mark_modified_calm] by (simp add: calm_def)
  moreover have "rs_encrypted (d_schema st1) = rs_encrypted (d_schema st)"
    using q(2) rekeyed_same [of "d_schema st" "d_schema st1" env] by (simp add: calm_def)
  ultimately show ?thesis
    using assms(2) q(1)
    by (intro that [OF q(1) _ open_stmt_id [of h] c _ _ q(3)]) (use assms(1) in \<open>auto simp: calm_def in_stmt_def\<close>)
qed

lemma new_pk_ok:
  assumes "dml_wf (de_ix env) n"
  shows "length (new_pk_of env img st) = n" "pk_of (de_ix env) (new_pk_of env img st) (row_of (d_schema st) img) = new_pk_of env img st"
  using assms pk_length pk_of_cur [of "de_ix env"]
  by (auto simp: new_pk_of_def dml_wf_def ix_pk_key_def encode_be64_def)

lemma write_row_exact:
  assumes lib: "lib_stores lib s" "lib_owns lib g D" "lib_reliable lib g good" "lib_iterates lib s" and wf: "dml_wf (de_ix env) n"
    and fk: "restrict_only lib good fam (de_fk env) (de_code env)" and env: "de_auto_inc env = None" "\<not> de_write_can_replace env"
    and st: "in_stmt h st" and v: "at_view g good s h db w (d_lib st)" and tab: "table_in env (d_schema st) n rows w"
    and img: "storable env iv img st" "ix_has_user_pk (de_ix env) \<or> rows (new_pk_of env img st) = None"
    and pk: "pk = new_pk_of env img st" and rc: "rc = insert_outcome env fam w rows pk (d_schema st) img"
  shows "\<exists>st'. write_row lib env iv img st = Some (rc, st') \<and> holds g good s h db w env n (if rc = HA_OK then rows(pk \<mapsto> img) else rows) st' \<and>
    (rc = HA_OK \<longrightarrow> d_current_pk st' = pk)"
proof -
  let ?r = "row_of (d_schema st) img"
  obtain st1 where b: "write_build_pk env ?r st = (pk, st1)" "calm env st st1" "d_schema st1 = d_schema st" "fst (serialize_buf env iv img st1) = fst (serialize_buf env iv img st)"
    by (cases "ix_has_user_pk (de_ix env)") (auto simp: write_build_pk_def new_pk_of_def pk calm_refl calm_row_id)
  have in1: "in_stmt h st1"
    using b(2) st by (simp add: calm_def)
  obtain bs st2 where p: "serialize_buf env iv img st1 = (bs, st2)" "\<not> (rs_encrypted (d_schema st2) \<and> bs = [])"
    "open_stmt_txn lib env st2 = (HA_OK, st2)" "calm env st1 (cache_stmt_thdvars env (mark_modified env st2))"
    "stmt_txn (d_ha (cache_stmt_thdvars env (mark_modified env st2))) = Some h"
    "d_vars (cache_stmt_thdvars env (mark_modified env st2)) = stmt_vars env st1" "row_bytes env (d_schema st1) img bs"
    using prepare_exact [OF in1, of env iv img lib] img(1) b(3,4) unfolding storable_def by auto
  let ?st = "cache_stmt_thdvars env (mark_modified env st2)"
  have c: "calm env st ?st" and vars: "stmt_vars env st1 = stmt_vars env st"
    using calm_trans [OF b(2) p(4)] b(2) by (simp_all add: calm_def)
  have "write_row lib env iv img st = write_checked lib env h pk ?r bs False ?st"
    using p(1-3,5) b(1) by (auto simp: write_row_def env(1) Let_def)
  then show ?thesis
    using write_checked_exact [OF lib wf fk env(2), of ?st h db w "d_schema st" rows pk img bs] c v st tab img p(6,7) vars b(3) new_pk_ok [OF wf, of img st]
    unfolding rc pk storable_def by (simp add: calm_def)
qed

lemma holds_calm:
  assumes "calm env st st'" "in_stmt h st" "at_view g good s h db w (d_lib st)" "table_in env (d_schema st) n rows w"
  shows "in_stmt h st'" "at_view g good s h db w (d_lib st')" "table_in env (d_schema st') n rows w"
  using assms rekeyed_same [of "d_schema st" "d_schema st'" env] by (simp_all add: calm_def)

lemma delete_row_exact:
  assumes lib: "lib_stores lib s" "lib_owns lib g D" "lib_reliable lib g good" "lib_iterates lib s" and wf: "dml_wf (de_ix env) n"
    and fk: "restrict_only lib good fam (de_fk env) (de_code env)"
    and st: "in_stmt h st" and v: "at_view g good s h db w (d_lib st)" and tab: "table_in env (d_schema st) n rows w"
    and old: "rows (d_current_pk st) = Some img" and rc: "rc = (if is_referenced (de_fk env) fam w (row_of (d_schema st) img) then HA_ERR_ROW_IS_REFERENCED else HA_OK)"
  shows "\<exists>st'. delete_row lib env img st = Some (rc, st') \<and>
    holds g good s h db w env n (if rc = HA_OK then rows(d_current_pk st := None) else rows) st' \<and> d_current_pk st' = d_current_pk st"
proof -
  have wfi: "wf_indexes (de_ix env)"
    using wf by (simp add: dml_wf_def)
  define st2 where "st2 = mark_modified env (cache_stmt_thdvars env st)"
  have c: "calm env st st2"
    unfolding st2_def by (rule calm_trans [OF cache_thdvars_calm(1) mark_modified_calm])
  note h2 = holds_calm [OF c st v tab]
  have same: "d_current_pk st2 = d_current_pk st" "row_of (d_schema st2) = row_of (d_schema st)"
    using c rekeyed_same [of "d_schema st" "d_schema st2" env] by (simp_all add: calm_def)
  have o: "open_stmt_txn lib env (cache_stmt_thdvars env st) = (HA_OK, cache_stmt_thdvars env st)"
    using open_stmt_id holds_calm(1) [OF cache_thdvars_calm(1) st v tab] by blast
  obtain l3 where s3: "fk_enforce_parent_delete lib (fk_now env st2) (de_code env) (de_tables env) (row_of (d_schema st) img) (d_peers st2, d_lib st2) =
      Some (rc, (d_peers st2, l3))" "at_view g good s h db w l3"
    using fk_exact(2) [OF lib fk h2(1,2), where tables = "de_tables env" and r = "row_of (d_schema st) img" and x = "d_peers st2"]
    unfolding rc by (elim exE conjE)
  define st3 where "st3 = (set_d_lib l3 st2)\<lparr>d_peers := d_peers st2\<rparr>"
  have h3: "in_stmt h st3" "at_view g good s h db w (d_lib st3)" "d_current_pk st3 = d_current_pk st" "d_schema st3 = d_schema st2"
    using h2 s3(2) same(1) by (simp_all add: st3_def in_stmt_def set_d_lib_def d_lib_def set_lib_def)
  then have t: "track_range (data_key (d_current_pk st)) st3 = st3" "stmt_txn (d_ha st3) = Some h"
    by (simp_all add: track_range_def in_stmt_def)
  have d: "delete_row lib env img st = Some (if rc \<noteq> HA_OK then (rc, st3) else case delete_primary lib env h (data_key (d_current_pk st3)) st3 of
      (rc, st5) \<Rightarrow> if rc \<noteq> HA_OK then (rc, st5) else delete_indexes lib env h (row_of (d_schema st2) img) st5)"
    using s3(1) t h3(3) by (simp add: delete_row_def o st2_def [symmetric] same Let_def st3_def [symmetric] split: prod.splits)
  show ?thesis
  proof (cases "rc = HA_OK")
    case False
    then show ?thesis
      using d h3 h2(3) unfolding holds_def by (auto intro!: exI [of _ w])
  next
    case True
    have "rows (d_current_pk st3) = Some img" "table_in env (d_schema st2) n rows w"
      using old h3(3) h2(3) by simp_all
    then obtain st4 st' w' where w': "delete_primary lib env h (data_key (d_current_pk st3)) st3 = (HA_OK, st4)"
      "delete_indexes lib env h (row_of (d_schema st2) img) st4 = (HA_OK, st')" "in_stmt h st'" "at_view g good s h db w' (d_lib st')"
      "table_in env (d_schema st2) n (rows(d_current_pk st3 := None)) w'" "elsewhere (de_ix env) w w'" "d_current_pk st' = d_current_pk st3"
      "d_schema st' = d_schema st3"
      using delete_indexes_exact [OF lib(1-3) wfi h3(1,2)] by metis
    then have "holds g good s h db w env n (rows(d_current_pk st := None)) st'"
      using h3 unfolding holds_def by (intro conjI exI [of _ w']) simp_all
    then show ?thesis
      using True d w'(1,2,7) h3(3) by simp
  qed
qed

text \<open>An update leaves the columns outside the write set alone; where it moves the row, every full-text and spatial index it has
  is written too.\<close>

definition update_fits :: "index_env \<Rightarrow> bytes \<Rightarrow> bytes \<Rightarrow> row \<Rightarrow> row \<Rightarrow> bool" where
  "update_fits ix old_pk new_pk old_r new_r \<longleftrightarrow>
     (\<forall>f. \<not> ix_write_set ix f \<longrightarrow> old_r f = new_r f) \<and>
     (old_pk = new_pk \<or> (\<forall>i < length (ix_keys ix). index_cf ix i \<noteq> None \<longrightarrow> followed ix i))"

definition update_outcome ::
  "('x, 'l) dml_env \<Rightarrow> (string \<Rightarrow> cf) \<Rightarrow> store \<Rightarrow> (bytes \<rightharpoonup> image) \<Rightarrow> bytes \<Rightarrow> bytes \<Rightarrow> row_schema \<Rightarrow> image \<Rightarrow> image \<Rightarrow> ha_rc" where
  "update_outcome env fam w rows old_pk new_pk s old img =
     (if old_pk \<noteq> new_pk \<and> rows new_pk \<noteq> None \<or> clashes_new (de_ix env) s rows (row_of s old) (row_of s img) then HA_ERR_FOUND_DUPP_KEY
      else if \<not> parents_there (de_fk env) fam w (row_of s img) then HA_ERR_NO_REFERENCED_ROW
      else if moves_referenced (de_fk env) fam w (row_of s old) (row_of s img) then HA_ERR_ROW_IS_REFERENCED else HA_OK)"

lemma update_unique_exact:
  assumes lib: "lib_stores lib s" "lib_owns lib g D" "lib_reliable lib g good" "lib_iterates lib s" and wf: "dml_wf (de_ix env) n"
    and st: "in_stmt h st" and v: "at_view g good s h db w (d_lib st)" and tab: "table_in env sc n rows w"
    and user: "old_pk = new_pk \<or> ix_has_user_pk (de_ix env)"
  shows "\<exists>st'. update_check_unique lib env h old_r r new_pk (old_pk \<noteq> new_pk) st =
      (if old_pk \<noteq> new_pk \<and> rows new_pk \<noteq> None \<or> clashes_new (de_ix env) sc rows old_r r then HA_ERR_FOUND_DUPP_KEY else HA_OK, st') \<and>
    core st' = core st \<and> at_view g good s h db w (d_lib st')"
proof -
  have wfi: "wf_indexes (de_ix env)"
    using wf by (simp add: dml_wf_def)
  obtain st1 where s1: "(if old_pk \<noteq> new_pk \<and> ix_has_user_pk (de_ix env) then check_pk lib env new_pk st else (HA_OK, st)) =
      (if old_pk \<noteq> new_pk \<and> rows new_pk \<noteq> None then HA_ERR_FOUND_DUPP_KEY else HA_OK, st1)" "core st1 = core st" "at_view g good s h db w (d_lib st1)"
    using check_pk_exact [OF lib(1-3) v st, of env new_pk] v user table_inD(5) [OF tab, of new_pk] by (cases "old_pk = new_pk") auto
  show ?thesis
  proof (cases "old_pk \<noteq> new_pk \<and> rows new_pk \<noteq> None")
    case True
    then show ?thesis
      using s1 by (simp add: update_check_unique_def)
  next
    case False
    then have u: "update_check_unique lib env h old_r r new_pk (old_pk \<noteq> new_pk) st = (if ix_num_secondary (de_ix env) = 0 then (HA_OK, st1)
        else check_unique_each lib env h (changed_prefix (de_ix env) old_r r) [0..<length (ix_keys (de_ix env))] st1)"
      using s1(1) by (auto simp: update_check_unique_def)
    show ?thesis
      using check_unique_exact [OF lib s1(3), of env "changed_prefix (de_ix env) old_r r" "[0..<length (ix_keys (de_ix env))]"] False s1(2,3)
        no_secondary [OF wfi, of sc rows r old_r]
      unfolding u taken_clashes(2) [OF wf tab] by (cases "ix_num_secondary (de_ix env) = 0") auto
  qed
qed

lemma update_checked_cases:
  assumes lib: "lib_stores lib s" "lib_owns lib g D" "lib_reliable lib g good" "lib_iterates lib s" and wf: "dml_wf (de_ix env) n"
    and fk: "restrict_only lib good fam (de_fk env) (de_code env)" and on: "\<not> dv_skip_unique (d_vars st)"
    and st: "in_stmt h st" and v: "at_view g good s h db w (d_lib st)" and tab: "table_in env sc n rows w"
    and user: "old_pk = new_pk \<or> ix_has_user_pk (de_ix env)"
    and rc: "rc = update_outcome env fam w rows old_pk new_pk sc old img"
  shows "\<exists>st' due. in_stmt h st' \<and> d_schema st' = d_schema st \<and> at_view g good s h db w (d_lib st') \<and>
    update_checked lib env h old_pk new_pk (row_of sc old) (row_of sc img) data st =
      Some (if rc = HA_OK then update_store lib env h old_pk new_pk (row_of sc old) (row_of sc img) data due st' else (rc, st'))"
proof -
  let ?o = "row_of sc old" and ?r = "row_of sc img" and ?ix = "de_ix env"
  obtain due st0 where t: "row_ttl env ?r st = (due, st0)" "d_lib st0 = d_lib st" "in_stmt h st0" "d_schema st0 = d_schema st" "d_vars st0 = d_vars st"
    using row_ttl_steady [of env ?r st h] st by auto
  define dup where "dup \<longleftrightarrow> old_pk \<noteq> new_pk \<and> rows new_pk \<noteq> None \<or> clashes_new ?ix sc rows ?o ?r"
  have rc': "rc = (if dup then HA_ERR_FOUND_DUPP_KEY else if \<not> parents_there (de_fk env) fam w ?r then HA_ERR_NO_REFERENCED_ROW
      else if moves_referenced (de_fk env) fam w ?o ?r then HA_ERR_ROW_IS_REFERENCED else HA_OK)"
    unfolding rc update_outcome_def dup_def by (rule refl)
  obtain st1 where s1: "update_check_unique lib env h ?o ?r new_pk (old_pk \<noteq> new_pk) st0 =
      (if dup then HA_ERR_FOUND_DUPP_KEY else HA_OK, st1)"
    "core st1 = core st0" "at_view g good s h db w (d_lib st1)"
    using update_unique_exact [OF lib wf t(3) _ tab user, of db ?o ?r] v t(2) unfolding dup_def by auto
  have h1: "in_stmt h st1" "d_schema st1 = d_schema st"
    using in_stmt_core [OF s1(2), of h] core_eqD [OF s1(2)] t(3,4) by simp_all
  obtain l2 where s2: "fk_check_child lib (fk_now env st1) ?r (d_lib st1) =
      Some (if parents_there (de_fk env) fam w ?r then HA_OK else HA_ERR_NO_REFERENCED_ROW, l2)" "at_view g good s h db w l2"
    using fk_exact(1) [OF lib fk h1(1) s1(3)] by blast
  define st2 where "st2 = set_d_lib l2 st1"
  have h2: "in_stmt h st2" "d_schema st2 = d_schema st" "at_view g good s h db w (d_lib st2)"
    using h1 s2(2) by (simp_all add: st2_def)
  obtain l3 where s3: "fk_enforce_parent_update lib (fk_now env st2) (de_code env) (de_tables env) ?o ?r (d_peers st2, d_lib st2) =
      Some (if moves_referenced (de_fk env) fam w ?o ?r then HA_ERR_ROW_IS_REFERENCED else HA_OK, (d_peers st2, l3))" "at_view g good s h db w l3"
    using fk_exact(3) [OF lib fk h2(1,3), where tables = "de_tables env" and r = ?o and r' = ?r and x = "d_peers st2"] by (elim exE conjE)
  define st3 where "st3 = (set_d_lib l3 st2)\<lparr>d_peers := d_peers st2\<rparr>"
  have h3: "in_stmt h st3" "d_schema st3 = d_schema st" "at_view g good s h db w (d_lib st3)"
    using h2 s3(2) by (simp_all add: st3_def in_stmt_def set_d_lib_def d_lib_def set_lib_def)
  have u: "update_checked lib env h old_pk new_pk ?o ?r data st = Some (
      if dup then (HA_ERR_FOUND_DUPP_KEY, st1)
      else if \<not> parents_there (de_fk env) fam w ?r then (HA_ERR_NO_REFERENCED_ROW, st2)
      else if moves_referenced (de_fk env) fam w ?o ?r then (HA_ERR_ROW_IS_REFERENCED, st3)
      else update_store lib env h old_pk new_pk ?o ?r data due st3)"
    using s1(1) s2(1) s3(1) on t(5) by (simp add: update_checked_def t(1) Let_def st2_def [symmetric] st3_def [symmetric])
  show ?thesis
    using h1 s1(3) h2 h3 unfolding u rc'
    by (intro exI [of _ "if dup then st1 else if \<not> parents_there (de_fk env) fam w ?r then st2 else st3"] exI [of _ due]) simp
qed

lemma update_row_cases:
  assumes lib: "lib_stores lib s" "lib_owns lib g D" "lib_reliable lib g good" "lib_iterates lib s" and wf: "dml_wf (de_ix env) n"
    and fk: "restrict_only lib good fam (de_fk env) (de_code env)"
    and st: "in_stmt h st" and v: "at_view g good s h db w (d_lib st)" and tab: "table_in env (d_schema st) n rows w"
    and img: "storable env iv img st" and old: "rows old_pk = Some old" "old_pk = d_current_pk st"
    and pk: "new_pk = pk_of (de_ix env) old_pk (row_of (d_schema st) img)"
    and rc: "rc = update_outcome env fam w rows old_pk new_pk (d_schema st) old img"
  shows "\<exists>st' data due. in_stmt h st' \<and> rekeyed (d_schema st) (d_schema st') \<and> at_view g good s h db w (d_lib st') \<and>
    row_bytes env (d_schema st) img data \<and> length new_pk = n \<and> pk_of (de_ix env) new_pk (row_of (d_schema st) img) = new_pk \<and>
    update_row lib env iv old img st =
      Some (if rc = HA_OK then update_store lib env h old_pk new_pk (row_of (d_schema st) old) (row_of (d_schema st) img) data due st' else (rc, st'))"
proof -
  obtain bs st1 where p: "serialize_buf env iv img st = (bs, st1)" "\<not> (rs_encrypted (d_schema st1) \<and> bs = [])"
    "open_stmt_txn lib env st1 = (HA_OK, st1)" "calm env st (cache_stmt_thdvars env (mark_modified env st1))"
    "stmt_txn (d_ha (cache_stmt_thdvars env (mark_modified env st1))) = Some h"
    "d_vars (cache_stmt_thdvars env (mark_modified env st1)) = stmt_vars env st" "row_bytes env (d_schema st) img bs"
    using prepare_exact [OF st, of env iv img lib] img unfolding storable_def by auto
  let ?st = "cache_stmt_thdvars env (mark_modified env st1)" and ?r = "row_of (d_schema st) img"
  have u: "update_row lib env iv old img st = update_checked lib env h old_pk new_pk (row_of (d_schema st) old) ?r bs ?st"
    using p(1-3,5) old(2) pk by (auto simp: update_row_def Let_def)
  have new: "old_pk = new_pk \<or> ix_has_user_pk (de_ix env)" "length new_pk = n" "pk_of (de_ix env) new_pk ?r = new_pk"
    using pk_length [OF wf, of old_pk ?r] pk_of_cur [of "de_ix env"] table_inD(2) [OF tab old(1)] unfolding pk by metis+
  have on: "\<not> dv_skip_unique (d_vars ?st)" and sc: "rekeyed (d_schema st) (d_schema ?st)"
    using p(4,6) img by (simp_all add: storable_def calm_def)
  show ?thesis
    using update_checked_cases [OF lib wf fk on holds_calm(1,2) [OF p(4) st v tab] tab new(1) rc, of bs] sc p(7) new(2,3)
    unfolding u by (elim exE conjE) (intro exI conjI, assumption, simp_all)
qed

lemma update_row_exact:
  assumes lib: "lib_stores lib s" "lib_owns lib g D" "lib_reliable lib g good" "lib_iterates lib s" and wf: "dml_wf (de_ix env) n"
    and fk: "restrict_only lib good fam (de_fk env) (de_code env)"
    and st: "in_stmt h st" and v: "at_view g good s h db w (d_lib st)" and tab: "table_in env (d_schema st) n rows w"
    and img: "storable env iv img st" and old: "rows old_pk = Some old" "old_pk = d_current_pk st"
    and pk: "new_pk = pk_of (de_ix env) old_pk (row_of (d_schema st) img)"
    and fits: "update_fits (de_ix env) old_pk new_pk (row_of (d_schema st) old) (row_of (d_schema st) img)"
    and rc: "rc = update_outcome env fam w rows old_pk new_pk (d_schema st) old img"
  shows "\<exists>st'. update_row lib env iv old img st = Some (rc, st') \<and>
    holds g good s h db w env n (if rc = HA_OK then rows(old_pk := None, new_pk \<mapsto> img) else rows) st' \<and> (rc = HA_OK \<longrightarrow> d_current_pk st' = new_pk)"
proof -
  let ?o = "row_of (d_schema st) old" and ?r = "row_of (d_schema st) img" and ?ix = "de_ix env"
  obtain st1 data due where u: "in_stmt h st1" "rekeyed (d_schema st) (d_schema st1)" "at_view g good s h db w (d_lib st1)"
    "row_bytes env (d_schema st) img data" "length new_pk = n" "pk_of ?ix new_pk ?r = new_pk"
    "update_row lib env iv old img st = Some (if rc = HA_OK then update_store lib env h old_pk new_pk ?o ?r data due st1 else (rc, st1))"
    using update_row_cases [OF lib wf fk st v tab img old pk rc] by (elim exE conjE)
  show ?thesis
  proof (cases "rc = HA_OK")
    case False
    then show ?thesis
      using u tab rekeyed_same [OF u(2), of env] unfolding holds_def by (intro exI [of _ st1]) auto
  next
    case True
    have wfi: "wf_indexes ?ix"
      using wf by (simp add: dml_wf_def)
    have f: "new_pk = old_pk \<or> rows new_pk = None" "\<forall>f. \<not> ix_write_set ?ix f \<longrightarrow> ?o f = ?r f"
      "old_pk = new_pk \<or> (\<forall>i < length (ix_keys ?ix). index_cf ?ix i \<noteq> None \<longrightarrow> followed ?ix i)"
      "\<forall>i < length (ix_keys ?ix). short_words ?ix i ?r"
      using True fits img unfolding rc by (auto simp: update_fits_def update_outcome_def storable_def split: if_splits)
    obtain st' w' where w': "update_store lib env h old_pk new_pk ?o ?r data due st1 = (HA_OK, st')" "in_stmt h st'" "at_view g good s h db w' (d_lib st')"
      "table_in env (d_schema st) n (rows(old_pk := None, new_pk \<mapsto> img)) w'" "elsewhere ?ix w w'" "d_current_pk st' = new_pk" "d_schema st' = d_schema st1"
      using update_store_exact [OF lib(1-3) wfi u(1,3) tab old(1) f(1) u(5,6) f(4) u(4) f(2,3), of due] by (elim exE conjE)
    have "holds g good s h db w env n (rows(old_pk := None, new_pk \<mapsto> img)) st'"
      using w' rekeyed_same [OF u(2), of env] unfolding holds_def by (intro conjI exI [of _ w']) simp_all
    then show ?thesis
      using u(7) True w'(1,6) by simp
  qed
qed

text \<open>What an update does where it writes no column of a full-text index, and there is no other index: the row moves, its words stay.\<close>

lemma untouched_words_stay:
  assumes "\<forall>i < length (ix_keys ix). index_cf ix i \<noteq> None \<longrightarrow> ix_is_fts ix ! i \<and> \<not> touched ix (ix_keys ix ! i)"
  shows "update_maintain_indexes lib ix h old_r new_r old_pk new_pk due st = (TDB_SUCCESS, st)"
proof -
  have "for_indexes (update_one_index lib ix h old_r new_r old_pk new_pk due) ix is st = (TDB_SUCCESS, st)"
    if "set is \<subseteq> {..<length (ix_keys ix)}" for "is"
    using that assms
    by (induction "is") (auto simp: update_one_index_def update_fts_index_def split: option.splits prod.splits)
  then show ?thesis
    by (simp add: update_maintain_indexes_def all_indexes_def lessThan_atLeast0)
qed

lemma moved_row_exact:
  assumes lib: "lib_stores lib s" "lib_owns lib g D" "lib_reliable lib g good" "lib_iterates lib s" and wf: "dml_wf (de_ix env) n"
    and fk: "restrict_only lib good fam (de_fk env) (de_code env)"
    and st: "in_stmt h st" and v: "at_view g good s h db w (d_lib st)" and tab: "table_in env (d_schema st) n rows w"
    and img: "storable env iv img st" and old: "rows old_pk = Some old" "old_pk = d_current_pk st"
    and pk: "new_pk = pk_of (de_ix env) old_pk (row_of (d_schema st) img)" "new_pk \<noteq> old_pk"
    and ok: "update_outcome env fam w rows old_pk new_pk (d_schema st) old img = HA_OK"
    and words: "\<forall>i < length (ix_keys (de_ix env)). index_cf (de_ix env) i \<noteq> None \<longrightarrow>
      ix_is_fts (de_ix env) ! i \<and> \<not> touched (de_ix env) (ix_keys (de_ix env) ! i)"
  shows "\<exists>st' w'. update_row lib env iv old img st = Some (HA_OK, st') \<and> at_view g good s h db w' (d_lib st') \<and>
    w' (ix_cf (de_ix env), data_key old_pk) = None \<and> w' (ix_cf (de_ix env), data_key new_pk) \<noteq> None \<and>
    (\<forall>c k. c \<noteq> ix_cf (de_ix env) \<longrightarrow> w' (c, k) = w (c, k))"
proof -
  let ?o = "row_of (d_schema st) old" and ?r = "row_of (d_schema st) img"
  obtain st1 data due where u: "in_stmt h st1" "at_view g good s h db w (d_lib st1)"
    "update_row lib env iv old img st = Some (update_store lib env h old_pk new_pk ?o ?r data due st1)"
    using update_row_cases [OF lib wf fk st v tab img old pk(1) refl] unfolding ok by (elim exE conjE) simp
  obtain l1 w1 where p: "update_rewrite_primary lib env h old_pk new_pk data due (old_pk \<noteq> new_pk) st1 = (TDB_SUCCESS, l1)" "at_view g good s h db w1 l1"
    "\<forall>p. w1 (ix_cf (de_ix env), data_key p) =
       (if p = new_pk then Some data else if p = old_pk then None else w (ix_cf (de_ix env), data_key p))"
    "\<forall>c k. c \<noteq> ix_cf (de_ix env) \<longrightarrow> w1 (c, k) = w (c, k)"
    using rewrite_primary_exact [OF lib(1-3) u(2), of env old_pk new_pk data due] by (elim exE conjE)
  have "update_store lib env h old_pk new_pk ?o ?r data due st1 = (HA_OK, (set_d_trx (d_trx st1) (set_d_lib l1 st1))\<lparr>d_current_pk := new_pk\<rparr>)"
    using u(1) by (simp add: update_store_def p(1) untouched_words_stay [OF words] in_stmt_def set_d_lib_def set_d_trx_def d_trx_def d_lib_def set_lib_def Let_def)
  then show ?thesis
    using u(3) p pk(2) by (intro exI [of _ "(set_d_trx (d_trx st1) (set_d_lib l1 st1))\<lparr>d_current_pk := new_pk\<rparr>"] exI [of _ w1]) simp
qed

section \<open>The row operations as operations on a table\<close>

datatype row_op =
    Insert "bytes option" image
  | Update "bytes option" image image
  | Delete image

fun run_op :: "'l tdb_lib \<Rightarrow> ('x, 'l) dml_env \<Rightarrow> row_op \<Rightarrow> ('x, 'l) dml \<Rightarrow> (ha_rc \<times> ('x, 'l) dml) option" where
  "run_op lib env (Insert iv img) st = write_row lib env iv img st"
| "run_op lib env (Update iv old img) st = update_row lib env iv old img st"
| "run_op lib env (Delete old) st = delete_row lib env old st"

fun row_spec ::
  "('x, 'l) dml_env \<Rightarrow> (string \<Rightarrow> cf) \<Rightarrow> store \<Rightarrow> (bytes \<rightharpoonup> image) \<Rightarrow> ('x, 'l) dml \<Rightarrow> row_op \<Rightarrow> ha_rc \<times> (bytes \<rightharpoonup> image)" where
  "row_spec env fam w rows st (Insert iv img) =
     (let pk = new_pk_of env img st; rc = insert_outcome env fam w rows pk (d_schema st) img
      in (rc, if rc = HA_OK then rows(pk \<mapsto> img) else rows))"
| "row_spec env fam w rows st (Update iv old img) =
     (let pk = d_current_pk st; pk' = pk_of (de_ix env) pk (row_of (d_schema st) img);
          rc = update_outcome env fam w rows pk pk' (d_schema st) old img
      in (rc, if rc = HA_OK then rows(pk := None, pk' \<mapsto> img) else rows))"
| "row_spec env fam w rows st (Delete old) =
     (let rc = (if is_referenced (de_fk env) fam w (row_of (d_schema st) old) then HA_ERR_ROW_IS_REFERENCED else HA_OK)
      in (rc, if rc = HA_OK then rows(d_current_pk st := None) else rows))"

text \<open>What is assumed of a call: the handler is positioned on the row to change, and what \<open>storable\<close> and \<open>update_fits\<close> say. An
  insert has no counter column and does not replace, and a hidden key it takes is a new one.\<close>

fun row_ok :: "('x, 'l) dml_env \<Rightarrow> (bytes \<rightharpoonup> image) \<Rightarrow> ('x, 'l) dml \<Rightarrow> row_op \<Rightarrow> bool" where
  "row_ok env rows st (Insert iv img) \<longleftrightarrow>
     de_auto_inc env = None \<and> \<not> de_write_can_replace env \<and> storable env iv img st \<and>
     (ix_has_user_pk (de_ix env) \<or> rows (new_pk_of env img st) = None)"
| "row_ok env rows st (Update iv old img) \<longleftrightarrow>
     storable env iv img st \<and> rows (d_current_pk st) = Some old \<and>
     update_fits (de_ix env) (d_current_pk st) (pk_of (de_ix env) (d_current_pk st) (row_of (d_schema st) img))
       (row_of (d_schema st) old) (row_of (d_schema st) img)"
| "row_ok env rows st (Delete old) \<longleftrightarrow> rows (d_current_pk st) = Some old"

lemma elsewhere_trans: "elsewhere ix w w1 \<Longrightarrow> elsewhere ix w1 w2 \<Longrightarrow> elsewhere ix w w2"
  by (simp add: elsewhere_def)

lemma holds_from:
  "holds g good s h db w1 env n rows st \<Longrightarrow> elsewhere (de_ix env) w w1 \<Longrightarrow> holds g good s h db w env n rows st"
  unfolding holds_def using elsewhere_trans by blast


text \<open>A table of two integers, the first its primary key, the second unique.\<close>

definition demo_key :: "nat \<Rightarrow> key_info" where
  "demo_key k = \<lparr>key_parts = [\<lparr>kp_field = demo_int\<lparr>is_nullable := False\<rparr>, kp_fieldnr = k, kp_length = 4, kp_reverse = False\<rparr>], key_nosame = True,
     key_fulltext = False, key_spatial = False, key_alg = HA_KEY_ALG_BTREE\<rparr>"

definition demo_charset :: Fts_Text.charset where
  "demo_charset = \<lparr>mbchar_len = \<lambda>_. 1, is_alnum = \<lambda>b. b \<noteq> 32, casedn = \<lambda>w. w\<rparr>"

definition demo_opts :: tokenize_opts where
  "demo_opts = \<lparr>min_word_len = 1, max_word_len = 8, blend_map = None, stopwords = None\<rparr>"

definition demo_ix :: index_env where
  "demo_ix = \<lparr>ix_ss = \<lambda>f v n. take n (v @ replicate n 0), ix_stale = \<lambda>_. 0, ix_has_user_pk = True, ix_pk_index = 0,
     ix_keys = [demo_key 1, demo_key 2], ix_num_secondary = 1, ix_cf = 5, ix_idx_cfs = [None, Some 6], ix_is_fts = [False, False],
     ix_is_spatial = [False, False], ix_val_str = \<lambda>_ v. v, ix_charset = \<lambda>_. demo_charset, ix_opts = demo_opts, ix_mid = \<lambda>a b. a,
     ix_write_set = \<lambda>_. True\<rparr>"

definition demo_vars :: dml_session where
  "demo_vars = \<lparr>dv_skip_unique = False, dv_ttl = 0, dv_single_delete_primary = False, dv_compact_min_rows = 0\<rparr>"

definition demo_denv :: "(unit, mem) dml_env" where
  "demo_denv = \<lparr>de_ix = demo_ix, de_fk = demo_fk_env\<lparr>fx_parent := []\<rparr>, de_code = demo_fk_code, de_tables = [], de_ops = demo_ops, de_crypto = demo_crypto,
     de_thd = demo_thd, de_session = demo_vars, de_name = None, de_has_ttl = False, de_ttl_field = None, de_default_ttl = 0, de_val_int = \<lambda>_ _. 0,
     de_now = 0, de_auto_inc = None, de_next_number = \<lambda>_. 0, de_write_can_replace = False, de_ref_length = 4, de_triggers = False\<rparr>"

definition demo_int4 :: field_plan_t where
  "demo_int4 = \<lparr>fp_pack_len = 4, fp_memcpy_ok = True, fp_is_blob = False, fp_maybe_null = False, fp_null_byte = 0, fp_null_bit = 0, fp_packlength = 0\<rparr>"

definition demo_pair :: "bytes \<Rightarrow> bytes \<Rightarrow> image" where
  "demo_pair a b = \<lparr>im_nulls = [0], im_slots = [a, b]\<rparr>"

definition demo_dschema :: row_schema where
  "demo_dschema = \<lparr>rs_plan = [demo_int4, demo_int4], rs_null_bytes = 1, rs_default = demo_pair [0, 0, 0, 0] [0, 0, 0, 0], rs_encrypted = False,
     rs_key_id = 0, rs_key_version = 0\<rparr>"

definition demo_dml :: "(unit, mem) dml" where
  "demo_dml = \<lparr>d_ha = fst (snd demo_lock), d_conn = fst (snd (snd demo_lock)), d_eng = snd (snd (snd demo_lock)), d_peers = (), d_current_pk = [],
     d_errkey = None, d_dup_ref = [], d_next_row_id = 1, d_auto_inc_val = 0, d_schema = demo_dschema, d_enc_key_ver = 0, d_vars = demo_vars,
     d_in_bulk_insert = False, d_in_bulk_update = False, d_in_bulk_delete = False, d_bulk_insert_ops = 0, d_bulk_delete_defer = False,
     d_bulk_delete_rows = 0, d_bulk_delete_min = [], d_bulk_delete_max = [], d_bulk_delete_keys = []\<rparr>"

lemma demo_dml_wf: "dml_wf demo_ix 4"
  by (auto simp: dml_wf_def wf_indexes_def demo_ix_def demo_key_def demo_int_def is_spatial_index_def index_cf_def plain_def widths_def ix_pk_key_def
      part_len_def less_Suc_eq is_varbinary_def)

lemma demo_dml_lib: "map_option mt_content (map_of (m_txns (d_lib demo_dml)) 100) = Some ([], [])" "m_db (d_lib demo_dml) = []"
    "m_faults (d_lib demo_dml) = []" "in_stmt 100 demo_dml"
  by code_simp+

lemma demo_dml_state:
  "restrict_only (mem_lib []) good fam (de_fk demo_denv) (de_code demo_denv)" "d_schema demo_dml = demo_dschema" "de_ix demo_denv = demo_ix"
  "stmt_vars demo_denv demo_dml = demo_vars"
  by (simp_all add: restrict_only_def demo_denv_def demo_fk_env_def demo_dml_def stmt_vars_def)

lemma demo_dml_view: "at_view mem_ghost (mem_good (\<lambda>_. True)) mem_sem 100 Map.empty Map.empty (d_lib demo_dml)"
  using demo_dml_lib
  by (auto simp: at_view_def running_def consistent_def mem_good_def mem_ghost_def m_ids_iff c_abs_def apply_writes_def)

lemma demo_holds: "holds mem_ghost (mem_good (\<lambda>_. True)) mem_sem 100 Map.empty Map.empty demo_denv 4 Map.empty demo_dml"
  unfolding holds_def using demo_dml_view demo_dml_lib(4)
  by (intro conjI exI [of _ Map.empty]) (simp_all add: table_in_def mirrors_def mirror_def)

lemma demo_ok: "row_ok demo_denv Map.empty demo_dml (Insert None (demo_pair [0, 0, 0, 7] [0, 0, 0, 3]))"
  by (simp add: storable_def demo_dml_state demo_vars_def, simp add: demo_denv_def demo_dschema_def demo_ix_def short_words_def less_Suc_eq)

lemma demo_spec:
  "row_spec demo_denv (\<lambda>_. 0) w Map.empty demo_dml (Insert None (demo_pair [0, 0, 0, 7] [0, 0, 0, 3])) =
     (HA_OK, [[0, 0, 0, 7] \<mapsto> demo_pair [0, 0, 0, 7] [0, 0, 0, 3]])"
proof -
  have "new_pk_of demo_denv (demo_pair [0, 0, 0, 7] [0, 0, 0, 3]) demo_dml = [0, 0, 0, 7]"
    by code_simp
  moreover have "parents_there (de_fk demo_denv) (\<lambda>_. 0) w r" for r
    by (simp add: parents_there_def demo_denv_def demo_fk_env_def)
  ultimately show ?thesis
    by (simp add: insert_outcome_def clashes_def key_used_def Let_def)
qed



text \<open>The same table with a full-text index on the second column, and a statement that writes only the first.\<close>

definition demo_text_env :: "(unit, mem) dml_env" where
  "demo_text_env = demo_denv\<lparr>de_ix := demo_ix\<lparr>ix_keys := [demo_key 1, (demo_key 2)\<lparr>key_nosame := False, key_fulltext := True, key_alg := HA_KEY_ALG_FULLTEXT\<rparr>],
     ix_is_fts := [False, True], ix_write_set := \<lambda>n. n = 0\<rparr>\<rparr>"

definition demo_text :: "u8 \<Rightarrow> image" where
  "demo_text b = demo_pair [0, 0, 0, b] [97, 98, 99, 100]"

lemma demo_text_words: "fts_extract_and_tokenize (de_ix demo_text_env) (ix_keys (de_ix demo_text_env) ! 1) (row_of demo_dschema (demo_text b)) = [[97, 98, 99, 100]]"
  by code_simp

lemma demo_text_keys:
  "length (ix_keys (de_ix demo_text_env)) = 2" "ix_cf (de_ix demo_text_env) = 5" "index_cf (de_ix demo_text_env) 0 = None"
  "index_cf (de_ix demo_text_env) (Suc 0) = Some 6" "ix_is_fts (de_ix demo_text_env) = [False, True]" "ix_has_user_pk (de_ix demo_text_env)"
  "\<not> touched (de_ix demo_text_env) (ix_keys (de_ix demo_text_env) ! 1)" "unique_prefix (de_ix demo_text_env) r (Suc 0) = None"
  by (simp_all add: demo_text_env_def demo_denv_def demo_ix_def demo_key_def index_cf_def touched_def unique_prefix_def)

lemma demo_text_pk: "pk_of (de_ix demo_text_env) cur (row_of demo_dschema (demo_text b)) = [0, 0, 0, b]"
  by code_simp

lemma demo_text_wf: "dml_wf (de_ix demo_text_env) 4"
  by (auto simp: demo_text_env_def demo_denv_def dml_wf_def wf_indexes_def demo_ix_def demo_key_def demo_int_def is_spatial_index_def index_cf_def plain_def
      widths_def ix_pk_key_def part_len_def less_Suc_eq is_varbinary_def)

definition demo_word :: "bytes \<Rightarrow> bytes" where
  "demo_word pk = fts_build_key [97, 98, 99, 100] pk"

definition demo_text_db :: astore where
  "demo_text_db = [((5, data_key [0, 0, 0, 7]), fst (serialize_row demo_ops demo_crypto None None demo_dschema (demo_text 7))),
     ((6, demo_word [0, 0, 0, 7]), encode_entry_value 1 1)]"

text \<open>The statement is positioned on the only row of the table, which the database holds with its word.\<close>

definition demo_text_dml :: "(unit, mem) dml" where
  "demo_text_dml = (set_d_lib (snd (snd (m_begin (mem_init\<lparr>m_db := demo_text_db\<rparr>)))) demo_dml)\<lparr>d_current_pk := [0, 0, 0, 7]\<rparr>"

lemma demo_text_view: "at_view mem_ghost (mem_good (\<lambda>_. True)) mem_sem 100 (map_of demo_text_db) (map_of demo_text_db) (d_lib demo_text_dml)"
  by (simp add: demo_text_dml_def at_view_def running_def consistent_def mem_good_def mem_ghost_def m_begin_def m_faulty_def mem_init_def
      m_new_id_def m_fresh_def m_set_def m_ids_def c_abs_def apply_writes_def)

lemma demo_text_state:
  "restrict_only (mem_lib []) good fam (de_fk demo_text_env) (de_code demo_text_env)" "in_stmt 100 demo_text_dml"
  "d_schema demo_text_dml = demo_dschema" "d_current_pk demo_text_dml = [0, 0, 0, 7]" "fx_child (de_fk demo_text_env) = []" "fx_parent (de_fk demo_text_env) = []"
  "stmt_vars demo_text_env demo_text_dml = demo_vars" "de_ops demo_text_env = demo_ops" "de_crypto demo_text_env = demo_crypto"
  using demo_dml_lib(4)
  by (simp_all add: restrict_only_def demo_text_env_def demo_denv_def demo_fk_env_def demo_text_dml_def demo_dml_state stmt_vars_def)
    (simp add: demo_dml_def)

lemma demo_text_short: "i < 2 \<Longrightarrow> short_words (de_ix demo_text_env) i (row_of demo_dschema (demo_text b))"
  using demo_text_words by (auto simp: less_2_cases_iff short_words_def demo_text_keys MAX_TERM_BYTES_def)

lemma demo_text_storable: "storable demo_text_env None (demo_text b) demo_text_dml"
  by (simp add: storable_def demo_text_keys demo_text_state demo_text_short demo_vars_def) (simp add: demo_dschema_def)

lemma demo_text_mirrors: "mirrors (de_ix demo_text_env) [[0, 0, 0, 7] \<mapsto> row_of demo_dschema (demo_text 7)] (map_of demo_text_db)"
proof -
  have "idx_entries (de_ix demo_text_env) 1 pk (row_of demo_dschema (demo_text 7)) = [(demo_word pk, encode_entry_value 1 1)]" for pk
    by (simp add: idx_entries_def demo_text_keys fts_entries_def demo_text_words [simplified] tf_map_def fts_entry_def word_count_def demo_word_def)
  then show ?thesis
    by (auto simp: mirrors_def demo_text_keys less_2_cases_iff mirror_def demo_text_db_def split: if_splits)
qed

lemma demo_text_table: "table_in demo_text_env demo_dschema 4 [[0, 0, 0, 7] \<mapsto> demo_text 7] (map_of demo_text_db)"
proof -
  have "row_bytes demo_text_env demo_dschema (demo_text 7) (fst (serialize_row demo_ops demo_crypto None None demo_dschema (demo_text 7)))"
    unfolding row_bytes_def demo_text_state using rekeyed_refl [of demo_dschema] unfolding rekeyed_def by metis
  moreover have "(\<lambda>pk :: bytes. map_option (row_of demo_dschema) ([[0, 0, 0, 7] \<mapsto> demo_text 7] pk)) = [[0, 0, 0, 7] \<mapsto> row_of demo_dschema (demo_text 7)]"
    by auto
  ultimately show ?thesis
    using demo_text_mirrors by (simp add: table_in_def demo_text_keys demo_text_pk demo_text_short) (simp add: demo_text_db_def)
qed

text \<open>C40: A statement that moves a row to another primary key and does not write the indexed text leaves the words of the row
  under the key it no longer has: the text index has the word for the old key, which has no row, and not for the new one.\<close>

theorem moved_row_strands_words:
  "\<exists>st w. update_row (mem_lib []) demo_text_env None (demo_text 7) (demo_text 8) demo_text_dml = Some (HA_OK, st) \<and>
     fst (s_txn mem_sem (d_lib st) 100) = w \<and>
     w (5, data_key [0, 0, 0, 7]) = None \<and> w (5, data_key [0, 0, 0, 8]) \<noteq> None \<and>
     w (6, demo_word [0, 0, 0, 7]) \<noteq> None \<and> w (6, demo_word [0, 0, 0, 8]) = None"
proof -
  have "\<not> clashes_new (de_ix demo_text_env) demo_dschema rows r r'" for rows r r'
    unfolding clashes_new_def demo_text_keys(1)
  proof (intro notI, elim exE conjE)
    fix i
    assume "i < 2" "index_cf (de_ix demo_text_env) i \<noteq> None" "unique_prefix (de_ix demo_text_env) r' i \<noteq> None"
    then show False
      by (auto simp: less_2_cases_iff demo_text_keys)
  qed
  then have out: "update_outcome demo_text_env (\<lambda>_. 0) w [[0, 0, 0, 7] \<mapsto> demo_text 7] [0, 0, 0, 7] [0, 0, 0, 8] demo_dschema (demo_text 7) (demo_text 8) = HA_OK" for w
    by (simp add: update_outcome_def parents_there_def moves_referenced_def demo_text_state)
  have "\<exists>st w. update_row (mem_lib []) demo_text_env None (demo_text 7) (demo_text 8) demo_text_dml = Some (HA_OK, st) \<and>
      at_view mem_ghost (mem_good (\<lambda>_. True)) mem_sem 100 (map_of demo_text_db) w (d_lib st) \<and>
      w (ix_cf (de_ix demo_text_env), data_key [0, 0, 0, 7]) = None \<and> w (ix_cf (de_ix demo_text_env), data_key [0, 0, 0, 8]) \<noteq> None \<and>
      (\<forall>c k. c \<noteq> ix_cf (de_ix demo_text_env) \<longrightarrow> w (c, k) = map_of demo_text_db (c, k))"
  proof (rule moved_row_exact [where rows = "[[0, 0, 0, 7] \<mapsto> demo_text 7]" and fam = "\<lambda>_. 0", OF mem_lib_stores [of "[]"] mem_lib_owns [of "[]", simplified] mem_lib_reliable mem_lib_iterates demo_text_wf
        demo_text_state(1,2) demo_text_view _ demo_text_storable])
    show "\<forall>i < length (ix_keys (de_ix demo_text_env)). index_cf (de_ix demo_text_env) i \<noteq> None \<longrightarrow>
        ix_is_fts (de_ix demo_text_env) ! i \<and> \<not> touched (de_ix demo_text_env) (ix_keys (de_ix demo_text_env) ! i)"
      unfolding demo_text_keys(1) by (auto simp: less_2_cases_iff demo_text_keys demo_text_keys(7) [simplified])
  qed (use demo_text_table out in \<open>simp_all add: demo_text_state demo_text_pk\<close>)
  then obtain st w where u: "update_row (mem_lib []) demo_text_env None (demo_text 7) (demo_text 8) demo_text_dml = Some (HA_OK, st)"
    "at_view mem_ghost (mem_good (\<lambda>_. True)) mem_sem 100 (map_of demo_text_db) w (d_lib st)"
    "w (5, data_key [0, 0, 0, 7]) = None" "w (5, data_key [0, 0, 0, 8]) \<noteq> None" "\<forall>c k. c \<noteq> 5 \<longrightarrow> w (c, k) = map_of demo_text_db (c, k)"
    unfolding demo_text_keys(2) by (elim exE conjE)
  have "demo_word [0, 0, 0, 7] \<noteq> demo_word [0, 0, 0, 8]"
    by code_simp
  then show ?thesis
    using u by (intro exI [of _ st] exI [of _ w]) (simp add: at_view_def, simp add: demo_text_db_def)
qed

end
