(* ===== verification/Spec2Isabelle.thy ===== *)
theory Spec2Isabelle
  imports
    Row_Format Rir Sort_Key Cf_Name Ddl_Log_Rec Crypto_Keyenc Table_Options Fts_Text Spatial
    Xa_Codec Tdb_Lib Fts_Meta Txn Txn_Own Txn_Stmt Txn_Recover Key_Codec Row_Codec
    Tdb_Scan Table_Meta Fk_Catalog Fk_Refine Fk_Check Dml_Index Dml Dml_Table Dml_Refine
begin

text \<open>
  TideSQL is a MySQL storage engine on top of the TidesDB key-value library. This library models the engine's
  sources under \<^verbatim>\<open>src/tidesdb\<close> and proves what makes them correct. Paths below are relative to
  \<^verbatim>\<open>src/tidesdb/src\<close> unless they name a file of \<^verbatim>\<open>src/tidesdb\<close> itself.

  \<^bold>\<open>Parts of the program.\<close> \<^verbatim>\<open>core/\<close> holds the server-free codecs and algorithms, \<^verbatim>\<open>handler/\<close> the storage engine
  proper (transactions, rows, indexes, scans, foreign keys, DDL), \<^verbatim>\<open>engine/\<close> configuration, encryption keys and status. A
  statement enters through \<^verbatim>\<open>external_lock\<close>, which attaches the connection's transaction; row operations write rows
  and index entries through that transaction; commit, rollback and two-phase commit are callbacks of the connection.
  All durable state is in column families of the library.

  \<^bold>\<open>Code that is not here.\<close> The TidesDB library is a parameter: theory Tdb_Lib has a record \<open>tdb_lib\<close> of its calls over an
  arbitrary state, and the contracts \<open>lib_owns\<close> (handles), \<open>lib_stores\<close> (content of transactions and of the store),
  \<open>lib_savepoints\<close> and \<open>lib_iterates\<close>. A library in memory, \<open>mem_lib\<close>, with fault injection, satisfies all four; witnesses
  run on it. The server is a parameter too: the collation of the tokenizer, \<open>make_sort_key\<close> of a field, the thread's
  options and statement.

  \<^bold>\<open>Theories and what they show.\<close>

  \<^item> Prelude: bytes, machine integers, big- and little-endian codecs and their interfaces as locales, memcmp order.
  \<^item> Row_Format (\<^verbatim>\<open>core/row_format\<close>): key namespaces and row headers; hidden keys sort by row id.
  \<^item> Rir (\<^verbatim>\<open>core/rir\<close>): both row estimates stay within the table.
  \<^item> Sort_Key (\<^verbatim>\<open>core/sort_key\<close>): the integer decoder inverts the comparable encoding.
  \<^item> Cf_Name (\<^verbatim>\<open>core/cf_name\<close>): when column family names are injective, and a collision.
  \<^item> Ddl_Log_Rec (\<^verbatim>\<open>core/ddl_log_rec\<close>), Crypto_Keyenc (\<^verbatim>\<open>core/crypto_keyenc\<close>), Xa_Codec (records and XID keys of
    \<^verbatim>\<open>handler/ha_tidesdb_txn.cc\<close>): exact round trips, key order, damaged input.
  \<^item> Table_Options (\<^verbatim>\<open>core/table_options\<close>): parser and serializer of table attributes; round trip, bounds kept, exact numbers.
  \<^item> Fts_Text (\<^verbatim>\<open>core/fts_text\<close>): tokenizer, postings, boolean queries and the phrase test.
  \<^item> Spatial (\<^verbatim>\<open>core/spatial\<close>): the Hilbert curve is a bijection, query ranges are exact, bounding boxes are exact, rows in a
    query box are scanned.
  \<^item> Fts_Meta (totals of \<^verbatim>\<open>handler/ha_tidesdb_fts.cc\<close>): accumulated deltas give exact totals.
  \<^item> Txn (\<^verbatim>\<open>handler/ha_tidesdb_txn.cc\<close>): every transaction, savepoint, statement and two-phase-commit callback over
    the connection's \<open>tidesdb_trx_t\<close> and the engine's globals.
  \<^item> Txn_Own: a step relation of connections, resolvers and recovery; each live library transaction has exactly one
    owner in every reachable state.
  \<^item> Txn_Stmt: statement rollback restores, commit is all or nothing.
  \<^item> Txn_Recover: recovery hands out every in-doubt transaction once; coordinator markers survive a restart.
  \<^item> Key_Codec (\<^verbatim>\<open>handler/ha_tidesdb_keycodec.cc\<close>): comparable keys sort as the server orders rows, covering reads
    rebuild the row.
  \<^item> Row_Codec (\<^verbatim>\<open>handler/ha_tidesdb_row.cc\<close>): stored rows read back, also under a schema with appended columns; the
    packed row fits its buffer.
  \<^item> Tdb_Scan: the loops over library iterators, and \<open>lib_reliable\<close>, a library in which nothing fails.
  \<^item> Table_Meta (\<^verbatim>\<open>handler/ha_tidesdb_table_options.cc\<close>): stored options and index shapes read back.
  \<^item> Fk_Catalog, Fk_Refine (\<^verbatim>\<open>handler/ha_tidesdb_fk.cc\<close>, \<^verbatim>\<open>fk_source*\<close>): the catalog of foreign keys implements a list of
    constraints under create, rename, drop and open.
  \<^item> Fk_Check (\<^verbatim>\<open>handler/ha_tidesdb_fk.cc\<close>): what the checks of both sides decide; cascades run through a record of the calls on
    the other table's handler.
  \<^item> Dml_Index, Dml (\<^verbatim>\<open>handler/ha_tidesdb_dml.cc\<close>, \<^verbatim>\<open>ha_tidesdb_dml_update.cc\<close>): the row operations, the maintenance of
    regular, full-text and spatial indexes, uniqueness, mid-statement commits and bulk statements; every maintainer keeps an index
    a mirror of the table.
  \<^item> Dml_Table, Dml_Refine: the table in a transaction's view is a map from primary keys to rows, and insert, update and delete
    implement the operations on it, constraint errors included; a key change that leaves words behind.

  \<^bold>\<open>Conventions.\<close> Bytes are \<open>8 word\<close>, buffers are byte lists, a nullable pointer is an option, doubles are 64-bit patterns with
  their IEEE order. A library or server error is a value of \<open>tdb_rc\<close> or \<open>ha_rc\<close>; every early return is a branch. Loops over
  data are recursive functions that terminate; the loops whose end depends on the library, the scans of iterators and the cascades
  through other tables, are \<open>partial_function\<close>s, whose theorems show that they return. There is no fuel anywhere.

  \<^bold>\<open>Not modelled.\<close> Logging, memory management, the server's bitmaps of columns, plugin registration, status variables
  and user-defined functions have no engine state. The floating-point cost model and the relevance score compute with doubles
  whose arithmetic is not modelled. Column expiry is not part of the library contract.
\<close>

end
